(* ===== verification/Prelude.thy ===== *)
theory Prelude
  imports Complex_Main Unicode_Tables "HOL-Library.Product_Lexorder" "HOL-Library.Multiset"
begin

text \<open>
  Vocabulary shared by the components: Python strings as lists of code points, the slices
  and the rewriting of a slice the code uses, \<open>max\<close> with a key, the stable descending sort,
  exceptions as values, and the lemmas about them that the component theories rely on.
\<close>

section \<open>Lemma collections\<close>

text \<open>
  \<open>stage_simps\<close> collects what a pipeline stage leaves unchanged, \<open>float_bounds\<close> the sign
  and range facts of rounded arithmetic, \<open>span_intros\<close> the well-formedness of detected spans.
\<close>

named_theorems stage_simps
named_theorems float_bounds
named_theorems span_intros

section \<open>Strings\<close>

text \<open>
  A Python \<open>str\<close> is a sequence of Unicode code points. \<open>lit\<close> reads an ASCII literal.
\<close>

type_synonym pychar = int
type_synonym pystr = "int list"

definition lit :: "string \<Rightarrow> pystr" where
  "lit s = map of_char s"

lemma lit_inject [simp]: "lit s = lit t \<longleftrightarrow> s = t"
  unfolding lit_def by (rule inj_eq [OF inj_mapI]) (auto simp: inj_def)

lemma length_lit [simp]: "length (lit s) = length s"
  by (simp add: lit_def)

lemma lit_Nil_iff [simp]: "lit s = [] \<longleftrightarrow> s = []" "[] = lit s \<longleftrightarrow> s = []"
  by (auto simp: lit_def)

lemma lit_append: "lit (s @ t) = lit s @ lit t"
  by (simp add: lit_def)

text \<open>\<open>t[a:b]\<close> for non-negative bounds, and \<open>t[:a] + v + t[b:]\<close>.\<close>

definition slice :: "nat \<Rightarrow> nat \<Rightarrow> 'a list \<Rightarrow> 'a list" where
  "slice a b t = take (b - a) (drop a t)"

definition splice :: "nat \<Rightarrow> nat \<Rightarrow> 'a list \<Rightarrow> 'a list \<Rightarrow> 'a list" where
  "splice a b v t = take a t @ v @ drop b t"

lemma length_slice: "length (slice a b t) = min (b - a) (length t - a)"
  by (simp add: slice_def min.commute)

lemma length_slice_in [simp]: "b \<le> length t \<Longrightarrow> length (slice a b t) = b - a"
  by (simp add: length_slice)

lemma slice_nth: "a + i < b \<Longrightarrow> b \<le> length t \<Longrightarrow> slice a b t ! i = t ! (a + i)"
  by (simp add: slice_def)

lemma set_slice: "set (slice a b t) \<subseteq> set t"
  unfolding slice_def by (meson set_drop_subset set_take_subset subset_trans)

lemma slice_same [simp]: "slice a a t = []"
  by (simp add: slice_def)

lemma slice_append_slice: "a \<le> b \<Longrightarrow> b \<le> c \<Longrightarrow> slice a b t @ slice b c t = slice a c t"
proof -
  assume "a \<le> b" "b \<le> c"
  then obtain m n where m: "b = a + m" and n: "c = b + n" by (metis le_Suc_ex)
  show ?thesis
    by (simp add: slice_def m n take_add add.commute add.left_commute)
qed

lemma slice_drop: "a \<le> b \<Longrightarrow> slice a b t @ drop b t = drop a t"
  by (simp add: slice_def) (metis append_take_drop_id drop_drop le_add_diff_inverse2)

lemma slice_Suc: "i < length t \<Longrightarrow> slice i (Suc i) t = [t ! i]"
  by (simp add: slice_def take_Suc_conv_app_nth)

lemma slice_take: "b \<le> c \<Longrightarrow> slice a b (take c t) = slice a b t"
  by (simp add: slice_def drop_take min_def)

lemma set_slice_conv: "b \<le> length t \<Longrightarrow> set (slice a b t) = {t ! i | i. a \<le> i \<and> i < b}"
proof -
  assume b: "b \<le> length t"
  have "set (slice a b t) = (\<lambda>i. slice a b t ! i) ` {0..<b - a}"
    using b by (auto simp: set_conv_nth)
  also have "\<dots> = (\<lambda>i. t ! (a + i)) ` {0..<b - a}"
    using b by (intro image_cong) (auto intro!: slice_nth)
  also have "\<dots> = {t ! i | i. a \<le> i \<and> i < b}"
  proof (intro set_eqI iffI)
    fix x assume "x \<in> {t ! i | i. a \<le> i \<and> i < b}"
    then obtain i where "x = t ! i" "a \<le> i" "i < b" by blast
    then show "x \<in> (\<lambda>i. t ! (a + i)) ` {0..<b - a}"
      by (intro image_eqI [of _ _ "i - a"]) auto
  qed auto
  finally show ?thesis .
qed

lemma splice_id: "a \<le> b \<Longrightarrow> splice a b (slice a b t) t = t"
proof -
  assume "a \<le> b"
  then obtain m where m: "b = a + m" by (metis le_Suc_ex)
  show ?thesis
    by (simp add: splice_def slice_def m) (metis append_assoc append_take_drop_id take_add)
qed

lemma length_splice:
  "a \<le> length t \<Longrightarrow> b \<le> length t \<Longrightarrow> length (splice a b v t) = a + length v + (length t - b)"
  by (simp add: splice_def)

lemma take_splice: "c \<le> a \<Longrightarrow> a \<le> length t \<Longrightarrow> take c (splice a b v t) = take c t"
  by (simp add: splice_def)

text \<open>\<open>s.strip()\<close>: white space is removed at both ends.\<close>

definition strip :: "pystr \<Rightarrow> pystr" where
  "strip s = rev (dropWhile is_space (rev (dropWhile is_space s)))"

definition rstrip :: "pystr \<Rightarrow> pystr" where
  "rstrip s = rev (dropWhile is_space (rev s))"

lemma rstrip_prefix: "\<exists>w. s = rstrip s @ w \<and> (\<forall>c \<in> set w. is_space c)"
proof -
  have "rev s = takeWhile is_space (rev s) @ dropWhile is_space (rev s)" by simp
  then have "s = rstrip s @ rev (takeWhile is_space (rev s))"
    unfolding rstrip_def by (metis rev_append rev_rev_ident)
  then show ?thesis by (metis set_rev set_takeWhileD)
qed

lemma strip_set: "set (strip s) \<subseteq> set s"
  by (auto simp: strip_def dest!: set_dropWhileD)

text \<open>Decimal numerals of non-negative integers: \<open>str(n)\<close>.\<close>

fun py_str_nat :: "nat \<Rightarrow> pystr" where
  "py_str_nat n = (if n < 10 then [48 + int n] else py_str_nat (n div 10) @ [48 + int (n mod 10)])"

declare py_str_nat.simps [simp del]

lemma py_str_nat_digits: "c \<in> set (py_str_nat n) \<Longrightarrow> 48 \<le> c \<and> c < 58"
proof (induction n rule: py_str_nat.induct)
  case (1 n)
  show ?case
  proof (cases "n < 10")
    case True
    then show ?thesis using "1.prems" by (subst (asm) py_str_nat.simps) auto
  next
    case False
    then have "c \<in> set (py_str_nat (n div 10)) \<or> c = 48 + int (n mod 10)"
      using "1.prems" by (subst (asm) py_str_nat.simps) auto
    with False "1.IH" show ?thesis by auto
  qed
qed

lemma py_str_nat_nonempty [simp]: "py_str_nat n \<noteq> []"
  by (subst py_str_nat.simps) simp

text \<open>Reading such a numeral back: \<open>int(s)\<close> on ASCII digits.\<close>

definition nat_of_digits :: "pystr \<Rightarrow> nat" where
  "nat_of_digits s = foldl (\<lambda>a c. 10 * a + nat (c - 48)) 0 s"

lemma nat_of_digits_snoc: "nat_of_digits (s @ [c]) = 10 * nat_of_digits s + nat (c - 48)"
  by (simp add: nat_of_digits_def)

lemma nat_of_digits_py_str_nat [simp]: "nat_of_digits (py_str_nat n) = n"
proof (induction n rule: py_str_nat.induct)
  case (1 n)
  show ?case
  proof (cases "n < 10")
    case True
    then show ?thesis by (subst py_str_nat.simps) (simp add: nat_of_digits_def)
  next
    case False
    with "1.IH" show ?thesis by (subst py_str_nat.simps) (simp add: nat_of_digits_snoc)
  qed
qed

lemma py_str_nat_inject [simp]: "py_str_nat m = py_str_nat n \<longleftrightarrow> m = n"
  by (metis nat_of_digits_py_str_nat)

section \<open>Keys, maxima and sorting\<close>

text \<open>\<open>max(x # xs, key=k)\<close>: the first element whose key is greatest.\<close>

fun max_by :: "('a \<Rightarrow> 'k::linorder) \<Rightarrow> 'a \<Rightarrow> 'a list \<Rightarrow> 'a" where
  "max_by k x [] = x"
| "max_by k x (y # ys) = max_by k (if k x < k y then y else x) ys"

lemma max_by_in: "max_by k x xs \<in> insert x (set xs)"
  by (induction xs arbitrary: x) (auto split: if_splits)

lemma max_by_ge: "y \<in> insert x (set xs) \<Longrightarrow> k y \<le> k (max_by k x xs)"
proof (induction xs arbitrary: x y)
  case Nil
  then show ?case by simp
next
  case (Cons z zs)
  let ?m = "if k x < k z then z else x"
  have top: "k ?m \<le> k (max_by k ?m zs)" by (rule Cons.IH) simp
  from Cons.prems consider "y = x" | "y = z" | "y \<in> set zs" by auto
  then show ?case
  proof cases
    case 3
    then show ?thesis using Cons.IH [of y ?m] by simp
  qed (use top in \<open>auto split: if_splits\<close>)
qed

lemma max_by_append: "max_by k x (xs @ ys) = max_by k (max_by k x xs) ys"
  by (induction xs arbitrary: x) auto

text \<open>Ties go to the earlier element: everything before the maximum has a smaller key.\<close>

lemma max_by_first:
  "\<exists>us vs. x # xs = us @ max_by k x xs # vs \<and> (\<forall>u \<in> set us. k u < k (max_by k x xs))"
proof (induction xs rule: rev_induct)
  case Nil
  then show ?case by (intro exI [of _ "[]"]) simp
next
  case (snoc z zs)
  then obtain us vs where split: "x # zs = us @ max_by k x zs # vs"
    and less: "\<forall>u \<in> set us. k u < k (max_by k x zs)" by blast
  show ?case
  proof (cases "k (max_by k x zs) < k z")
    case True
    have "\<forall>u \<in> set (x # zs). k u < k z"
      using True max_by_ge [of _ x zs k] by (auto intro: le_less_trans)
    then show ?thesis using True
      by (intro exI [of _ "x # zs"] exI [of _ "[]"]) (simp add: max_by_append)
  next
    case False
    then show ?thesis using split less
      by (intro exI [of _ us] exI [of _ "vs @ [z]"]) (simp add: max_by_append)
  qed
qed

text \<open>
  \<open>sorted(xs, key=k, reverse=True)\<close>: descending, and still stable, as Python documents.
\<close>

definition sort_desc :: "('a \<Rightarrow> 'k::linorder) \<Rightarrow> 'a list \<Rightarrow> 'a list" where
  "sort_desc k xs = rev (sort_key k (rev xs))"

lemma set_sort_desc [simp]: "set (sort_desc k xs) = set xs"
  by (simp add: sort_desc_def)

lemma mset_sort_desc [simp]: "mset (sort_desc k xs) = mset xs"
  by (simp add: sort_desc_def)

lemma length_sort_desc [simp]: "length (sort_desc k xs) = length xs"
  by (simp add: sort_desc_def)

lemma sorted_sort_desc: "sorted_wrt (\<lambda>x y. k y \<le> k x) (sort_desc k xs)"
proof -
  have "sorted_wrt (\<lambda>x y. k x \<le> k y) (sort_key k (rev xs))"
    using sorted_sort_key [of k "rev xs"] by (simp add: sorted_map)
  then show ?thesis by (simp add: sort_desc_def sorted_wrt_rev)
qed

section \<open>Exceptions as values\<close>

text \<open>
  The exceptions the code raises or catches. A computation that may raise returns
  \<open>Inl\<close> of the exception or \<open>Inr\<close> of its result.
\<close>

datatype py_exn =
    ValueError
  | KeyError
  | TypeError
  | AttributeError
  | IndexError
  | RuntimeError
  | RecursionError
  | DbError
  | CryptoError

type_synonym 'a result = "py_exn + 'a"

definition bind_result :: "'a result \<Rightarrow> ('a \<Rightarrow> 'b result) \<Rightarrow> 'b result" where
  "bind_result r f = (case r of Inl e \<Rightarrow> Inl e | Inr x \<Rightarrow> f x)"

lemma bind_result_simps [simp]:
  "bind_result (Inl e) f = Inl e" "bind_result (Inr x) f = f x"
  by (simp_all add: bind_result_def)

lemma bind_result_Inr:
  "bind_result r f = Inr y \<longleftrightarrow> (\<exists>x. r = Inr x \<and> f x = Inr y)"
  by (cases r) simp_all

text \<open>A comprehension whose element expression may raise, left to right.\<close>

fun map_result :: "('a \<Rightarrow> 'b result) \<Rightarrow> 'a list \<Rightarrow> 'b list result" where
  "map_result f [] = Inr []"
| "map_result f (x # xs) =
     bind_result (f x) (\<lambda>y. bind_result (map_result f xs) (\<lambda>ys. Inr (y # ys)))"

lemma map_result_Inr: "\<forall>x \<in> set xs. f x = Inr (g x) \<Longrightarrow> map_result f xs = Inr (map g xs)"
  by (induction xs) auto

lemma map_result_cong: "xs = ys \<Longrightarrow> (\<And>x. x \<in> set ys \<Longrightarrow> f x = g x) \<Longrightarrow> map_result f xs = map_result g ys"
  by (induction ys arbitrary: xs) auto

definition the_result :: "py_exn \<Rightarrow> 'a option \<Rightarrow> 'a result" where
  "the_result e x = (case x of None \<Rightarrow> Inl e | Some y \<Rightarrow> Inr y)"

lemma the_result_simps [simp]: "the_result e None = Inl e" "the_result e (Some y) = Inr y"
  by (simp_all add: the_result_def)

text \<open>\<open>int(c)\<close> of one character, and of each character of a string.\<close>

definition py_int_char :: "pychar \<Rightarrow> int result" where
  "py_int_char c = the_result ValueError (decimal_value c)"

definition py_ints :: "pystr \<Rightarrow> int list result" where
  "py_ints s = map_result py_int_char s"

definition digit_of :: "pychar \<Rightarrow> int" where
  "digit_of c = (case decimal_value c of None \<Rightarrow> 0 | Some d \<Rightarrow> d)"

lemma digit_of_bounds: "0 \<le> digit_of c" "digit_of c < 10"
  using decimal_value_bound [of c] by (auto simp: digit_of_def split: option.splits)

lemma py_ints_decimal: "\<forall>c \<in> set s. is_decimal c \<Longrightarrow> py_ints s = Inr (map digit_of s)"
  unfolding py_ints_def
  by (rule map_result_Inr) (auto simp: py_int_char_def digit_of_def is_decimal_def)

text \<open>\<open>s.isdigit()\<close>, false of the empty string.\<close>

definition py_isdigit :: "pystr \<Rightarrow> bool" where
  "py_isdigit s = (s \<noteq> [] \<and> (\<forall>c \<in> set s. is_digit c))"

end
