(* ===== verification/Py_Float.thy ===== *)
theory Py_Float
  imports Prelude "HOL-Library.Log_Nat"
begin

text \<open>
  Python's \<open>float\<close> is IEEE 754 binary64. A value is kept as the rational number it denotes,
  and every arithmetic operation rounds the exact result to the nearest number with a
  53-bit significand, ties to even (\<open>fl\<close>). The exponent is not bounded: overflow to
  infinity, subnormal numbers and NaN do not occur for the weights, scores, confidences and
  times the code computes with, and are not modelled. Comparisons are exact, as they are
  on binary64.

  What the scoring code needs of this arithmetic (that rounding is monotone and fixes the
  numbers it can represent) is the locale \<open>rounding\<close>, interpreted on \<open>fl\<close>.
\<close>

type_synonym pyfloat = rat

section \<open>Rounding to nearest, ties to even\<close>

text \<open>The binary exponent of a positive rational: \<open>2 powi (ilog2 x) \<le> x < 2 powi (ilog2 x + 1)\<close>.\<close>

definition ilog2 :: "rat \<Rightarrow> int" where
  "ilog2 x = (let (p, q) = quotient_of x; k = bitlen p - bitlen q
     in if 2 powi k \<le> x then k else k - 1)"

text \<open>Round half to even, to an integer.\<close>

definition rhe :: "rat \<Rightarrow> int" where
  "rhe x = (let f = \<lfloor>x\<rfloor>; r = x - of_int f
     in if r < 1/2 then f else if 1/2 < r then f + 1 else if even f then f else f + 1)"

definition fl :: "rat \<Rightarrow> pyfloat" where
  "fl x = (if x = 0 then 0 else
     let e = ilog2 \<bar>x\<bar> - 52 in of_int (rhe (x / 2 powi e)) * 2 powi e)"

definition fadd :: "pyfloat \<Rightarrow> pyfloat \<Rightarrow> pyfloat" where
  "fadd a b = fl (a + b)"

definition fsub :: "pyfloat \<Rightarrow> pyfloat \<Rightarrow> pyfloat" where
  "fsub a b = fl (a - b)"

definition fmul :: "pyfloat \<Rightarrow> pyfloat \<Rightarrow> pyfloat" where
  "fmul a b = fl (a * b)"

definition fdiv :: "pyfloat \<Rightarrow> pyfloat \<Rightarrow> pyfloat" where
  "fdiv a b = fl (a / b)"

text \<open>\<open>round(x, n)\<close>: correctly rounded to \<open>n\<close> decimals, then to the nearest binary64.\<close>

definition py_round :: "pyfloat \<Rightarrow> nat \<Rightarrow> pyfloat" where
  "py_round x n = fl (of_int (rhe (x * 10 ^ n)) / 10 ^ n)"

lemma rhe_int [simp]: "rhe (of_int n) = n"
  by (simp add: rhe_def)

lemma rhe_bounds: "of_int (rhe x) - x \<le> 1/2" "x - of_int (rhe x) \<le> 1/2"
proof -
  obtain n where n: "\<lfloor>x\<rfloor> = n" by blast
  then have f: "of_int n \<le> x" "x < of_int n + 1" by linarith+
  show "of_int (rhe x) - x \<le> 1/2" "x - of_int (rhe x) \<le> 1/2"
    using f by (auto simp: rhe_def Let_def n)
qed

lemma rhe_mono: "x \<le> y \<Longrightarrow> rhe x \<le> rhe y"
proof -
  assume le: "x \<le> y"
  have f: "of_int \<lfloor>x\<rfloor> \<le> x" "x < of_int \<lfloor>x\<rfloor> + 1" "of_int \<lfloor>y\<rfloor> \<le> y" "y < of_int \<lfloor>y\<rfloor> + 1"
    by linarith+
  show "rhe x \<le> rhe y"
  proof (cases "\<lfloor>x\<rfloor> = \<lfloor>y\<rfloor>")
    case True
    then show ?thesis using le by (auto simp: rhe_def Let_def)
  next
    case False
    with le have "\<lfloor>x\<rfloor> + 1 \<le> \<lfloor>y\<rfloor>" by (meson floor_mono le_less not_less zless_imp_add1_zle)
    moreover have "rhe x \<le> \<lfloor>x\<rfloor> + 1" "\<lfloor>y\<rfloor> \<le> rhe y" by (auto simp: rhe_def Let_def)
    ultimately show ?thesis by linarith
  qed
qed

lemma rhe_minus: "rhe (- x) = - rhe x"
proof (cases "x = of_int \<lfloor>x\<rfloor>")
  case True
  then show ?thesis by (metis of_int_minus rhe_int)
next
  case False
  obtain n where n: "\<lfloor>x\<rfloor> = n" by blast
  then have bounds: "of_int n < x" "x < of_int n + 1" using False by linarith+
  then have fm: "\<lfloor>- x\<rfloor> = - n - 1" by (simp add: floor_eq_iff)
  show ?thesis unfolding rhe_def Let_def fm n using bounds by auto
qed

lemma pow2_pos [simp]: "(0::rat) < 2 powi e"
  by (simp add: zero_less_power_int)

lemma pow2_nz [simp]: "(2::rat) powi e \<noteq> 0"
  by simp

lemma pow2_le_iff: "(2::rat) powi a \<le> 2 powi b \<longleftrightarrow> a \<le> b"
proof
  assume "a \<le> b"
  then show "(2::rat) powi a \<le> 2 powi b" by (rule power_int_increasing) simp
next
  assume le: "(2::rat) powi a \<le> 2 powi b"
  show "a \<le> b"
  proof (rule ccontr)
    assume "\<not> a \<le> b"
    then have "(2::rat) powi (b + 1) \<le> 2 powi a" by (intro power_int_increasing) auto
    moreover have "(2::rat) powi (b + 1) = 2 * 2 powi b" by (simp add: power_int_add)
    ultimately show False using le pow2_pos [of b] by linarith
  qed
qed

lemma bitlen_powi:
  assumes "0 < p"
  shows "(2::rat) powi (bitlen p - 1) \<le> of_int p" "of_int p < (2::rat) powi bitlen p"
proof -
  have pos: "0 < bitlen p" using assms by (metis bitlen_eq_zero_iff bitlen_nonneg less_le not_le)
  have b: "2 ^ nat (bitlen p - 1) \<le> p" "p < 2 ^ nat (bitlen p)"
    using bitlen_bounds [OF assms] by auto
  have "(of_int (2 ^ nat (bitlen p - 1)) :: rat) \<le> of_int p" using b(1) by (simp only: of_int_le_iff)
  then show "(2::rat) powi (bitlen p - 1) \<le> of_int p"
    using pos by (simp add: power_int_def)
  have "(of_int p :: rat) < of_int (2 ^ nat (bitlen p))" using b(2) by (simp only: of_int_less_iff)
  then show "of_int p < (2::rat) powi bitlen p"
    using pos by (simp add: power_int_def)
qed

lemma ilog2_bounds:
  assumes "0 < x"
  shows "2 powi (ilog2 x) \<le> x" "x < 2 powi (ilog2 x + 1)"
proof -
  obtain p q where pq: "quotient_of x = (p, q)" by force
  have q: "0 < q" using pq by (rule quotient_of_denom_pos)
  have x: "x = of_int p / of_int q" using pq by (rule quotient_of_div)
  have p: "0 < p" using assms q by (simp add: x zero_less_divide_iff)
  define k where "k = bitlen p - bitlen q"
  note bp = bitlen_powi [OF p] and bq = bitlen_powi [OF q]
  have qpos: "(0::rat) < of_int q" using q by simp
  have "2 powi (k - 1) * of_int q < (2::rat) powi (k - 1) * 2 powi bitlen q"
    using bq(2) by simp
  also have "\<dots> = 2 powi (bitlen p - 1)" by (simp add: k_def flip: power_int_add)
  also have "\<dots> \<le> of_int p" by (rule bp(1))
  finally have lo: "2 powi (k - 1) < x" using qpos by (simp add: x pos_less_divide_eq)
  have "of_int p < (2::rat) powi bitlen p" by (rule bp(2))
  also have "\<dots> = 2 powi (k + 1) * 2 powi (bitlen q - 1)"
    by (simp add: k_def flip: power_int_add)
  also have "\<dots> \<le> 2 powi (k + 1) * of_int q" using bq(1) by simp
  finally have hi: "x < 2 powi (k + 1)" using qpos by (simp add: x pos_divide_less_eq)
  have eq: "ilog2 x = (if 2 powi k \<le> x then k else k - 1)"
    by (simp add: ilog2_def pq k_def)
  show "2 powi (ilog2 x) \<le> x" using lo by (auto simp: eq)
  show "x < 2 powi (ilog2 x + 1)" using hi by (auto simp: eq)
qed

lemma ilog2_unique:
  assumes "2 powi k \<le> x" "x < 2 powi (k + 1)"
  shows "ilog2 x = k"
proof -
  have pos: "0 < x" using assms(1) pow2_pos less_le_trans by blast
  have "2 powi (ilog2 x) < (2::rat) powi (k + 1)"
    using ilog2_bounds(1) [OF pos] assms(2) by (rule le_less_trans)
  then have "ilog2 x < k + 1" by (meson not_le pow2_le_iff)
  moreover have "2 powi k < (2::rat) powi (ilog2 x + 1)"
    using assms(1) ilog2_bounds(2) [OF pos] by (rule le_less_trans)
  then have "k < ilog2 x + 1" by (meson not_le pow2_le_iff)
  ultimately show ?thesis by linarith
qed

lemma ilog2_mono: "0 < x \<Longrightarrow> x \<le> y \<Longrightarrow> ilog2 x \<le> ilog2 y"
proof -
  assume x: "0 < x" and le: "x \<le> y"
  then have "2 powi (ilog2 x) < (2::rat) powi (ilog2 y + 1)"
    using ilog2_bounds(1) [of x] ilog2_bounds(2) [of y] by linarith
  then show ?thesis by (meson linorder_not_le pow2_le_iff zle_add1_eq_le)
qed

section \<open>Representable numbers\<close>

text \<open>
  A number is representable when it is an integer multiple of \<open>2 powi e\<close> with a
  significand of at most 53 bits.
\<close>

definition representable :: "rat \<Rightarrow> bool" where
  "representable x \<longleftrightarrow> (\<exists>m e. x = of_int m * 2 powi e \<and> \<bar>m\<bar> \<le> 2 ^ 53)"

lemma fl_0 [simp]: "fl 0 = 0"
  by (simp add: fl_def)

lemma fl_minus: "fl (- x) = - fl x"
  by (simp add: fl_def Let_def rhe_minus)

lemma fl_pos_def: "0 < x \<Longrightarrow> fl x = of_int (rhe (x / 2 powi (ilog2 x - 52))) * 2 powi (ilog2 x - 52)"
  by (simp add: fl_def Let_def)

lemma significand_range:
  assumes "0 < x"
  shows "2 ^ 52 \<le> x / 2 powi (ilog2 x - 52)" "x / 2 powi (ilog2 x - 52) < 2 ^ 53"
proof -
  have "(2::rat) ^ 52 * 2 powi (ilog2 x - 52) = 2 powi (52 + (ilog2 x - 52))"
    by (subst power_int_add) simp_all
  then show "2 ^ 52 \<le> x / 2 powi (ilog2 x - 52)"
    using ilog2_bounds(1) [OF assms] by (simp add: pos_le_divide_eq)
  have "(2::rat) ^ 53 * 2 powi (ilog2 x - 52) = 2 powi (53 + (ilog2 x - 52))"
    by (subst power_int_add) simp_all
  also have "\<dots> = 2 powi (ilog2 x + 1)" by (simp add: algebra_simps)
  finally show "x / 2 powi (ilog2 x - 52) < 2 ^ 53"
    using ilog2_bounds(2) [OF assms] by (simp add: pos_divide_less_eq)
qed

lemma significand_rhe_range:
  assumes "0 < x"
  shows "2 ^ 52 \<le> rhe (x / 2 powi (ilog2 x - 52))" "rhe (x / 2 powi (ilog2 x - 52)) \<le> 2 ^ 53"
proof -
  have "rhe (of_int (2 ^ 52)) \<le> rhe (x / 2 powi (ilog2 x - 52))"
    using significand_range(1) [OF assms] by (intro rhe_mono) simp
  then show "2 ^ 52 \<le> rhe (x / 2 powi (ilog2 x - 52))" by (simp only: rhe_int)
  have "rhe (x / 2 powi (ilog2 x - 52)) \<le> rhe (of_int (2 ^ 53))"
    using significand_range(2) [OF assms] by (intro rhe_mono) simp
  then show "rhe (x / 2 powi (ilog2 x - 52)) \<le> 2 ^ 53" by (simp only: rhe_int)
qed

text \<open>The rounded value stays in the binade of its argument, its upper end included.\<close>

lemma fl_binade:
  assumes "0 < x"
  shows "2 powi (ilog2 x) \<le> fl x" "fl x \<le> 2 powi (ilog2 x + 1)"
proof -
  let ?e = "ilog2 x - 52"
  have lo: "(of_int (2 ^ 52) :: rat) \<le> of_int (rhe (x / 2 powi ?e))"
    using significand_rhe_range(1) [OF assms] by (simp only: of_int_le_iff)
  have hi: "(of_int (rhe (x / 2 powi ?e)) :: rat) \<le> of_int (2 ^ 53)"
    using significand_rhe_range(2) [OF assms] by (simp only: of_int_le_iff)
  have "(2::rat) powi (ilog2 x) = 2 powi (52 + ?e)" by simp
  also have "\<dots> = of_int (2 ^ 52) * 2 powi ?e" by (subst power_int_add) simp_all
  also have "\<dots> \<le> fl x" using lo by (simp only: fl_pos_def [OF assms] mult_right_mono pow2_pos less_imp_le)
  finally show "2 powi (ilog2 x) \<le> fl x" .
  have "fl x \<le> of_int (2 ^ 53) * 2 powi ?e"
    using hi by (simp only: fl_pos_def [OF assms] mult_right_mono pow2_pos less_imp_le)
  also have "\<dots> = 2 powi (53 + ?e)" by (subst power_int_add) simp_all
  also have "\<dots> = 2 powi (ilog2 x + 1)" by (simp add: algebra_simps)
  finally show "fl x \<le> 2 powi (ilog2 x + 1)" .
qed

lemma fl_pos: "0 < x \<Longrightarrow> 0 < fl x"
  using fl_binade(1) pow2_pos less_le_trans by blast

lemma fl_mono_pos:
  assumes "0 < x" "x \<le> y"
  shows "fl x \<le> fl y"
proof (cases "ilog2 x = ilog2 y")
  case True
  have "x / 2 powi (ilog2 y - 52) \<le> y / 2 powi (ilog2 y - 52)"
    using assms by (simp add: divide_right_mono)
  then have "rhe (x / 2 powi (ilog2 y - 52)) \<le> rhe (y / 2 powi (ilog2 y - 52))"
    by (rule rhe_mono)
  then show ?thesis using assms by (simp add: fl_pos_def True)
next
  case False
  then have "ilog2 x + 1 \<le> ilog2 y" using ilog2_mono [OF assms] by linarith
  then have "(2::rat) powi (ilog2 x + 1) \<le> 2 powi (ilog2 y)" by (simp only: pow2_le_iff)
  then show ?thesis using fl_binade(2) [of x] fl_binade(1) [of y] assms by linarith
qed

lemma fl_mono: "x \<le> y \<Longrightarrow> fl x \<le> fl y"
proof -
  assume le: "x \<le> y"
  consider "0 < x" | "x \<le> 0" "0 \<le> y" | "y < 0" by linarith
  then show ?thesis
  proof cases
    case 1
    then show ?thesis using le by (rule fl_mono_pos)
  next
    case 2
    have "0 \<le> fl y" using 2 fl_pos [of y] by (cases "y = 0") auto
    moreover have "fl x \<le> 0" using 2 fl_pos [of "- x"] by (cases "x = 0") (auto simp: fl_minus)
    ultimately show ?thesis by linarith
  next
    case 3
    then have "fl (- y) \<le> fl (- x)" using le by (intro fl_mono_pos) auto
    then show ?thesis by (simp add: fl_minus)
  qed
qed

text \<open>Rounding fixes what is representable, and its results are.\<close>

lemma fl_id_scaled:
  assumes "x = of_int m * 2 powi e" "0 < m" "m < 2 ^ 53"
  shows "fl x = x"
proof -
  have x: "0 < x" using assms by simp
  have "(of_int m :: rat) < of_int (2 ^ 53)" using assms(3) by (simp only: of_int_less_iff)
  then have "x < of_int (2 ^ 53) * 2 powi e" using assms(1) by (simp only: mult_strict_right_mono pow2_pos)
  also have "\<dots> = 2 powi (53 + e)" by (subst power_int_add) simp_all
  finally have "2 powi (ilog2 x) < (2::rat) powi (53 + e)" using ilog2_bounds(1) [OF x] by linarith
  then have "ilog2 x < 53 + e" by (meson not_le pow2_le_iff)
  then have "0 \<le> e - (ilog2 x - 52)" by linarith
  then obtain n where "e - (ilog2 x - 52) = int n" by (rule nonneg_int_cases)
  then have n: "e = (ilog2 x - 52) + int n" by linarith
  have "x / 2 powi (ilog2 x - 52) = of_int (m * 2 ^ n)"
    by (subst assms(1), subst n, subst power_int_add) (simp_all add: power_int_of_nat)
  then have "fl x = of_int (m * 2 ^ n) * 2 powi (ilog2 x - 52)"
    by (simp only: fl_pos_def [OF x] rhe_int)
  also have "\<dots> = of_int m * 2 powi (ilog2 x - 52 + int n)"
    by (subst power_int_add) (simp_all add: power_int_of_nat)
  also have "\<dots> = x" by (subst n [symmetric]) (rule assms(1) [symmetric])
  finally show ?thesis .
qed

lemma fl_id_pos:
  assumes "representable x" "0 < x"
  shows "fl x = x"
proof -
  obtain m e where x: "x = of_int m * 2 powi e" "\<bar>m\<bar> \<le> 2 ^ 53"
    using assms(1) by (auto simp: representable_def)
  have m: "0 < m" using assms(2) pow2_pos [of e] by (auto simp: x zero_less_mult_iff)
  show ?thesis
  proof (cases "m = 2 ^ 53")
    case True
    have "x = of_int (2 ^ 52) * 2 powi (e + 1)"
      by (subst x(1), subst True, subst power_int_add) simp_all
    then show ?thesis by (rule fl_id_scaled) simp_all
  next
    case False
    then show ?thesis using x m by (intro fl_id_scaled [of x m e]) auto
  qed
qed

lemma representable_minus: "representable x \<Longrightarrow> representable (- x)"
  unfolding representable_def by (metis abs_minus_cancel mult_minus_left of_int_minus)

lemma fl_id: "representable x \<Longrightarrow> fl x = x"
proof -
  assume r: "representable x"
  consider "x = 0" | "0 < x" | "0 < - x" by linarith
  then show "fl x = x"
  proof cases
    case 3
    then have "fl (- x) = - x" using r by (intro fl_id_pos representable_minus)
    then show ?thesis by (simp add: fl_minus)
  qed (use r fl_id_pos in auto)
qed

lemma representable_fl_pos: "0 < x \<Longrightarrow> representable (fl x)"
proof -
  assume x: "0 < x"
  have "\<bar>rhe (x / 2 powi (ilog2 x - 52))\<bar> \<le> 2 ^ 53"
    using significand_rhe_range [OF x] by simp
  then show ?thesis unfolding representable_def fl_pos_def [OF x] by blast
qed

lemma representable_0 [simp]: "representable 0"
  unfolding representable_def by (intro exI [of _ 0]) simp

lemma representable_fl: "representable (fl x)"
proof -
  consider "x = 0" | "0 < x" | "0 < - x" by linarith
  then show ?thesis
  proof cases
    case 3
    then have "representable (- fl (- x))" by (intro representable_minus representable_fl_pos)
    then show ?thesis by (simp add: fl_minus)
  qed (use representable_fl_pos in auto)
qed

lemma representable_of_int: "\<bar>m\<bar> \<le> 2 ^ 53 \<Longrightarrow> representable (of_int m)"
  unfolding representable_def by (intro exI [of _ m] exI [of _ 0]) simp

section \<open>The interface of rounded arithmetic\<close>

text \<open>
  What the scoring functions rely on: rounding is monotone, fixes its own results, and
  represents 0 and 1. The clients accumulate weights with \<open>total += weight\<close>; the lemmas
  about such a running sum are proved once here.
\<close>

locale rounding =
  fixes rnd :: "rat \<Rightarrow> rat"
  assumes rnd_mono: "x \<le> y \<Longrightarrow> rnd x \<le> rnd y"
    and rnd_idem: "rnd (rnd x) = rnd x"
    and rnd_0: "rnd 0 = 0"
    and rnd_1: "rnd 1 = 1"
begin

lemma nonneg: "0 \<le> x \<Longrightarrow> 0 \<le> rnd x"
  using rnd_mono [of 0 x] by (simp add: rnd_0)

lemma nonpos: "x \<le> 0 \<Longrightarrow> rnd x \<le> 0"
  using rnd_mono [of x 0] by (simp add: rnd_0)

lemma le_one: "x \<le> 1 \<Longrightarrow> rnd x \<le> 1"
  using rnd_mono [of x 1] by (simp add: rnd_1)

lemma sum_nonneg: "\<forall>w \<in> set ws. 0 \<le> w \<Longrightarrow> 0 \<le> a \<Longrightarrow> 0 \<le> foldl (\<lambda>s w. rnd (s + w)) a ws"
  by (induction ws arbitrary: a) (auto simp: nonneg)

lemma sum_fixed: "rnd a = a \<Longrightarrow> rnd (foldl (\<lambda>s w. rnd (s + w)) a ws) = foldl (\<lambda>s w. rnd (s + w)) a ws"
  by (induction ws arbitrary: a) (auto simp: rnd_idem)

text \<open>Summing more of the same non-negative weights never gives less.\<close>

lemma sum_filter_mono:
  assumes "\<forall>w \<in> set ws. 0 \<le> f w" "\<forall>w \<in> set ws. P w \<longrightarrow> Q w" "a \<le> b" "rnd a = a"
  shows "foldl (\<lambda>s w. rnd (s + f w)) a (filter P ws) \<le> foldl (\<lambda>s w. rnd (s + f w)) b (filter Q ws)"
  using assms
proof (induction ws arbitrary: a b)
  case Nil
  then show ?case by simp
next
  case (Cons w ws)
  have up: "rnd (a + f w) \<le> rnd (b + f w)" using Cons.prems(3) by (intro rnd_mono) simp
  have "rnd a \<le> rnd (b + f w)" using Cons.prems by (intro rnd_mono) (simp add: add_increasing2)
  then have skip: "a \<le> rnd (b + f w)" using Cons.prems(4) by simp
  have rest: "\<forall>w \<in> set ws. 0 \<le> f w" "\<forall>w \<in> set ws. P w \<longrightarrow> Q w" using Cons.prems by auto
  note IH = Cons.IH [OF rest]
  show ?case
    using IH [OF up rnd_idem] IH [OF skip Cons.prems(4)] IH [OF Cons.prems(3,4)] Cons.prems(2)
    by auto
qed

end

interpretation b64: rounding fl
proof
  show "fl x \<le> fl y" if "x \<le> y" for x y using that by (rule fl_mono)
  show "fl (fl x) = fl x" for x by (rule fl_id) (rule representable_fl)
  show "fl 1 = 1" using representable_of_int [of 1] by (intro fl_id) simp
qed (rule fl_0)

lemmas float_sign [float_bounds] = b64.nonneg b64.nonpos b64.le_one

lemma fadd_nonneg [float_bounds]: "0 \<le> a \<Longrightarrow> 0 \<le> b \<Longrightarrow> 0 \<le> fadd a b"
  by (simp add: fadd_def b64.nonneg)

lemma fmul_nonneg [float_bounds]: "0 \<le> a \<Longrightarrow> 0 \<le> b \<Longrightarrow> 0 \<le> fmul a b"
  by (simp add: fmul_def b64.nonneg)

lemma fadd_mono [float_bounds]: "a \<le> c \<Longrightarrow> b \<le> d \<Longrightarrow> fadd a b \<le> fadd c d"
  by (simp add: fadd_def fl_mono)

text \<open>The relative error of one rounding is at most \<open>2 powi (- 53)\<close>.\<close>

lemma fl_error_pos:
  assumes "0 < x"
  shows "\<bar>fl x - x\<bar> \<le> x * 2 powi (- 53)"
proof -
  let ?e = "ilog2 x - 52" and ?u = "2 powi (ilog2 x - 52) :: rat"
  have "x = (x / ?u) * ?u" by simp
  then have "fl x - x = (of_int (rhe (x / ?u)) - x / ?u) * ?u"
    by (metis fl_pos_def [OF assms] left_diff_distrib)
  then have "\<bar>fl x - x\<bar> = \<bar>of_int (rhe (x / ?u)) - x / ?u\<bar> * ?u"
    by (simp add: abs_mult)
  also have "\<dots> \<le> 1/2 * ?u"
    using rhe_bounds [of "x / ?u"] by (intro mult_right_mono abs_leI) (linarith | simp)+
  also have "\<dots> = 2 powi (ilog2 x) * 2 powi (- 53)"
    using power_int_add [of "2::rat" "ilog2 x" "- 53"] power_int_add [of "2::rat" "ilog2 x" "- 52"]
    by (simp add: power_int_minus)
  also have "\<dots> \<le> x * 2 powi (- 53)"
    using ilog2_bounds(1) [OF assms] by (intro mult_right_mono) auto
  finally show ?thesis .
qed

end
