(* ===== verification/Models.thy ===== *)
theory Models
  imports Py_Float
begin

text \<open>
  \<open>app/models.py\<close>: the contract types every component exchanges, and the Python values
  (\<open>dict\<close>, \<open>list\<close>, ...) that make up a verdict's reason and the request bodies.

  \<open>Turn\<close>, \<open>Span\<close>, \<open>InjectionVerdict\<close>, \<open>AnalysisContext\<close> and \<open>Decision\<close> are the records \<open>turn\<close>,
  \<open>span\<close>, \<open>injection_verdict\<close>, \<open>ctx\<close> and \<open>decision\<close>. A stage that mutates the context
  returns the updated record. \<open>x | None\<close> is \<open>option\<close>; a span's offsets are non-negative.
\<close>

section \<open>Python values\<close>

text \<open>A \<open>dict\<close> is the list of its items in insertion order.\<close>

datatype pyval =
    PNone
  | PBool bool
  | PInt int
  | PFloat pyfloat
  | PNonFinite pystr   \<comment> \<open>the floats that are no number: \<open>nan\<close>, \<open>inf\<close>, \<open>-inf\<close>\<close>
  | PStr pystr
  | PList "pyval list"
  | PDict "(pystr \<times> pyval) list"

text \<open>\<open>d.get(k)\<close>; \<open>d[k] = v\<close> keeps the place of an existing key; \<open>d.update(e)\<close>.\<close>

definition dict_get :: "(pystr \<times> 'v) list \<Rightarrow> pystr \<Rightarrow> 'v option" where
  "dict_get d k = map_of d k"

fun dict_set :: "'k \<Rightarrow> 'v \<Rightarrow> ('k \<times> 'v) list \<Rightarrow> ('k \<times> 'v) list" where
  "dict_set k v [] = [(k, v)]"
| "dict_set k v ((k', v') # d) = (if k = k' then (k, v) # d else (k', v') # dict_set k v d)"

definition dict_update :: "('k \<times> 'v) list \<Rightarrow> ('k \<times> 'v) list \<Rightarrow> ('k \<times> 'v) list" where
  "dict_update d e = foldl (\<lambda>d (k, v). dict_set k v d) d e"

lemma map_of_dict_set [simp]: "map_of (dict_set k v d) = (map_of d)(k \<mapsto> v)"
  by (induction d) auto

lemma dict_set_keys: "map fst (dict_set k v d) = (if k \<in> set (map fst d) then map fst d else map fst d @ [k])"
  by (induction d rule: dict_set.induct) auto

lemma distinct_dict_set [simp]: "distinct (map fst d) \<Longrightarrow> distinct (map fst (dict_set k v d))"
  by (simp add: dict_set_keys)

lemma dict_update_map_of: "map_of (dict_update d e) = map_of d ++ map_of (rev e)"
  unfolding dict_update_def
proof (induction e arbitrary: d)
  case (Cons x e)
  then show ?case by (cases x) (auto simp: map_add_def fun_eq_iff split: option.splits)
qed simp

text \<open>Truth value of a Python value, as \<open>x or default\<close> and \<open>if x\<close> use it.\<close>

fun truthy :: "pyval \<Rightarrow> bool" where
  "truthy PNone = False"
| "truthy (PBool b) = b"
| "truthy (PInt n) = (n \<noteq> 0)"
| "truthy (PFloat x) = (x \<noteq> 0)"
| "truthy (PNonFinite s) = True"
| "truthy (PStr s) = (s \<noteq> [])"
| "truthy (PList xs) = (xs \<noteq> [])"
| "truthy (PDict d) = (d \<noteq> [])"

definition opt_str :: "pystr option \<Rightarrow> pyval" where
  "opt_str x = (case x of None \<Rightarrow> PNone | Some s \<Rightarrow> PStr s)"

section \<open>Contract types\<close>

record turn =
  trole :: pystr
  ttext :: pystr

record span =
  stype :: pystr
  svalue :: pystr
  sstart :: nat
  send :: nat
  sconfidence :: pyfloat
  ssource :: pystr

record injection_verdict =
  ihit :: bool
  iscore :: pyfloat
  ipattern :: "pystr option"

definition no_injection :: injection_verdict where
  "no_injection = \<lparr>ihit = False, iscore = 0, ipattern = None\<rparr>"

record ctx =
  session_id :: pystr
  direction :: pystr
  provider :: pystr
  role :: "pystr option"
  turns :: "turn list"
  new_turn_spans :: "span list"
  accumulated :: "(pystr \<times> span list) list"
  risk_score :: pyfloat
  injection :: injection_verdict
  blocked :: bool
  block_reason :: "(pystr \<times> pyval) list option"
  purpose :: "pystr option"
  purpose_confidence :: "pyfloat option"
  span_actions :: "(span \<times> pystr) list"

text \<open>The dataclass constructor with its default field values.\<close>

definition new_ctx :: "pystr \<Rightarrow> pystr \<Rightarrow> pystr \<Rightarrow> pystr option \<Rightarrow> turn list \<Rightarrow> ctx" where
  "new_ctx sid dir prov r ts =
     \<lparr>session_id = sid, direction = dir, provider = prov, role = r, turns = ts,
      new_turn_spans = [], accumulated = [], risk_score = 0, injection = no_injection,
      blocked = False, block_reason = None, purpose = None, purpose_confidence = None,
      span_actions = []\<rparr>"

text \<open>\<open>transformed_body\<close> is \<open>None\<close> unless the action is \<open>transform\<close>.\<close>

record 'body decision =
  action :: pystr
  transformed_body :: "'body option"
  reason_obj :: "(pystr \<times> pyval) list"

definition WIRE_ACTIONS :: "pystr list" where
  "WIRE_ACTIONS = [lit ''allow'', lit ''block'', lit ''transform'']"

definition TRANSFORM_ACTIONS :: "pystr list" where
  "TRANSFORM_ACTIONS = [lit ''keep'', lit ''mask'', lit ''generalize'', lit ''aggregate'',
     lit ''tokenize'', lit ''synthetic'', lit ''redact'', lit ''block'']"

section \<open>Spans of a text\<close>

text \<open>
  A span describes a text when it is a non-empty range inside it and carries exactly the
  characters of that range.
\<close>

definition span_of :: "pystr \<Rightarrow> span \<Rightarrow> bool" where
  "span_of t s \<longleftrightarrow> sstart s < send s \<and> send s \<le> length t \<and> svalue s = slice (sstart s) (send s) t"

definition overlaps :: "span \<Rightarrow> span \<Rightarrow> bool" where
  "overlaps a b = (sstart a < send b \<and> sstart b < send a)"

lemma overlaps_sym: "overlaps a b = overlaps b a"
  by (auto simp: overlaps_def)

lemma span_ofI [span_intros]:
  "sstart s < send s \<Longrightarrow> send s \<le> length t \<Longrightarrow> svalue s = slice (sstart s) (send s) t \<Longrightarrow> span_of t s"
  by (simp add: span_of_def)

lemma span_of_value: "span_of t s \<Longrightarrow> length (svalue s) = send s - sstart s \<and> svalue s \<noteq> []"
  by (auto simp: span_of_def slice_def)

text \<open>Spans in the order of their start, each ending before the next begins.\<close>

definition disjoint_spans :: "span list \<Rightarrow> bool" where
  "disjoint_spans ss = sorted_wrt (\<lambda>a b. send a \<le> sstart b) ss"

lemma disjoint_spans_no_overlap:
  assumes "disjoint_spans ss" "i < j" "j < length ss"
  shows "\<not> overlaps (ss ! i) (ss ! j)"
proof -
  have "send (ss ! i) \<le> sstart (ss ! j)"
    using assms unfolding disjoint_spans_def sorted_wrt_iff_nth_less by blast
  then show ?thesis by (simp add: overlaps_def)
qed

end
