(* ===== verification/Py_Regex.thy ===== *)
theory Py_Regex
  imports Prelude
begin

text \<open>
  The part of Python's \<open>re\<close> module that the patterns of this repository use. A pattern is a
  value of \<open>re\<close>, and \<open>rm\<close> is the backtracking matcher: it lists the ends (and captured
  groups) of the matches that start at a position, in the order the engine tries them, so
  the first one is the match the engine reports. \<open>re_search\<close>, \<open>re_finditer\<close>, \<open>re_fullmatch\<close>
  and \<open>re_sub\<close> are the calls of the same names.

  Patterns are compiled with or without \<open>re.IGNORECASE\<close> (the argument \<open>ic\<close>). Every
  repeated sub-pattern of the repository consumes at least one character, and no pattern
  given to \<open>finditer\<close> or \<open>sub\<close> matches the empty string; the rules of the engine for empty
  iterations and empty matches are reduced accordingly.
\<close>

named_theorems rm_iff

section \<open>Patterns\<close>

datatype cls =
    Lit pychar              \<comment> \<open>a literal character\<close>
  | Rng pychar pychar       \<comment> \<open>\<open>a-b\<close> in a character class\<close>
  | Dig                     \<comment> \<open>\<open>\d\<close>\<close>
  | Spc                     \<comment> \<open>\<open>\s\<close>\<close>
  | Wrd                     \<comment> \<open>\<open>\w\<close>\<close>

datatype re =
    Emp
  | Cls bool "cls list"     \<comment> \<open>\<open>[...]\<close>, or \<open>[^...]\<close> when the flag is set\<close>
  | Seq re re
  | Alt re re
  | Rep re nat "nat option" \<comment> \<open>greedy \<open>{m,n}\<close>, \<open>None\<close> for no upper bound\<close>
  | Grp nat re              \<comment> \<open>a numbered group\<close>
  | Bol                     \<comment> \<open>\<open>^\<close>\<close>
  | Eol                     \<comment> \<open>\<open>$\<close>\<close>
  | Wb                      \<comment> \<open>\<open>\b\<close>\<close>
  | Behind bool "cls list"  \<comment> \<open>\<open>(?<=.)\<close>, or \<open>(?<!.)\<close> when the flag is set\<close>
  | Ahead bool "cls list"   \<comment> \<open>\<open>(?=.)\<close>, or \<open>(?!.)\<close> when the flag is set\<close>

abbreviation "Dot \<equiv> Cls True [Lit 10]"
abbreviation "Digit \<equiv> Cls False [Dig]"
abbreviation "Opt r \<equiv> Rep r 0 (Some 1)"
abbreviation "Star r \<equiv> Rep r 0 None"
abbreviation "Plus r \<equiv> Rep r 1 None"
abbreviation "Ws \<equiv> Star (Cls False [Spc])"
abbreviation "Ws1 \<equiv> Plus (Cls False [Spc])"
abbreviation "Ws01 \<equiv> Opt (Cls False [Spc])"
abbreviation "Times r n \<equiv> Rep r n (Some n)"

fun seqs :: "re list \<Rightarrow> re" where
  "seqs [] = Emp"
| "seqs [r] = r"
| "seqs (r # rs) = Seq r (seqs rs)"

fun alts :: "re list \<Rightarrow> re" where
  "alts [] = Emp"
| "alts [r] = r"
| "alts (r # rs) = Alt r (alts rs)"

text \<open>A literal text: its characters in sequence. \<open>word\<close> is an ASCII one.\<close>

definition text_re :: "pystr \<Rightarrow> re" where
  "text_re s = seqs (map (\<lambda>c. Cls False [Lit c]) s)"

definition word :: "string \<Rightarrow> re" where
  "word s = text_re (lit s)"

definition words :: "string list \<Rightarrow> re" where
  "words ss = alts (map word ss)"

section \<open>Character tests\<close>

text \<open>
  Under \<open>IGNORECASE\<close> an ASCII letter of the pattern matches both its cases, and the
  non-ASCII letters whose case folding is that letter: dotted and dotless i, the long s
  and the Kelvin sign. Hangul and punctuation have no case.
\<close>

definition ci_fold :: "pychar \<Rightarrow> pychar" where
  "ci_fold c = (if 65 \<le> c \<and> c \<le> 90 then c + 32
     else if c = 304 \<or> c = 305 then 105
     else if c = 383 then 115
     else if c = 8490 then 107
     else c)"

fun cls_has :: "bool \<Rightarrow> cls \<Rightarrow> pychar \<Rightarrow> bool" where
  "cls_has ic (Lit p) c = (if ic then ci_fold p = ci_fold c else p = c)"
| "cls_has ic (Rng a b) c = (a \<le> c \<and> c \<le> b)"
| "cls_has ic Dig c = is_decimal c"
| "cls_has ic Spc c = is_space c"
| "cls_has ic Wrd c = is_word c"

definition in_cls :: "bool \<Rightarrow> bool \<Rightarrow> cls list \<Rightarrow> pychar \<Rightarrow> bool" where
  "in_cls ic neg cs c = ((\<exists>k \<in> set cs. cls_has ic k c) \<noteq> neg)"

definition word_before :: "pystr \<Rightarrow> nat \<Rightarrow> bool" where
  "word_before t i = (0 < i \<and> i \<le> length t \<and> is_word (t ! (i - 1)))"

definition word_after :: "pystr \<Rightarrow> nat \<Rightarrow> bool" where
  "word_after t i = (i < length t \<and> is_word (t ! i))"

section \<open>The matcher\<close>

text \<open>Captured groups, the latest first: group number, start and end.\<close>

type_synonym caps = "(nat \<times> nat \<times> nat) list"
type_synonym mres = "(nat \<times> caps) list"

definition then_m :: "mres \<Rightarrow> (nat \<Rightarrow> caps \<Rightarrow> mres) \<Rightarrow> mres" where
  "then_m rs k = concat (map (\<lambda>(j, d). k j d) rs)"

lemma set_then_m: "set (then_m rs k) = (\<Union>(j, d) \<in> set rs. set (k j d))"
  by (auto simp: then_m_def)

fun exactly :: "(nat \<Rightarrow> caps \<Rightarrow> mres) \<Rightarrow> nat \<Rightarrow> nat \<Rightarrow> caps \<Rightarrow> mres" where
  "exactly f 0 i c = [(i, c)]"
| "exactly f (Suc m) i c = then_m (f i c) (exactly f m)"

fun greedy :: "(nat \<Rightarrow> caps \<Rightarrow> mres) \<Rightarrow> nat \<Rightarrow> nat \<Rightarrow> caps \<Rightarrow> mres" where
  "greedy f 0 i c = [(i, c)]"
| "greedy f (Suc n) i c =
     then_m (f i c) (\<lambda>j d. if i < j then greedy f n j d else []) @ [(i, c)]"

text \<open>
  An unbounded repetition needs at most one iteration per remaining character, so the
  length of the text bounds it.
\<close>

primrec rm :: "re \<Rightarrow> bool \<Rightarrow> pystr \<Rightarrow> nat \<Rightarrow> caps \<Rightarrow> mres" where
  "rm Emp ic t i c = [(i, c)]"
| "rm (Cls neg cs) ic t i c = (if i < length t \<and> in_cls ic neg cs (t ! i) then [(Suc i, c)] else [])"
| "rm (Seq r s) ic t i c = then_m (rm r ic t i c) (rm s ic t)"
| "rm (Alt r s) ic t i c = rm r ic t i c @ rm s ic t i c"
| "rm (Rep r m n) ic t i c =
     then_m (exactly (rm r ic t) m i c)
       (greedy (rm r ic t) (case n of None \<Rightarrow> length t | Some n \<Rightarrow> n - m))"
| "rm (Grp k r) ic t i c = map (\<lambda>(j, d). (j, (k, i, j) # d)) (rm r ic t i c)"
| "rm Bol ic t i c = (if i = 0 then [(i, c)] else [])"
| "rm Eol ic t i c =
     (if i = length t \<or> (Suc i = length t \<and> t ! i = 10) then [(i, c)] else [])"
| "rm Wb ic t i c = (if word_before t i \<noteq> word_after t i then [(i, c)] else [])"
| "rm (Behind neg cs) ic t i c =
     (if (0 < i \<and> i \<le> length t \<and> in_cls ic False cs (t ! (i - 1))) \<noteq> neg then [(i, c)] else [])"
| "rm (Ahead neg cs) ic t i c =
     (if (i < length t \<and> in_cls ic False cs (t ! i)) \<noteq> neg then [(i, c)] else [])"

text \<open>A match object: start, end and groups.\<close>

record match =
  mstart :: nat
  mend :: nat
  mcaps :: caps

definition group :: "pystr \<Rightarrow> match \<Rightarrow> nat \<Rightarrow> pystr option" where
  "group t m k = (case map_of (mcaps m) k of None \<Rightarrow> None | Some (a, b) \<Rightarrow> Some (slice a b t))"

definition group0 :: "pystr \<Rightarrow> match \<Rightarrow> pystr" where
  "group0 t m = slice (mstart m) (mend m) t"

definition match_at :: "re \<Rightarrow> bool \<Rightarrow> pystr \<Rightarrow> nat \<Rightarrow> match option" where
  "match_at r ic t i = (case rm r ic t i [] of [] \<Rightarrow> None
     | (j, d) # _ \<Rightarrow> Some \<lparr>mstart = i, mend = j, mcaps = d\<rparr>)"

function re_finditer_from :: "re \<Rightarrow> bool \<Rightarrow> pystr \<Rightarrow> nat \<Rightarrow> match list" where
  "re_finditer_from r ic t i =
     (if length t < i then []
      else case match_at r ic t i of
          None \<Rightarrow> re_finditer_from r ic t (Suc i)
        | Some m \<Rightarrow> m # re_finditer_from r ic t (max (Suc i) (mend m)))"
  by pat_completeness auto
termination
  by (relation "measure (\<lambda>(r, ic, t, i). Suc (length t) - i)") auto

declare re_finditer_from.simps [simp del]

definition re_finditer :: "re \<Rightarrow> bool \<Rightarrow> pystr \<Rightarrow> match list" where
  "re_finditer r ic t = re_finditer_from r ic t 0"

definition re_search :: "re \<Rightarrow> bool \<Rightarrow> pystr \<Rightarrow> match option" where
  "re_search r ic t = (case re_finditer_from r ic t 0 of [] \<Rightarrow> None | m # _ \<Rightarrow> Some m)"

definition re_fullmatch :: "re \<Rightarrow> bool \<Rightarrow> pystr \<Rightarrow> match option" where
  "re_fullmatch r ic t = (case filter (\<lambda>(j, d). j = length t) (rm r ic t 0 []) of [] \<Rightarrow> None
     | (j, d) # _ \<Rightarrow> Some \<lparr>mstart = 0, mend = j, mcaps = d\<rparr>)"

text \<open>\<open>re.sub\<close> with a replacement function: the matches of \<open>finditer\<close>, each replaced.\<close>

fun sub_pieces :: "(match \<Rightarrow> pystr) \<Rightarrow> pystr \<Rightarrow> nat \<Rightarrow> match list \<Rightarrow> pystr" where
  "sub_pieces f t i [] = drop i t"
| "sub_pieces f t i (m # ms) = slice i (mstart m) t @ f m @ sub_pieces f t (mend m) ms"

definition re_sub :: "re \<Rightarrow> bool \<Rightarrow> (match \<Rightarrow> pystr) \<Rightarrow> pystr \<Rightarrow> pystr" where
  "re_sub r ic f t = sub_pieces f t 0 (re_finditer r ic t)"

section \<open>What every match satisfies\<close>

text \<open>An invariant of the body of a repetition is an invariant of the repetition.\<close>

lemma exactly_inv:
  assumes f: "\<And>i c j d. I i c \<Longrightarrow> (j, d) \<in> set (f i c) \<Longrightarrow> I j d"
    and "I i c" "(j, d) \<in> set (exactly f m i c)"
  shows "I j d"
  using assms(2,3)
proof (induction m arbitrary: i c)
  case (Suc m)
  then obtain k e where k: "(k, e) \<in> set (f i c)" and j: "(j, d) \<in> set (exactly f m k e)"
    by (auto simp: set_then_m)
  show ?case by (rule Suc.IH [OF f [OF Suc.prems(1) k] j])
qed simp

lemma greedy_inv:
  assumes f: "\<And>i c j d. I i c \<Longrightarrow> (j, d) \<in> set (f i c) \<Longrightarrow> I j d"
    and "I i c" "(j, d) \<in> set (greedy f n i c)"
  shows "I j d"
  using assms(2,3)
proof (induction n arbitrary: i c)
  case (Suc n)
  then consider "(j, d) = (i, c)"
    | k e where "(k, e) \<in> set (f i c)" "(j, d) \<in> set (greedy f n k e)"
    by (auto simp: set_then_m split: if_splits)
  then show ?case
  proof cases
    case 1
    then show ?thesis using Suc.prems by simp
  next
    case 2
    then show ?thesis using Suc.IH [OF f [OF Suc.prems(1)]] by blast
  qed
qed simp

lemma rep_inv:
  assumes "\<And>i c j d. I i c \<Longrightarrow> (j, d) \<in> set (rm r ic t i c) \<Longrightarrow> I j d"
    and "I i c" "(j, d) \<in> set (rm (Rep r m n) ic t i c)"
  shows "I j d"
proof -
  obtain k e where k: "(k, e) \<in> set (exactly (rm r ic t) m i c)"
    and j: "(j, d) \<in> set (greedy (rm r ic t) (case n of None \<Rightarrow> length t | Some n \<Rightarrow> n - m) k e)"
    using assms(3) by (auto simp: set_then_m)
  have "I k e" using assms(1,2) k by (rule exactly_inv)
  with assms(1) show ?thesis using j by (rule greedy_inv)
qed

lemma rm_bounds:
  "(j, d) \<in> set (rm r ic t i c) \<Longrightarrow> i \<le> length t \<Longrightarrow> i \<le> j \<and> j \<le> length t"
proof (induction r arbitrary: i c j d)
  case (Seq r s)
  then obtain k e where "(k, e) \<in> set (rm r ic t i c)" "(j, d) \<in> set (rm s ic t k e)"
    by (auto simp: set_then_m)
  with Seq.IH Seq.prems(2) show ?case by (meson le_trans)
next
  case (Rep r m n)
  let ?I = "\<lambda>j d. i \<le> j \<and> j \<le> length t"
  show ?case
  proof (rule rep_inv [where I = ?I, OF _ _ Rep.prems(1)])
    show "?I l f" if "?I k e" "(l, f) \<in> set (rm r ic t k e)" for k e l f
      using Rep.IH [OF that(2)] that(1) by linarith
  qed (use Rep.prems in simp)
qed (auto split: if_splits)

text \<open>Every consumed character is accepted by some character class of the pattern.\<close>

primrec accepts :: "re \<Rightarrow> bool \<Rightarrow> pychar \<Rightarrow> bool" where
  "accepts Emp ic x = False"
| "accepts (Cls neg cs) ic x = in_cls ic neg cs x"
| "accepts (Seq r s) ic x = (accepts r ic x \<or> accepts s ic x)"
| "accepts (Alt r s) ic x = (accepts r ic x \<or> accepts s ic x)"
| "accepts (Rep r m n) ic x = accepts r ic x"
| "accepts (Grp k r) ic x = accepts r ic x"
| "accepts Bol ic x = False"
| "accepts Eol ic x = False"
| "accepts Wb ic x = False"
| "accepts (Behind neg cs) ic x = False"
| "accepts (Ahead neg cs) ic x = False"

lemma rm_accepts:
  "(j, d) \<in> set (rm r ic t i c) \<Longrightarrow> i \<le> length t \<Longrightarrow> i \<le> p \<Longrightarrow> p < j \<Longrightarrow> accepts r ic (t ! p)"
proof (induction r arbitrary: i c j d p)
  case (Seq r s)
  then obtain k e where k: "(k, e) \<in> set (rm r ic t i c)" and j: "(j, d) \<in> set (rm s ic t k e)"
    by (auto simp: set_then_m)
  have "k \<le> length t" using rm_bounds [OF k] Seq.prems by simp
  then show ?case
    using Seq.IH(1) [OF k] Seq.IH(2) [OF j] Seq.prems by (cases "p < k") auto
next
  case (Rep r m n)
  let ?I = "\<lambda>j d. j \<le> length t \<and> (\<forall>p. i \<le> p \<and> p < j \<longrightarrow> accepts r ic (t ! p))"
  have "?I j d"
  proof (rule rep_inv [where I = ?I, OF _ _ Rep.prems(1)])
    fix k e l f assume I: "?I k e" and l: "(l, f) \<in> set (rm r ic t k e)"
    show "?I l f"
    proof (intro conjI allI impI)
      show "l \<le> length t" using rm_bounds [OF l] I by simp
      show "accepts r ic (t ! q)" if "i \<le> q \<and> q < l" for q
        using Rep.IH [OF l] I that by (cases "q < k") auto
    qed
  qed (use Rep.prems in auto)
  then show ?case using Rep.prems by simp
next
  case (Grp k r)
  then show ?case by (auto split: if_splits)
qed (auto simp: less_Suc_eq split: if_splits)

text \<open>The number of characters a match consumes.\<close>

primrec minw :: "re \<Rightarrow> nat" where
  "minw Emp = 0"
| "minw (Cls neg cs) = 1"
| "minw (Seq r s) = minw r + minw s"
| "minw (Alt r s) = min (minw r) (minw s)"
| "minw (Rep r m n) = m * minw r"
| "minw (Grp k r) = minw r"
| "minw Bol = 0"
| "minw Eol = 0"
| "minw Wb = 0"
| "minw (Behind neg cs) = 0"
| "minw (Ahead neg cs) = 0"

lemma exactly_minw:
  assumes "\<And>i c j d. (j, d) \<in> set (f i c) \<Longrightarrow> i \<le> l \<Longrightarrow> i + w \<le> j \<and> j \<le> l"
    and "(j, d) \<in> set (exactly f m i c)" "i \<le> l"
  shows "i + m * w \<le> j \<and> j \<le> l"
  using assms(2,3)
proof (induction m arbitrary: i c)
  case (Suc m)
  then obtain k e where k: "(k, e) \<in> set (f i c)" and j: "(j, d) \<in> set (exactly f m k e)"
    by (auto simp: set_then_m)
  have "i + w \<le> k \<and> k \<le> l" using assms(1) [OF k] Suc.prems by simp
  with Suc.IH [OF j] show ?case by auto
qed simp

lemma rm_minw:
  "(j, d) \<in> set (rm r ic t i c) \<Longrightarrow> i \<le> length t \<Longrightarrow> i + minw r \<le> j"
proof (induction r arbitrary: i c j d)
  case (Seq r s)
  then obtain k e where k: "(k, e) \<in> set (rm r ic t i c)" and j: "(j, d) \<in> set (rm s ic t k e)"
    by (auto simp: set_then_m)
  have "i + minw r \<le> k" "k \<le> length t" using Seq.IH(1) [OF k] rm_bounds [OF k] Seq.prems by auto
  with Seq.IH(2) [OF j] show ?case by simp
next
  case (Rep r m n)
  obtain k e where k: "(k, e) \<in> set (exactly (rm r ic t) m i c)"
    and j: "(j, d) \<in> set (greedy (rm r ic t) (case n of None \<Rightarrow> length t | Some n \<Rightarrow> n - m) k e)"
    using Rep.prems(1) by (auto simp: set_then_m)
  have lower: "i + m * minw r \<le> k \<and> k \<le> length t"
    by (rule exactly_minw [OF _ k Rep.prems(2)]) (use Rep.IH rm_bounds in blast)
  let ?I = "\<lambda>j d. k \<le> j \<and> j \<le> length t"
  have "?I j d"
  proof (rule greedy_inv [where I = ?I, OF _ _ j])
    show "?I l f" if "?I h e" "(l, f) \<in> set (rm r ic t h e)" for h e l f
      using rm_bounds [OF that(2)] that(1) by linarith
  qed (use lower in simp)
  with lower show ?case by simp
next
  case (Alt r s)
  then show ?case by (fastforce simp: min_le_iff_disj)
next
  case (Grp k r)
  then show ?case by auto
qed (auto split: if_splits)

section \<open>Captured groups\<close>

primrec subgroups :: "re \<Rightarrow> (nat \<times> re) list" where
  "subgroups Emp = []"
| "subgroups (Cls neg cs) = []"
| "subgroups (Seq r s) = subgroups r @ subgroups s"
| "subgroups (Alt r s) = subgroups r @ subgroups s"
| "subgroups (Rep r m n) = subgroups r"
| "subgroups (Grp k r) = (k, r) # subgroups r"
| "subgroups Bol = []"
| "subgroups Eol = []"
| "subgroups Wb = []"
| "subgroups (Behind neg cs) = []"
| "subgroups (Ahead neg cs) = []"

text \<open>A match extends the captures it starts from by matches of the groups of the pattern.\<close>

definition captures :: "(nat \<times> re) list \<Rightarrow> bool \<Rightarrow> pystr \<Rightarrow> caps \<Rightarrow> caps \<Rightarrow> bool" where
  "captures gs ic t c d \<longleftrightarrow> (\<exists>e. d = e @ c \<and> (\<forall>(k, a, b) \<in> set e.
     \<exists>s c0 d0. (k, s) \<in> set gs \<and> a \<le> length t \<and> (b, d0) \<in> set (rm s ic t a c0)))"

lemma captures_refl: "captures gs ic t c c"
  by (simp add: captures_def)

lemma captures_trans:
  "captures gs ic t c d \<Longrightarrow> captures hs ic t d e \<Longrightarrow> set gs \<subseteq> set ks \<Longrightarrow> set hs \<subseteq> set ks
    \<Longrightarrow> captures ks ic t c e"
  unfolding captures_def by (elim exE conjE, rule exI, rule conjI, simp) fastforce

lemma captures_mono: "captures gs ic t c d \<Longrightarrow> set gs \<subseteq> set ks \<Longrightarrow> captures ks ic t c d"
  using captures_trans captures_refl by blast

lemma rm_captures:
  "(j, d) \<in> set (rm r ic t i c) \<Longrightarrow> i \<le> length t \<Longrightarrow> captures (subgroups r) ic t c d"
proof (induction r arbitrary: i c j d)
  case (Seq r s)
  then obtain k e where k: "(k, e) \<in> set (rm r ic t i c)" and j: "(j, d) \<in> set (rm s ic t k e)"
    by (auto simp: set_then_m)
  have "k \<le> length t" using rm_bounds [OF k] Seq.prems by simp
  then show ?case
    using Seq.IH(1) [OF k Seq.prems(2)] Seq.IH(2) [OF j] by (auto elim: captures_trans)
next
  case (Alt r s)
  then consider "(j, d) \<in> set (rm r ic t i c)" | "(j, d) \<in> set (rm s ic t i c)" by auto
  then show ?case
    using Alt.IH [THEN captures_mono] Alt.prems(2) by cases auto
next
  case (Rep r m n)
  let ?I = "\<lambda>j d. j \<le> length t \<and> captures (subgroups r) ic t c d"
  have "?I j d"
  proof (rule rep_inv [where I = ?I, OF _ _ Rep.prems(1)])
    show "?I l f" if "?I h e" "(l, f) \<in> set (rm r ic t h e)" for h e l f
      using rm_bounds [OF that(2)] Rep.IH [OF that(2)] that(1) by (auto elim: captures_trans)
  qed (use Rep.prems in \<open>simp add: captures_refl\<close>)
  then show ?case by simp
next
  case (Grp k r)
  then obtain e where e: "(j, e) \<in> set (rm r ic t i c)" and d: "d = (k, i, j) # e" by auto
  have "captures (subgroups r) ic t c e" using Grp.IH [OF e] Grp.prems by simp
  moreover have "captures [(k, r)] ic t e d"
    unfolding captures_def d using e Grp.prems(2) by (intro exI [of _ "[(k, i, j)]"]) auto
  ultimately show ?case by (rule captures_trans) auto
qed (auto simp: captures_refl split: if_splits)

text \<open>A group outside every alternative and optional part is set by every match.\<close>

primrec must :: "nat \<Rightarrow> re \<Rightarrow> bool" where
  "must g Emp = False"
| "must g (Cls neg cs) = False"
| "must g (Seq r s) = (must g r \<or> must g s)"
| "must g (Alt r s) = (must g r \<and> must g s)"
| "must g (Rep r m n) = (0 < m \<and> must g r)"
| "must g (Grp k r) = (g = k \<or> must g r)"
| "must g Bol = False"
| "must g Eol = False"
| "must g Wb = False"
| "must g (Behind neg cs) = False"
| "must g (Ahead neg cs) = False"

lemma captures_keeps: "captures gs ic t c d \<Longrightarrow> map_of c g \<noteq> None \<Longrightarrow> map_of d g \<noteq> None"
  by (auto simp: captures_def map_add_def split: option.splits)

lemma rm_must:
  "must g r \<Longrightarrow> (j, d) \<in> set (rm r ic t i c) \<Longrightarrow> i \<le> length t \<Longrightarrow> map_of d g \<noteq> None"
proof (induction r arbitrary: i c j d)
  case (Seq r s)
  then obtain k e where k: "(k, e) \<in> set (rm r ic t i c)" and j: "(j, d) \<in> set (rm s ic t k e)"
    by (auto simp: set_then_m)
  have l: "k \<le> length t" using rm_bounds [OF k] Seq.prems by simp
  show ?case
  proof (cases "must g s")
    case True
    then show ?thesis using Seq.IH(2) [OF _ j l] by simp
  next
    case False
    then have "map_of e g \<noteq> None" using Seq.IH(1) [OF _ k] Seq.prems by simp
    then show ?thesis by (rule captures_keeps [OF rm_captures [OF j l]])
  qed
next
  case (Rep r m n)
  then obtain m' where m: "m = Suc m'" by (cases m) auto
  obtain k e where k: "(k, e) \<in> set (rm r ic t i c)"
    and j: "(j, d) \<in> set (rm (Rep r m' (map_option (\<lambda>n. n - 1) n)) ic t k e)"
    using Rep.prems(2) by (auto simp: m set_then_m split: option.splits)
  have l: "k \<le> length t" using rm_bounds [OF k] Rep.prems by simp
  have "map_of e g \<noteq> None" using Rep.IH [OF _ k] Rep.prems by simp
  then show ?case by (rule captures_keeps [OF rm_captures [OF j l]])
next
  case (Alt r s)
  then show ?case by (fastforce)
next
  case (Grp k r)
  then show ?case by (auto simp: image_iff)
qed auto

text \<open>
  Membership in the results of the matcher, constructor by constructor: \<open>rm_iff\<close> takes a
  concrete pattern apart.
\<close>

lemma exactly_cls:
  "i \<le> length t \<or> 0 < n \<Longrightarrow> set (exactly (rm (Cls neg cs) ic t) n i c) =
    (if i + n \<le> length t \<and> (\<forall>p<n. in_cls ic neg cs (t ! (i + p))) then {(i + n, c)} else {})"
proof (induction n arbitrary: i)
  case (Suc n)
  show ?case
  proof (cases "i < length t \<and> in_cls ic neg cs (t ! i)")
    case True
    then show ?thesis using Suc.IH [of "Suc i"]
      by (auto simp: set_then_m All_less_Suc2)
  next
    case False
    then show ?thesis by (auto simp: set_then_m intro!: exI [of _ 0])
  qed
qed simp

lemma all_slice_conv:
  "i + n \<le> length t \<Longrightarrow> (\<forall>x \<in> set (slice i (i + n) t). P x) \<longleftrightarrow> (\<forall>p<n. P (t ! (i + p)))"
  unfolding set_slice_conv by (auto dest!: le_Suc_ex) (metis le_add1 nat_add_left_cancel_less)

lemma rm_Times_cls [rm_iff]:
  "0 < n \<Longrightarrow> (j, d) \<in> set (rm (Times (Cls neg cs) n) ic t i c) \<longleftrightarrow>
    j = i + n \<and> d = c \<and> j \<le> length t \<and> (\<forall>x \<in> set (slice i j t). in_cls ic neg cs x)"
  using exactly_cls [of i t n neg cs ic c] all_slice_conv [of i n t "in_cls ic neg cs"]
  by (auto simp: set_then_m split: if_splits)

lemma rm_Emp [rm_iff]: "(j, d) \<in> set (rm Emp ic t i c) \<longleftrightarrow> j = i \<and> d = c"
  by auto

lemma rm_Cls [rm_iff]:
  "(j, d) \<in> set (rm (Cls neg cs) ic t i c) \<longleftrightarrow> j = Suc i \<and> d = c \<and> i < length t \<and> in_cls ic neg cs (t ! i)"
  by auto

lemma rm_Seq [rm_iff]:
  "(j, d) \<in> set (rm (Seq r s) ic t i c) \<longleftrightarrow>
    (\<exists>k e. (k, e) \<in> set (rm r ic t i c) \<and> (j, d) \<in> set (rm s ic t k e))"
  by (auto simp: set_then_m)

lemma rm_Alt [rm_iff]:
  "(j, d) \<in> set (rm (Alt r s) ic t i c) \<longleftrightarrow> (j, d) \<in> set (rm r ic t i c) \<or> (j, d) \<in> set (rm s ic t i c)"
  by simp

lemma rm_Grp [rm_iff]:
  "(j, d) \<in> set (rm (Grp g r) ic t i c) \<longleftrightarrow> (\<exists>e. (j, e) \<in> set (rm r ic t i c) \<and> d = (g, i, j) # e)"
  by auto

lemma rm_Opt_cls [rm_iff]:
  "(j, d) \<in> set (rm (Opt (Cls neg cs)) ic t i c) \<longleftrightarrow>
    d = c \<and> (j = i \<or> j = Suc i \<and> i < length t \<and> in_cls ic neg cs (t ! i))"
  by (auto simp: set_then_m)

lemma rm_Behind [rm_iff]:
  "(j, d) \<in> set (rm (Behind neg cs) ic t i c) \<longleftrightarrow>
    j = i \<and> d = c \<and> (0 < i \<and> i \<le> length t \<and> in_cls ic False cs (t ! (i - 1))) \<noteq> neg"
  by auto

lemma rm_Ahead [rm_iff]:
  "(j, d) \<in> set (rm (Ahead neg cs) ic t i c) \<longleftrightarrow>
    j = i \<and> d = c \<and> (i < length t \<and> in_cls ic False cs (t ! i)) \<noteq> neg"
  by auto

section \<open>The scan for matches\<close>

lemma match_at_Some:
  "match_at r ic t i = Some m \<Longrightarrow> mstart m = i \<and> (mend m, mcaps m) \<in> set (rm r ic t i [])"
  by (auto simp: match_at_def split: list.splits prod.splits)

lemma match_at_bounds:
  "match_at r ic t i = Some m \<Longrightarrow> i \<le> length t \<Longrightarrow> i \<le> mend m \<and> mend m \<le> length t"
  using match_at_Some rm_bounds by blast

text \<open>What \<open>finditer\<close> yields are matches, in order, and without overlap.\<close>

lemma finditer_from_sound:
  "m \<in> set (re_finditer_from r ic t i) \<Longrightarrow>
    i \<le> mstart m \<and> mstart m \<le> length t \<and> match_at r ic t (mstart m) = Some m"
proof (induction r ic t i rule: re_finditer_from.induct)
  case (1 r ic t i)
  show ?case
  proof (cases "length t < i")
    case True
    then show ?thesis using "1.prems" by (simp add: re_finditer_from.simps [of r ic t i])
  next
    case False
    show ?thesis
    proof (cases "match_at r ic t i")
      case None
      then have "m \<in> set (re_finditer_from r ic t (Suc i))"
        using "1.prems" False by (simp add: re_finditer_from.simps [of r ic t i])
      then show ?thesis using "1.IH"(1) [OF False None] by simp
    next
      case (Some n)
      then have "m = n \<or> m \<in> set (re_finditer_from r ic t (max (Suc i) (mend n)))"
        using "1.prems" False by (simp add: re_finditer_from.simps [of r ic t i])
      then show ?thesis using "1.IH"(2) [OF False Some] match_at_Some [OF Some] Some False by auto
    qed
  qed
qed

lemma finditer_from_sorted:
  "sorted_wrt (\<lambda>m n. mend m \<le> mstart n \<and> mstart m < mstart n) (re_finditer_from r ic t i)"
proof (induction r ic t i rule: re_finditer_from.induct)
  case (1 r ic t i)
  show ?case
  proof (cases "length t < i \<or> match_at r ic t i = None")
    case True
    then show ?thesis using "1.IH"(1)
      by (auto simp: re_finditer_from.simps [of r ic t i] not_less)
  next
    case False
    then obtain n where n: "match_at r ic t i = Some n" by auto
    have tail: "max (Suc i) (mend n) \<le> mstart m"
      if "m \<in> set (re_finditer_from r ic t (max (Suc i) (mend n)))" for m
      using finditer_from_sound [OF that] by simp
    show ?thesis using False n "1.IH"(2) [OF _ n] match_at_Some [OF n] tail
      by (auto simp: re_finditer_from.simps [of r ic t i] Suc_le_eq)
  qed
qed

text \<open>A position where the pattern matches lies inside a match that \<open>finditer\<close> yields.\<close>

lemma finditer_from_covers:
  "i \<le> p \<Longrightarrow> p \<le> length t \<Longrightarrow> match_at r ic t p \<noteq> None \<Longrightarrow>
    \<exists>m \<in> set (re_finditer_from r ic t i). mstart m \<le> p \<and> p < max (Suc (mstart m)) (mend m)"
proof (induction r ic t i rule: re_finditer_from.induct)
  case (1 r ic t i)
  have i: "\<not> length t < i" using "1.prems" by simp
  show ?case
  proof (cases "match_at r ic t i")
    case None
    then have "Suc i \<le> p" using "1.prems" by (metis Suc_leI le_neq_implies_less)
    then show ?thesis using "1.IH"(1) [OF i None] "1.prems" None i
      by (simp add: re_finditer_from.simps [of r ic t i])
  next
    case (Some n)
    show ?thesis
    proof (cases "max (Suc i) (mend n) \<le> p")
      case True
      then show ?thesis using "1.IH"(2) [OF i Some] "1.prems" Some i
        by (simp add: re_finditer_from.simps [of r ic t i])
    next
      case False
      then show ?thesis using Some i "1.prems" match_at_Some [OF Some]
        by (auto simp: re_finditer_from.simps [of r ic t i])
    qed
  qed
qed

lemma finditer_sound:
  assumes "m \<in> set (re_finditer r ic t)"
  shows "match_at r ic t (mstart m) = Some m" "mstart m + minw r \<le> mend m" "mend m \<le> length t"
    "(mend m, mcaps m) \<in> set (rm r ic t (mstart m) [])" "mstart m \<le> length t"
proof -
  show m: "match_at r ic t (mstart m) = Some m" and s: "mstart m \<le> length t"
    using finditer_from_sound assms by (auto simp: re_finditer_def)
  show r: "(mend m, mcaps m) \<in> set (rm r ic t (mstart m) [])" using match_at_Some [OF m] by simp
  show "mstart m + minw r \<le> mend m" "mend m \<le> length t"
    using rm_minw [OF r s] rm_bounds [OF r s] by auto
qed

lemma finditer_sorted:
  "sorted_wrt (\<lambda>m n. mend m \<le> mstart n \<and> mstart m < mstart n) (re_finditer r ic t)"
  unfolding re_finditer_def by (rule finditer_from_sorted)

lemma finditer_covers:
  assumes "match_at r ic t p \<noteq> None" "p \<le> length t" "0 < minw r"
  shows "\<exists>m \<in> set (re_finditer r ic t). mstart m \<le> p \<and> p < mend m"
proof -
  obtain m where m: "m \<in> set (re_finditer r ic t)" "mstart m \<le> p" "p < max (Suc (mstart m)) (mend m)"
    using finditer_from_covers [of 0 p t r ic] assms by (auto simp: re_finditer_def)
  have "mstart m < mend m" using finditer_sound(2) [OF m(1)] assms(3) by simp
  then show ?thesis using m by (intro bexI [of _ m]) auto
qed

lemma rm_group:
  assumes "(mend m, mcaps m) \<in> set (rm r ic t i [])" "i \<le> length t" "must k r"
  obtains a b s c0 d0 where "group t m k = Some (slice a b t)" "(k, s) \<in> set (subgroups r)"
    "a \<le> length t" "(b, d0) \<in> set (rm s ic t a c0)"
proof -
  obtain ab where ab: "map_of (mcaps m) k = Some ab" using rm_must [OF assms(3,1,2)] by blast
  obtain a b where "ab = (a, b)" by force
  then have "group t m k = Some (slice a b t)" by (simp add: group_def ab)
  moreover have "(k, a, b) \<in> set (mcaps m)" using map_of_SomeD [OF ab] \<open>ab = (a, b)\<close> by simp
  ultimately show ?thesis
    using rm_captures [OF assms(1,2)] that by (auto simp: captures_def)
qed

lemma group_sound:
  assumes "m \<in> set (re_finditer r ic t)" "must k r"
  obtains a b s c0 d0 where "group t m k = Some (slice a b t)" "(k, s) \<in> set (subgroups r)"
    "a \<le> length t" "(b, d0) \<in> set (rm s ic t a c0)"
  by (rule rm_group [OF finditer_sound(4,5) [OF assms(1)] assms(2)]) (rule that)

lemma re_search_iff: "re_search r ic t \<noteq> None \<longleftrightarrow> (\<exists>p \<le> length t. match_at r ic t p \<noteq> None)"
proof
  assume "re_search r ic t \<noteq> None"
  then obtain m ms where "re_finditer_from r ic t 0 = m # ms"
    by (auto simp: re_search_def split: list.splits)
  then have "m \<in> set (re_finditer_from r ic t 0)" by simp
  from finditer_from_sound [OF this] show "\<exists>p \<le> length t. match_at r ic t p \<noteq> None" by auto
next
  assume "\<exists>p \<le> length t. match_at r ic t p \<noteq> None"
  then show "re_search r ic t \<noteq> None"
    using finditer_from_covers [of 0 _ t r ic] by (fastforce simp: re_search_def split: list.splits)
qed

lemma re_fullmatch_Some:
  "re_fullmatch r ic t = Some m \<Longrightarrow> mend m = length t \<and> (mend m, mcaps m) \<in> set (rm r ic t 0 [])"
proof -
  assume "re_fullmatch r ic t = Some m"
  then obtain x xs where "filter (\<lambda>(j, d). j = length t) (rm r ic t 0 []) = x # xs"
    and m: "m = \<lparr>mstart = 0, mend = fst x, mcaps = snd x\<rparr>"
    by (auto simp: re_fullmatch_def split: list.splits prod.splits)
  then have "x \<in> set (filter (\<lambda>(j, d). j = length t) (rm r ic t 0 []))" by simp
  then show ?thesis by (auto simp: m)
qed

lemma re_sub_no_match: "re_finditer r ic t = [] \<Longrightarrow> re_sub r ic f t = t"
  by (simp add: re_sub_def)

text \<open>Replacing every match by itself changes nothing.\<close>

lemma sub_pieces_id:
  assumes "sorted_wrt (\<lambda>m n. mend m \<le> mstart n \<and> mstart m < mstart n) ms"
    and "\<forall>m \<in> set ms. i \<le> mstart m \<and> mstart m \<le> mend m \<and> mend m \<le> length t \<and> f m = group0 t m"
  shows "sub_pieces f t i ms = drop i t"
  using assms
proof (induction ms arbitrary: i)
  case (Cons m ms)
  have "sub_pieces f t (mend m) ms = drop (mend m) t"
    using Cons.prems by (intro Cons.IH) (auto dest: less_imp_le)
  then have "sub_pieces f t i (m # ms) = (slice i (mstart m) t @ slice (mstart m) (mend m) t) @ drop (mend m) t"
    using Cons.prems(2) by (simp add: group0_def)
  also have "\<dots> = slice i (mend m) t @ drop (mend m) t"
    using Cons.prems(2) by (simp add: slice_append_slice)
  also have "\<dots> = drop i t"
    using Cons.prems(2) by (intro slice_drop) auto
  finally show ?case .
qed simp

lemma re_sub_group0:
  assumes "\<forall>m \<in> set (re_finditer r ic t). f m = group0 t m"
  shows "re_sub r ic f t = t"
proof -
  have "sub_pieces f t 0 (re_finditer r ic t) = drop 0 t"
    using finditer_sorted
  proof (rule sub_pieces_id)
    show "\<forall>m \<in> set (re_finditer r ic t). 0 \<le> mstart m \<and> mstart m \<le> mend m \<and>
        mend m \<le> length t \<and> f m = group0 t m"
      using finditer_sound(2,3) assms by (meson add_leD1 le0)
  qed
  then show ?thesis by (simp add: re_sub_def)
qed

text \<open>Deleting every character of a class: \<open>re.sub(r"[...]", "", s)\<close>.\<close>

lemma match_at_cls:
  "match_at (Cls neg cs) ic t i = (if i < length t \<and> in_cls ic neg cs (t ! i)
     then Some \<lparr>mstart = i, mend = Suc i, mcaps = []\<rparr> else None)"
  by (simp add: match_at_def)

lemma sub_pieces_shift: "i < length t \<Longrightarrow> \<forall>m \<in> set ms. i < mstart m \<Longrightarrow>
    sub_pieces f t i ms = t ! i # sub_pieces f t (Suc i) ms"
proof (cases ms)
  case Nil
  then show "i < length t \<Longrightarrow> ?thesis" by (simp add: Cons_nth_drop_Suc)
next
  case (Cons m ms')
  assume "i < length t" "\<forall>m \<in> set ms. i < mstart m"
  then have "slice i (mstart m) t = t ! i # slice (Suc i) (mstart m) t" using Cons
    by (auto simp: slice_def Cons_nth_drop_Suc [symmetric] take_Cons' Suc_diff_Suc [symmetric])
  then show ?thesis by (simp add: Cons)
qed

lemma re_sub_delete_from:
  "i \<le> length t \<Longrightarrow> sub_pieces (\<lambda>_. []) t i (re_finditer_from (Cls neg cs) ic t i)
     = filter (\<lambda>c. \<not> in_cls ic neg cs c) (drop i t)"
proof (induction "length t - i" arbitrary: i)
  case 0
  then show ?case
    by (simp add: re_finditer_from.simps [of _ _ _ i] match_at_cls re_finditer_from.simps [of _ _ _ "Suc i"])
next
  case (Suc n)
  then have i: "i < length t" by linarith
  have drop: "drop i t = t ! i # drop (Suc i) t" using i by (simp add: Cons_nth_drop_Suc)
  have IH: "sub_pieces (\<lambda>_. []) t (Suc i) (re_finditer_from (Cls neg cs) ic t (Suc i))
      = filter (\<lambda>c. \<not> in_cls ic neg cs c) (drop (Suc i) t)"
    using Suc i by simp
  show ?case
  proof (cases "in_cls ic neg cs (t ! i)")
    case True
    then show ?thesis using i IH
      by (simp add: re_finditer_from.simps [of _ _ _ i] match_at_cls drop)
  next
    case False
    have "\<forall>m \<in> set (re_finditer_from (Cls neg cs) ic t (Suc i)). i < mstart m"
      using finditer_from_sound by fastforce
    then show ?thesis using i IH False
      by (simp add: re_finditer_from.simps [of _ _ _ i] match_at_cls drop sub_pieces_shift)
  qed
qed

lemma re_sub_delete:
  "re_sub (Cls neg cs) ic (\<lambda>_. []) t = filter (\<lambda>c. \<not> in_cls ic neg cs c) t"
  unfolding re_sub_def re_finditer_def using re_sub_delete_from [of 0] by simp

section \<open>Texts, runs and options\<close>

text \<open>What a literal text, a repeated character class and an optional pattern consume.\<close>

lemma greedy_cls:
  "(j, d) \<in> set (greedy (rm (Cls neg cs) ic t) n i c) \<longleftrightarrow>
    d = c \<and> i \<le> j \<and> j \<le> i + n \<and> (j = i \<or> j \<le> length t) \<and> (\<forall>p. i \<le> p \<and> p < j \<longrightarrow> in_cls ic neg cs (t ! p))"
proof (induction n arbitrary: i)
  case (Suc n)
  show ?case
  proof (cases "i < length t \<and> in_cls ic neg cs (t ! i)")
    case True
    have "(\<forall>p. i \<le> p \<and> p < j \<longrightarrow> in_cls ic neg cs (t ! p)) \<longleftrightarrow>
        (\<forall>p. Suc i \<le> p \<and> p < j \<longrightarrow> in_cls ic neg cs (t ! p))"
      using True by (metis Suc_leD Suc_leI le_neq_implies_less)
    with True Suc.IH [of "Suc i"] show ?thesis by (auto simp: set_then_m)
  next
    case False
    then show ?thesis by (auto simp: set_then_m)
  qed
qed auto

lemma rm_Plus_cls [rm_iff]:
  "(j, d) \<in> set (rm (Plus (Cls neg cs)) ic t i c) \<longleftrightarrow>
    d = c \<and> i < j \<and> j \<le> length t \<and> (\<forall>x \<in> set (slice i j t). in_cls ic neg cs x)"
proof (cases "i < length t \<and> in_cls ic neg cs (t ! i)")
  case True
  have "(\<forall>p. i \<le> p \<and> p < j \<longrightarrow> in_cls ic neg cs (t ! p)) \<longleftrightarrow>
      (\<forall>p. Suc i \<le> p \<and> p < j \<longrightarrow> in_cls ic neg cs (t ! p))"
    using True by (metis Suc_leD Suc_leI le_neq_implies_less)
  moreover have "j \<le> length t \<Longrightarrow> (\<forall>x \<in> set (slice i j t). in_cls ic neg cs x) \<longleftrightarrow> (\<forall>p. i \<le> p \<and> p < j \<longrightarrow> in_cls ic neg cs (t ! p))"
    by (auto simp: set_slice_conv)
  ultimately show ?thesis using True
    by (auto simp: set_then_m greedy_cls)
next
  case False
  then have "i < j \<Longrightarrow> j \<le> length t \<Longrightarrow> \<exists>x \<in> set (slice i j t). \<not> in_cls ic neg cs x"
    by (force simp: set_slice_conv)
  with False show ?thesis by (auto simp: set_then_m)
qed

lemma drop_appendD: "drop i t = s @ r \<Longrightarrow> drop i t = s @ drop (i + length s) t"
  by (metis add.commute append_eq_conv_conj drop_drop)

lemma rm_text_re:
  "s \<noteq> [] \<Longrightarrow> (j, d) \<in> set (rm (text_re s) False t i c) \<longleftrightarrow> d = c \<and> j = i + length s \<and> drop i t = s @ drop j t"
proof (induction s arbitrary: i)
  case (Cons x s)
  have one: "i < length t \<and> t ! i = x \<longleftrightarrow> drop i t = x # drop (Suc i) t"
    by (metis Cons_nth_drop_Suc drop_eq_Nil linorder_not_less list.distinct(1) list.inject)
  show ?case
  proof (cases s)
    case Nil
    then show ?thesis using one by (auto simp: text_re_def in_cls_def)
  next
    case (Cons y ys)
    then have "text_re (x # s) = Seq (Cls False [Lit x]) (text_re s)" by (simp add: text_re_def)
    moreover have "drop i t = x # s @ drop (Suc (i + length s)) t \<longleftrightarrow>
        drop i t = x # drop (Suc i) t \<and> drop (Suc i) t = s @ drop (Suc (i + length s)) t"
      by (metis drop_Suc drop_drop drop_eq_Nil linorder_not_less list.sel(3) one tl_drop Cons_nth_drop_Suc list.inject list.distinct(1))
    ultimately show ?thesis using Cons.IH [of "Suc i"] Cons one by (auto simp: set_then_m in_cls_def)
  qed
qed simp

lemma rm_Plus_drop:
  "(j, d) \<in> set (rm (Rep (Cls neg cs) (Suc 0) None) ic t i c) \<longleftrightarrow>
    d = c \<and> (\<exists>l. l \<noteq> [] \<and> (\<forall>x \<in> set l. in_cls ic neg cs x) \<and> drop i t = l @ drop j t \<and> j = i + length l)"
proof
  assume "(j, d) \<in> set (rm (Rep (Cls neg cs) (Suc 0) None) ic t i c)"
  then have m: "d = c" "i < j" "j \<le> length t" "\<forall>x \<in> set (slice i j t). in_cls ic neg cs x"
    using rm_Plus_cls [of j d neg cs ic t i c] by auto
  then show "d = c \<and> (\<exists>l. l \<noteq> [] \<and> (\<forall>x \<in> set l. in_cls ic neg cs x) \<and> drop i t = l @ drop j t \<and> j = i + length l)"
    by (intro conjI exI [of _ "slice i j t"]) (auto simp: slice_drop, auto simp: slice_def)
next
  assume "d = c \<and> (\<exists>l. l \<noteq> [] \<and> (\<forall>x \<in> set l. in_cls ic neg cs x) \<and> drop i t = l @ drop j t \<and> j = i + length l)"
  then obtain l where m: "d = c" "l \<noteq> []" "\<forall>x \<in> set l. in_cls ic neg cs x" "drop i t = l @ drop j t" "j = i + length l" by blast
  have "length t - i = length l + (length t - j)" using arg_cong [OF m(4), of length] by simp
  then have "j \<le> length t" using m(2,5) by (cases l) auto
  moreover have "slice i j t = l" by (simp add: slice_def m(5)) (simp add: m(4))
  ultimately show "(j, d) \<in> set (rm (Rep (Cls neg cs) (Suc 0) None) ic t i c)"
    using m rm_Plus_cls [of j d neg cs ic t i c] by simp
qed

lemma rm_Opt:
  "(j, d) \<in> set (rm (Rep r 0 (Some (Suc 0))) ic t i c) \<longleftrightarrow> (j, d) = (i, c) \<or> (i < j \<and> (j, d) \<in> set (rm r ic t i c))"
  by (auto simp: set_then_m split: if_splits)

end
