(* ===== verification/Py_Text.thy ===== *)
theory Py_Text
  imports Py_Regex
begin

text \<open>
  Pieces of Python's text handling the storage layer uses: UTF-8 (\<open>str.encode\<close> and
  \<open>bytes.decode\<close>, strict), \<open>int(s, 16)\<close> as \<open>uuid.UUID\<close> calls it, \<open>str.upper\<close> as far as its
  result can be ASCII, and \<open>re.sub\<close> with a replacement function that has effects.
  A byte is an \<open>int\<close> from 0 to 255.
\<close>

section \<open>UTF-8\<close>

type_synonym bytes = "int list"

definition surrogate :: "pychar \<Rightarrow> bool" where
  "surrogate c = (0xD800 \<le> c \<and> c \<le> 0xDFFF)"

definition valid_char :: "pychar \<Rightarrow> bool" where
  "valid_char c = (0 \<le> c \<and> c < 0x110000 \<and> \<not> surrogate c)"

definition utf8_char :: "pychar \<Rightarrow> bytes" where
  "utf8_char c =
     (if c < 0x80 then [c]
      else if c < 0x800 then [0xC0 + c div 64, 0x80 + c mod 64]
      else if c < 0x10000 then [0xE0 + c div 4096, 0x80 + c div 64 mod 64, 0x80 + c mod 64]
      else [0xF0 + c div 262144, 0x80 + c div 4096 mod 64, 0x80 + c div 64 mod 64, 0x80 + c mod 64])"

text \<open>\<open>s.encode()\<close> raises \<open>UnicodeEncodeError\<close>, a \<open>ValueError\<close>, on a lone surrogate.\<close>

definition utf8_encode :: "pystr \<Rightarrow> bytes result" where
  "utf8_encode s = (if \<exists>c \<in> set s. surrogate c then Inl ValueError else Inr (concat (map utf8_char s)))"

definition cont :: "int \<Rightarrow> bool" where "cont b = (0x80 \<le> b \<and> b < 0xC0)"

text \<open>One code point off the front; \<open>None\<close> where the strict decoder raises.\<close>

definition utf8_take :: "bytes \<Rightarrow> (pychar \<times> bytes) option" where
  "utf8_take bs = (case bs of
       [] \<Rightarrow> None
     | a # r \<Rightarrow>
         if 0 \<le> a \<and> a < 0x80 then Some (a, r)
         else if 0xC2 \<le> a \<and> a < 0xE0 then (case r of
             b # r \<Rightarrow> if cont b then Some ((a - 0xC0) * 64 + (b - 0x80), r) else None
           | _ \<Rightarrow> None)
         else if 0xE0 \<le> a \<and> a < 0xF0 then (case r of
             b # c # r \<Rightarrow> let x = (a - 0xE0) * 4096 + (b - 0x80) * 64 + (c - 0x80)
               in if cont b \<and> cont c \<and> 0x800 \<le> x \<and> \<not> surrogate x then Some (x, r) else None
           | _ \<Rightarrow> None)
         else if 0xF0 \<le> a \<and> a < 0xF5 then (case r of
             b # c # d # r \<Rightarrow> let x = (a - 0xF0) * 262144 + (b - 0x80) * 4096 + (c - 0x80) * 64 + (d - 0x80)
               in if cont b \<and> cont c \<and> cont d \<and> 0x10000 \<le> x \<and> x < 0x110000 then Some (x, r) else None
           | _ \<Rightarrow> None)
         else None)"

lemma utf8_take_shorter: "utf8_take bs = Some (c, r) \<Longrightarrow> length r < length bs"
  by (auto simp: utf8_take_def Let_def split: list.splits if_splits)

function utf8_decode :: "bytes \<Rightarrow> pystr result" where
  "utf8_decode bs =
     (if bs = [] then Inr []
      else case utf8_take bs of
        None \<Rightarrow> Inl ValueError
      | Some (c, r) \<Rightarrow> bind_result (utf8_decode r) (\<lambda>s. Inr (c # s)))"
  by pat_completeness auto
termination by (relation "measure length") (auto dest: utf8_take_shorter)

declare utf8_decode.simps [simp del]

lemma utf8_decode_Nil [simp]: "utf8_decode [] = Inr []"
  by (simp add: utf8_decode.simps)

text \<open>The decoder on a character given by its groups of six bits.\<close>

lemma utf8_take_2: "2 \<le> h \<Longrightarrow> h < 32 \<Longrightarrow> 0 \<le> l \<Longrightarrow> l < 64 \<Longrightarrow>
    utf8_take ((0xC0 + h) # (0x80 + l) # r) = Some (h * 64 + l, r)"
  by (simp add: utf8_take_def cont_def)

lemma utf8_take_3: "0 \<le> h \<Longrightarrow> h < 16 \<Longrightarrow> 0 \<le> m \<Longrightarrow> m < 64 \<Longrightarrow> 0 \<le> l \<Longrightarrow> l < 64 \<Longrightarrow>
    0x800 \<le> h * 4096 + m * 64 + l \<Longrightarrow> \<not> surrogate (h * 4096 + m * 64 + l) \<Longrightarrow>
    utf8_take ((0xE0 + h) # (0x80 + m) # (0x80 + l) # r) = Some (h * 4096 + m * 64 + l, r)"
  by (simp add: utf8_take_def cont_def Let_def)

lemma utf8_take_4: "0 \<le> h \<Longrightarrow> h < 5 \<Longrightarrow> 0 \<le> k \<Longrightarrow> k < 64 \<Longrightarrow> 0 \<le> m \<Longrightarrow> m < 64 \<Longrightarrow> 0 \<le> l \<Longrightarrow> l < 64 \<Longrightarrow>
    0x10000 \<le> h * 262144 + k * 4096 + m * 64 + l \<Longrightarrow> h * 262144 + k * 4096 + m * 64 + l < 0x110000 \<Longrightarrow>
    utf8_take ((0xF0 + h) # (0x80 + k) # (0x80 + m) # (0x80 + l) # r) = Some (h * 262144 + k * 4096 + m * 64 + l, r)"
  by (simp add: utf8_take_def cont_def Let_def)

lemma six_bit_groups:
  fixes c :: int
  shows "c div 64 * 64 + c mod 64 = c"
    "c div 4096 * 4096 + c div 64 mod 64 * 64 + c mod 64 = c"
    "c div 262144 * 262144 + c div 4096 mod 64 * 4096 + c div 64 mod 64 * 64 + c mod 64 = c"
proof -
  have d: "c div 4096 = c div 64 div 64" "c div 262144 = c div 4096 div 64"
    using zdiv_zmult2_eq [of 64 c 64] zdiv_zmult2_eq [of 64 c 4096] by simp_all
  note e = div_mult_mod_eq [of c 64] div_mult_mod_eq [of "c div 64" 64] div_mult_mod_eq [of "c div 4096" 64]
  show "c div 64 * 64 + c mod 64 = c" by (rule e(1))
  show "c div 4096 * 4096 + c div 64 mod 64 * 64 + c mod 64 = c" using e(1,2) d(1) by linarith
  show "c div 262144 * 262144 + c div 4096 mod 64 * 4096 + c div 64 mod 64 * 64 + c mod 64 = c"
    using e d by linarith
qed

lemma utf8_take_char:
  assumes "valid_char c"
  shows "utf8_take (utf8_char c @ r) = Some (c, r)"
proof -
  have v: "0 \<le> c" "c < 0x110000" "\<not> surrogate c" using assms by (simp_all add: valid_char_def)
  have m: "0 \<le> c mod 64" "c mod 64 < 64" "0 \<le> c div 64 mod 64" "c div 64 mod 64 < 64"
    "0 \<le> c div 4096 mod 64" "c div 4096 mod 64 < 64" by simp_all
  consider "c < 0x80" | "0x80 \<le> c" "c < 0x800" | "0x800 \<le> c" "c < 0x10000" | "0x10000 \<le> c" by linarith
  then show ?thesis
  proof cases
    case 1
    then show ?thesis using v by (simp add: utf8_char_def utf8_take_def)
  next
    case 2
    then have "2 \<le> c div 64" "c div 64 < 32" by simp_all
    from utf8_take_2 [OF this m(1,2), of r] 2 show ?thesis
      by (simp add: utf8_char_def six_bit_groups(1))
  next
    case 3
    then have "0 \<le> c div 4096" "c div 4096 < 16" by simp_all
    from utf8_take_3 [OF this m(3,4,1,2), of r] 3 v show ?thesis
      by (simp add: utf8_char_def six_bit_groups(2))
  next
    case 4
    then have "0 \<le> c div 262144" "c div 262144 < 5" using v by simp_all
    from utf8_take_4 [OF this m(5,6,3,4,1,2), of r] 4 v show ?thesis
      by (simp add: utf8_char_def six_bit_groups(3))
  qed
qed

lemma utf8_roundtrip: "\<forall>c \<in> set s. valid_char c \<Longrightarrow> utf8_encode s = Inr (concat (map utf8_char s)) \<and>
    utf8_decode (concat (map utf8_char s)) = Inr s"
proof (induction s)
  case (Cons c s)
  have "utf8_char c \<noteq> []" by (simp add: utf8_char_def)
  then show ?case using Cons
    by (subst utf8_decode.simps) (auto simp: utf8_take_char utf8_encode_def valid_char_def)
qed (simp add: utf8_encode_def)

section \<open>Upper case and hexadecimal\<close>

text \<open>
  \<open>s.upper()\<close> where it matters: the result is compared with ASCII words. The characters listed
  are those outside ASCII whose upper case is ASCII; any other is kept, as its upper case has
  a character outside ASCII.
\<close>

definition upper_char :: "pychar \<Rightarrow> pystr" where
  "upper_char c =
     (if 97 \<le> c \<and> c \<le> 122 then [c - 32]
      else if c = 223 then lit ''SS'' else if c = 305 then lit ''I'' else if c = 383 then lit ''S''
      else if c = 64256 then lit ''FF'' else if c = 64257 then lit ''FI'' else if c = 64258 then lit ''FL''
      else if c = 64259 then lit ''FFI'' else if c = 64260 then lit ''FFL''
      else if c = 64261 \<or> c = 64262 then lit ''ST''
      else [c])"

definition upper :: "pystr \<Rightarrow> pystr" where
  "upper s = concat (map upper_char s)"

definition hex_value :: "pychar \<Rightarrow> int option" where
  "hex_value c = (if 97 \<le> c \<and> c \<le> 102 then Some (c - 87) else if 65 \<le> c \<and> c \<le> 70 then Some (c - 55)
     else decimal_value c)"

text \<open>The digits of \<open>int(s, 16)\<close>: at least one, single underscores between them.\<close>

fun hex_digits :: "bool \<Rightarrow> pystr \<Rightarrow> int \<Rightarrow> int option" where
  "hex_digits after_digit [] acc = (if after_digit then Some acc else None)"
| "hex_digits after_digit (c # cs) acc =
     (if c = 95 then (if after_digit \<and> cs \<noteq> [] then hex_digits False cs acc else None)
      else case hex_value c of None \<Rightarrow> None | Some d \<Rightarrow> hex_digits True cs (16 * acc + d))"

text \<open>White space around, a sign, then \<open>0x\<close>, which an underscore may follow.\<close>

definition hex_body :: "pystr \<Rightarrow> int option" where
  "hex_body s = (if take 2 s = lit ''0x'' \<or> take 2 s = lit ''0X''
     then hex_digits False (if take 1 (drop 2 s) = [95] then drop 3 s else drop 2 s) 0
     else hex_digits False s 0)"

definition py_int16 :: "pystr \<Rightarrow> int option" where
  "py_int16 s = (let s = strip s in
     if take 1 s = lit ''-'' then map_option uminus (hex_body (tl s))
     else if take 1 s = lit ''+'' then hex_body (tl s)
     else hex_body s)"

section \<open>Substitution with effects\<close>

text \<open>
  \<open>pattern.sub(f, t)\<close> for a function \<open>f\<close> that reads and changes a state, called on the matches
  from left to right.
\<close>

fun sub_state :: "('s \<Rightarrow> match \<Rightarrow> 's \<times> pystr) \<Rightarrow> pystr \<Rightarrow> nat \<Rightarrow> match list \<Rightarrow> 's \<Rightarrow> 's \<times> pystr" where
  "sub_state f t i [] st = (st, drop i t)"
| "sub_state f t i (m # ms) st =
     (let (st, r) = f st m; (st, rest) = sub_state f t (mend m) ms st
      in (st, slice i (mstart m) t @ r @ rest))"

lemma sub_state_pure:
  "\<forall>m \<in> set ms. f st m = (st, g m) \<Longrightarrow> sub_state f t i ms st = (st, sub_pieces g t i ms)"
  by (induction ms arbitrary: i) auto

end
