(* ===== verification/Vault.thy ===== *)
theory Vault
  imports Models Py_Text
begin

text \<open>
  \<open>app/transform/vault.py\<close> and \<open>app/ids.py\<close>: reversible tokens. The tables \<open>token_vault\<close> and
  \<open>token_vault_access_log\<close> are the lists \<open>vrows\<close> and \<open>vlog\<close> in the order of insertion, the SQL
  statements the functions on them; a statement sees the rows in that order, and \<open>fetchone()\<close>
  takes the first. Each transaction has one time \<open>now\<close> (seconds); what happens
  when two tokenize transactions interleave is the subject of \<open>Vault_Concurrency\<close>.

  Parameters (\<open>vault_env\<close>) are the code that is not under src/: the hash \<open>sha256\<close> and \<open>uuid5\<close>,
  the base64 decoder, AES-GCM (\<open>None\<close> where decryption raises), and the settings, of which \<open>vault_ttl_sec\<close> is read
  by a \<open>load_config()\<close> that may raise. \<open>type_codes\<close> are the rows of \<open>entity_type_ref\<close>, to which \<open>entity_type\<close> is a
  foreign key. The database
  is reachable or not during a transaction (\<open>db_up\<close>). Identities of rows and nonces are drawn from
  counters and sequences in the state.
\<close>

section \<open>Session identifiers\<close>

record vault_env =
  uuid5 :: "pystr \<Rightarrow> int"
  sha256_hex :: "bytes \<Rightarrow> pystr"
  vault_key :: pystr
  b64decode :: "pystr \<Rightarrow> bytes result"
  aes_encrypt :: "bytes \<Rightarrow> bytes \<Rightarrow> bytes \<Rightarrow> bytes"
  aes_decrypt :: "bytes \<Rightarrow> bytes \<Rightarrow> bytes \<Rightarrow> bytes option"
  vault_ttl_sec :: "int result"
  type_codes :: "pystr list"

fun remove_all :: "pystr \<Rightarrow> pystr \<Rightarrow> pystr" where
  "remove_all w [] = []"
| "remove_all w (c # cs) =
     (if w \<noteq> [] \<and> take (length w) (c # cs) = w then remove_all w (drop (length w - 1) cs)
      else c # remove_all w cs)"

definition strip_braces :: "pystr \<Rightarrow> pystr" where
  "strip_braces s = (let b = (\<lambda>c. c = 123 \<or> c = 125) in rev (dropWhile b (rev (dropWhile b s))))"

text \<open>\<open>uuid.UUID(s)\<close>, as its 128-bit integer; \<open>None\<close> where it raises \<open>ValueError\<close>.\<close>

definition uuid_parse :: "pystr \<Rightarrow> int option" where
  "uuid_parse s =
     (let hex = remove_all (lit ''-'') (strip_braces (remove_all (lit ''uuid:'') (remove_all (lit ''urn:'') s))) in
      if length hex \<noteq> 32 then None
      else case py_int16 hex of None \<Rightarrow> None
        | Some n \<Rightarrow> if 0 \<le> n \<and> n < 2 ^ 128 then Some n else None)"

definition coerce_session_uuid :: "vault_env \<Rightarrow> pystr \<Rightarrow> int" where
  "coerce_session_uuid env sid = (case uuid_parse sid of Some u \<Rightarrow> u | None \<Rightarrow> uuid5 env sid)"

section \<open>Tables\<close>

record scope =
  roles :: "pystr list"
  purposes :: "pystr list"

record vault_row =
  token_id :: nat
  vsession :: int
  vtype :: pystr
  token_label :: pystr
  cipher_value :: bytes
  value_hash :: pystr
  access_scope :: scope
  expires_at :: rat
  revoked_at :: "rat option"

record access_row =
  atoken :: "nat option"
  asession :: int
  alabel :: pystr
  requested_role :: pystr
  requested_purpose :: "pystr option"
  granted :: bool
  denied_reason :: "pystr option"

record vault =
  vrows :: "vault_row list"
  vlog :: "access_row list"
  vnext :: nat
  vnonces :: "nat \<Rightarrow> bytes"

definition ENTITY_TYPES :: "pystr list" where
  "ENTITY_TYPES = map lit [''RRN'', ''FOREIGN_RRN'', ''CARD'', ''ACCOUNT'', ''PASSPORT'', ''DRIVER'',
     ''CREDIT_INFO'', ''PHONE'', ''EMAIL'', ''BIZNO'', ''AMOUNT'', ''NAME'', ''ADDRESS'', ''ORG'', ''PROJECT'']"

text \<open>\<open><PII:([A-Z_]+):(\d+)>\<close>\<close>

definition TOKEN_LABEL_RE :: re where
  "TOKEN_LABEL_RE = seqs [word ''<PII:'', Grp 1 (Plus (Cls False [Rng 65 90, Lit 95])), word '':'',
     Grp 2 (Plus Digit), word ''>'']"

definition token_label_fmt :: "pystr \<Rightarrow> nat \<Rightarrow> pystr" where
  "token_label_fmt etype n = lit ''<PII:'' @ etype @ lit '':'' @ py_str_nat n @ lit ''>''"

section \<open>Helpers\<close>

definition normalize_entity_type :: "pystr \<Rightarrow> pystr" where
  "normalize_entity_type t =
     (let etype = upper (strip t) in if etype \<in> set ENTITY_TYPES then etype else lit ''UNKNOWN'')"

definition vault_hash :: "vault_env \<Rightarrow> pystr \<Rightarrow> pystr \<Rightarrow> pystr \<Rightarrow> pystr result" where
  "vault_hash env sid etype v =
     bind_result (utf8_encode (sid @ [31] @ etype @ [31] @ v)) (\<lambda>raw. Inr (take 32 (sha256_hex env raw)))"

definition scope_allows :: "scope \<Rightarrow> pystr option \<Rightarrow> pystr option \<Rightarrow> bool \<times> pystr option" where
  "scope_allows sc rl pu =
     (if \<not> (lit ''*'' \<in> set (roles sc) \<or> (case rl of None \<Rightarrow> False | Some r \<Rightarrow> r \<in> set (roles sc)))
      then (False, Some (lit ''role_not_in_scope''))
      else if \<not> (lit ''*'' \<in> set (purposes sc) \<or> (case pu of None \<Rightarrow> False | Some p \<Rightarrow> p \<in> set (purposes sc)))
      then (False, Some (lit ''purpose_not_in_scope''))
      else (True, None))"

definition resolve_scope :: "vault_row \<Rightarrow> scope" where
  "resolve_scope row = access_scope row"

text \<open>The key of the cipher: raises when it is not set, not base64 or not 32 bytes long.\<close>

definition cipher :: "vault_env \<Rightarrow> bytes result" where
  "cipher env =
     (if vault_key env = [] then Inl RuntimeError
      else bind_result (b64decode env (vault_key env)) (\<lambda>key.
        if length key \<noteq> 32 then Inl RuntimeError else Inr key))"

definition NONCE_BYTES :: nat where "NONCE_BYTES = 12"

definition encrypt :: "vault_env \<Rightarrow> bytes \<Rightarrow> pystr \<Rightarrow> bytes result" where
  "encrypt env nonce v =
     bind_result (cipher env) (\<lambda>key. bind_result (utf8_encode v) (\<lambda>plain.
       Inr (nonce @ aes_encrypt env key nonce plain)))"

definition decrypt :: "vault_env \<Rightarrow> bytes \<Rightarrow> pystr result" where
  "decrypt env blob =
     bind_result (cipher env) (\<lambda>key.
     bind_result (the_result CryptoError (aes_decrypt env key (take NONCE_BYTES blob) (drop NONCE_BYTES blob)))
       utf8_decode)"

section \<open>Statements\<close>

text \<open>
  A value of a \<open>VARCHAR(64)\<close> column: PostgreSQL raises on characters it cannot store and on
  a value that is too long, unless only blanks exceed the length.
\<close>

definition varchar64 :: "pystr \<Rightarrow> pystr result" where
  "varchar64 s =
     (if (\<exists>c \<in> set s. c = 0 \<or> surrogate c) \<or> (\<exists>c \<in> set (drop 64 s). c \<noteq> 32) then Inl DbError
      else Inr (take 64 s))"

text \<open>A value of a \<open>TEXT\<close> column.\<close>

definition pg_text :: "pystr \<Rightarrow> pystr result" where
  "pg_text s = (if \<exists>c \<in> set s. c = 0 \<or> surrogate c then Inl DbError else Inr s)"

definition live :: "vault_row \<Rightarrow> bool" where
  "live r = (revoked_at r = None)"

text \<open>\<open>SELECT token_label ... WHERE session_id = u AND value_hash = h AND revoked_at IS NULL\<close>\<close>

definition select_live_hash :: "vault_row list \<Rightarrow> int \<Rightarrow> pystr \<Rightarrow> vault_row option" where
  "select_live_hash rows u h = List.find (\<lambda>r. vsession r = u \<and> value_hash r = h \<and> live r) rows"

definition count_type :: "vault_row list \<Rightarrow> int \<Rightarrow> pystr \<Rightarrow> nat" where
  "count_type rows u etype = length (filter (\<lambda>r. vsession r = u \<and> vtype r = etype) rows)"

definition select_live_label :: "vault_row list \<Rightarrow> int \<Rightarrow> pystr \<Rightarrow> vault_row option" where
  "select_live_label rows u l = List.find (\<lambda>r. vsession r = u \<and> token_label r = l \<and> live r) rows"

text \<open>
  \<open>INSERT ... ON CONFLICT (session_id, value_hash) WHERE revoked_at IS NULL DO NOTHING RETURNING token_label\<close>; the
  foreign key is checked for a row that was inserted.
\<close>

definition insert_row :: "vault_env \<Rightarrow> vault \<Rightarrow> vault_row \<Rightarrow> (vault \<times> pystr option) result" where
  "insert_row env st row =
     bind_result (varchar64 (token_label row)) (\<lambda>_.
       case select_live_hash (vrows st) (vsession row) (value_hash row) of
         Some _ \<Rightarrow> Inr (st, None)
       | None \<Rightarrow>
           if vtype row \<notin> set (type_codes env) then Inl DbError
           else Inr (st\<lparr>vrows := vrows st @ [row], vnext := Suc (vnext st)\<rparr>, Some (token_label row)))"

definition no_scope :: scope where
  "no_scope = \<lparr>roles = [], purposes = []\<rparr>"

section \<open>The API\<close>

definition tokenize ::
  "vault_env \<Rightarrow> bool \<Rightarrow> rat \<Rightarrow> pystr \<Rightarrow> pystr \<Rightarrow> pystr \<Rightarrow> scope option \<Rightarrow> vault \<Rightarrow> vault \<times> pystr result" where
  "tokenize env db_up now sid entity_type v sc st =
     (let etype = normalize_entity_type entity_type in
      case vault_hash env sid etype v of Inl e \<Rightarrow> (st, Inl e) | Inr vhash \<Rightarrow>
      let scope = (case sc of None \<Rightarrow> no_scope | Some s \<Rightarrow> s) in
      case vault_ttl_sec env of Inl e \<Rightarrow> (st, Inl e) | Inr ttl_sec \<Rightarrow>
      let u = coerce_session_uuid env sid in
      if \<not> db_up then (st, Inl DbError)
      else case select_live_hash (vrows st) u vhash of
        Some r \<Rightarrow> (st, Inr (token_label r))
      | None \<Rightarrow>
          let count = count_type (vrows st) u etype;
              label = token_label_fmt etype (count + 1);
              nonce = vnonces st 0;
              st1 = st\<lparr>vnonces := (\<lambda>k. vnonces st (Suc k))\<rparr>
          in case encrypt env nonce v of Inl e \<Rightarrow> (st1, Inl e) | Inr blob \<Rightarrow>
          let row = \<lparr>token_id = vnext st1, vsession = u, vtype = etype, token_label = label,
                     cipher_value = blob, value_hash = vhash, access_scope = scope,
                     expires_at = now + of_int ttl_sec, revoked_at = None\<rparr>
          in case insert_row env st1 row of
            Inl e \<Rightarrow> (st1, Inl e)
          | Inr (st2, Some l) \<Rightarrow> (st2, Inr l)
          | Inr (st2, None) \<Rightarrow>
              (case select_live_hash (vrows st2) u vhash of
                 Some r \<Rightarrow> (st2, Inr (token_label r))
               | None \<Rightarrow> (st2, Inl TypeError)))"

text \<open>A column that may be NULL.\<close>

definition map_option_result :: "('a \<Rightarrow> 'b result) \<Rightarrow> 'a option \<Rightarrow> 'b option result" where
  "map_option_result f x = (case x of None \<Rightarrow> Inr None | Some a \<Rightarrow> bind_result (f a) (\<lambda>b. Inr (Some b)))"

lemma pg_text_Some: "map_option_result pg_text pu = Inr p \<Longrightarrow> p = pu"
  by (auto simp: map_option_result_def pg_text_def bind_result_Inr split: option.splits if_splits)

definition log_access ::
  "vault_env \<Rightarrow> nat option \<Rightarrow> pystr \<Rightarrow> pystr \<Rightarrow> pystr option \<Rightarrow> pystr option \<Rightarrow> bool \<Rightarrow> pystr option \<Rightarrow>
    vault \<Rightarrow> vault result" where
  "log_access env tid sid label rl pu ok reason st =
     bind_result (varchar64 label) (\<lambda>l.
     bind_result (varchar64 (case rl of None \<Rightarrow> [] | Some r \<Rightarrow> r)) (\<lambda>r.
     bind_result (map_option_result pg_text pu) (\<lambda>p.
       Inr (st\<lparr>vlog := vlog st @ [\<lparr>atoken = tid, asession = coerce_session_uuid env sid, alabel = l,
         requested_role = r, requested_purpose = p, granted = ok, denied_reason = reason\<rparr>]\<rparr>))))"

text \<open>An exception anywhere, the log insert included, rolls the transaction back and returns \<open>None\<close>.\<close>

definition fail_closed :: "vault \<Rightarrow> vault result \<Rightarrow> pystr option \<Rightarrow> vault \<times> pystr option" where
  "fail_closed st r x = (case r of Inl _ \<Rightarrow> (st, None) | Inr st' \<Rightarrow> (st', x))"

definition detokenize ::
  "vault_env \<Rightarrow> bool \<Rightarrow> rat \<Rightarrow> pystr \<Rightarrow> pystr \<Rightarrow> pystr option \<Rightarrow> pystr option \<Rightarrow> vault \<Rightarrow> vault \<times> pystr option" where
  "detokenize env db_up now sid label rl pu st =
     (if \<not> db_up then (st, None)
      else case select_live_label (vrows st) (coerce_session_uuid env sid) label of
        None \<Rightarrow> fail_closed st
          (log_access env None sid label rl pu False (Some (lit ''unknown_or_revoked'')) st) None
      | Some row \<Rightarrow>
          if expires_at row \<le> now
          then fail_closed st
            (log_access env (Some (token_id row)) sid label rl pu False (Some (lit ''expired'')) st) None
          else case scope_allows (resolve_scope row) rl pu of
            (False, reason) \<Rightarrow> fail_closed st
              (log_access env (Some (token_id row)) sid label rl pu False reason st) None
          | (True, _) \<Rightarrow>
              (case decrypt env (cipher_value row) of
                 Inl _ \<Rightarrow> (st, None)
               | Inr v \<Rightarrow> fail_closed st
                   (log_access env (Some (token_id row)) sid label rl pu True None st) (Some v)))"

text \<open>
  Each label is looked up in a transaction of its own: the \<open>k\<close>-th finds the database as \<open>db_up k\<close>
  says, at time \<open>now k\<close>. The number of look-ups is part of the result.
\<close>

definition detokenize_text ::
  "vault_env \<Rightarrow> (nat \<Rightarrow> bool) \<Rightarrow> (nat \<Rightarrow> rat) \<Rightarrow> pystr \<Rightarrow> pystr \<Rightarrow> pystr option \<Rightarrow> pystr option \<Rightarrow> vault \<Rightarrow> (nat \<times> vault) \<times> pystr" where
  "detokenize_text env db_up now sid text rl pu st =
     sub_state (\<lambda>(k, st) m. let (st', original) = detokenize env (db_up k) (now k) sid (group0 text m) rl pu st
         in ((Suc k, st'), case original of None \<Rightarrow> group0 text m | Some v \<Rightarrow> v))
       text 0 (re_finditer TOKEN_LABEL_RE False text) (0, st)"

definition revoke_where :: "(vault_row \<Rightarrow> bool) \<Rightarrow> rat \<Rightarrow> vault_row list \<Rightarrow> vault_row list" where
  "revoke_where P now rows = map (\<lambda>r. if P r \<and> live r then r\<lparr>revoked_at := Some now\<rparr> else r) rows"

definition purge_expired :: "bool \<Rightarrow> rat \<Rightarrow> vault \<Rightarrow> vault" where
  "purge_expired db_up now st =
     (if \<not> db_up then st
      else st\<lparr>vrows := filter (\<lambda>r. \<not> (case revoked_at r of None \<Rightarrow> False | Some t \<Rightarrow> t < now - 86400))
                (revoke_where (\<lambda>r. expires_at r < now) now (vrows st))\<rparr>)"

definition revoke_session :: "vault_env \<Rightarrow> bool \<Rightarrow> rat \<Rightarrow> pystr \<Rightarrow> vault \<Rightarrow> vault" where
  "revoke_session env db_up now sid st =
     (if \<not> db_up then st
      else st\<lparr>vrows := revoke_where (\<lambda>r. vsession r = coerce_session_uuid env sid) now (vrows st)\<rparr>)"

definition vault_reset :: "vault \<Rightarrow> vault" where
  "vault_reset st = st\<lparr>vrows := [], vlog := []\<rparr>"

section \<open>What a call changes\<close>

lemma find_Some_iff: "List.find P xs = Some x \<Longrightarrow> x \<in> set xs \<and> P x"
  by (induction xs) (auto split: if_splits)

lemma find_None_append: "List.find P xs = None \<Longrightarrow> List.find P (xs @ ys) = List.find P ys"
  by (induction xs) (auto split: if_splits)

lemma find_Some_append: "List.find P xs = Some x \<Longrightarrow> List.find P (xs @ ys) = Some x"
  by (induction xs) (auto split: if_splits)

lemma log_access_rows: "log_access env tid sid l rl pu ok reason st = Inr st' \<Longrightarrow>
    vrows st' = vrows st \<and> vnext st' = vnext st \<and> vnonces st' = vnonces st \<and>
    (\<exists>e. vlog st' = vlog st @ [e] \<and> granted e = ok \<and> denied_reason e = reason \<and> atoken e = tid)"
  by (auto simp: log_access_def bind_result_Inr)

text \<open>The branches of \<open>detokenize\<close>.\<close>

lemma detokenize_cases:
  fixes env sid l st
  defines "sel \<equiv> select_live_label (vrows st) (coerce_session_uuid env sid) l"
  obtains
    (down) "\<not> up" "detokenize env up now sid l rl pu st = (st, None)"
  | (denied) tid reason where "up"
      "detokenize env up now sid l rl pu st = fail_closed st (log_access env tid sid l rl pu False reason st) None"
  | (undecryptable) row where "up" "sel = Some row" "detokenize env up now sid l rl pu st = (st, None)"
      "\<forall>v. decrypt env (cipher_value row) \<noteq> Inr v"
  | (granted) row v where "up" "sel = Some row" "now < expires_at row" "fst (scope_allows (access_scope row) rl pu)"
      "decrypt env (cipher_value row) = Inr v"
      "detokenize env up now sid l rl pu st =
        fail_closed st (log_access env (Some (token_id row)) sid l rl pu True None st) (Some v)"
proof (cases "up \<and> (\<exists>row. sel = Some row \<and> \<not> expires_at row \<le> now \<and> fst (scope_allows (resolve_scope row) rl pu))")
  case True
  then obtain row x where row: "up" "sel = Some row" "\<not> expires_at row \<le> now" "scope_allows (resolve_scope row) rl pu = (True, x)"
    by (metis prod.collapse)
  show ?thesis
  proof (cases "decrypt env (cipher_value row)")
    case (Inl e)
    with row show ?thesis by (intro undecryptable [of row]) (simp_all add: detokenize_def sel_def)
  next
    case (Inr v)
    with row show ?thesis
      by (intro granted [of row v]) (simp_all add: detokenize_def sel_def resolve_scope_def)
  qed
next
  case False
  show ?thesis
  proof (cases up)
    case up: True
    show ?thesis
    proof (cases sel)
      case None
      with up show ?thesis by (intro denied [of None "Some (lit ''unknown_or_revoked'')"]) (simp_all add: detokenize_def sel_def)
    next
      case (Some row)
      show ?thesis
      proof (cases "expires_at row \<le> now")
        case True
        with up Some show ?thesis
          by (intro denied [of "Some (token_id row)" "Some (lit ''expired'')"]) (simp_all add: detokenize_def sel_def)
      next
        case exp: False
        then obtain x where "scope_allows (resolve_scope row) rl pu = (False, x)" using False up Some by (metis prod.collapse)
        with up Some exp show ?thesis
          by (intro denied [of "Some (token_id row)" x]) (simp_all add: detokenize_def sel_def)
      qed
    qed
  qed (intro down; simp add: detokenize_def)
qed

lemma fail_closed_rows [simp]: "vrows (fst (fail_closed st (log_access env tid sid l rl pu ok reason st) x)) = vrows st"
proof (cases "log_access env tid sid l rl pu ok reason st")
  case (Inr st')
  then show ?thesis using log_access_rows [OF Inr] by (simp add: fail_closed_def)
qed (simp add: fail_closed_def)

lemma detokenize_rows [simp]: "vrows (fst (detokenize env up now sid l rl pu st)) = vrows st"
proof (cases rule: detokenize_cases [where up = up and env = env and now = now and sid = sid and l = l and rl = rl and pu = pu and st = st])
  case (denied tid reason)
  then show ?thesis by (simp only: fail_closed_rows)
next
  case (granted row v)
  then show ?thesis by (simp only: fail_closed_rows)
qed simp_all

lemma detokenize_Some:
  assumes "detokenize env up now sid l rl pu st = (st', Some v)"
  shows "\<exists>row. up \<and> select_live_label (vrows st) (coerce_session_uuid env sid) l = Some row \<and>
    now < expires_at row \<and> fst (scope_allows (access_scope row) rl pu) \<and> decrypt env (cipher_value row) = Inr v \<and>
    log_access env (Some (token_id row)) sid l rl pu True None st = Inr st'"
  using assms
  by (cases rule: detokenize_cases [where up = up and env = env and now = now and sid = sid and l = l and rl = rl and pu = pu and st = st])
    (auto simp: fail_closed_def split: sum.splits)

lemma detokenize_granted:
  assumes "select_live_label (vrows st) (coerce_session_uuid env sid) l = Some row" "now < expires_at row"
    "fst (scope_allows (access_scope row) rl pu)" "decrypt env (cipher_value row) = Inr v"
    "log_access env (Some (token_id row)) sid l rl pu True None st = Inr st'"
  shows "detokenize env True now sid l rl pu st = (st', Some v)"
proof -
  obtain x where "scope_allows (resolve_scope row) rl pu = (True, x)"
    using assms(3) unfolding resolve_scope_def by (metis prod.collapse)
  with assms show ?thesis by (simp add: detokenize_def fail_closed_def)
qed

text \<open>
  A token call that returns a label either found the live row of the value or appended a row
  for it that carries the next number of its type.
\<close>

definition lifetime :: "vault_env \<Rightarrow> int" where
  "lifetime env = (case vault_ttl_sec env of Inl e \<Rightarrow> 0 | Inr ttl_sec \<Rightarrow> ttl_sec)"

definition new_row :: "vault_env \<Rightarrow> rat \<Rightarrow> nat \<Rightarrow> int \<Rightarrow> pystr \<Rightarrow> nat \<Rightarrow> bytes \<Rightarrow> pystr \<Rightarrow> scope option \<Rightarrow> vault_row" where
  "new_row env now tid u etype n blob h sc =
     \<lparr>token_id = tid, vsession = u, vtype = etype, token_label = token_label_fmt etype n,
      cipher_value = blob, value_hash = h, access_scope = (case sc of None \<Rightarrow> no_scope | Some s \<Rightarrow> s),
      expires_at = now + of_int (lifetime env), revoked_at = None\<rparr>"

lemma new_row_simps [simp]:
  "vsession (new_row env now tid u etype n blob h sc) = u" "vtype (new_row env now tid u etype n blob h sc) = etype"
  "token_label (new_row env now tid u etype n blob h sc) = token_label_fmt etype n"
  "value_hash (new_row env now tid u etype n blob h sc) = h" "live (new_row env now tid u etype n blob h sc)"
  "cipher_value (new_row env now tid u etype n blob h sc) = blob"
  "expires_at (new_row env now tid u etype n blob h sc) = now + of_int (lifetime env)"
  "access_scope (new_row env now tid u etype n blob h sc) = (case sc of None \<Rightarrow> no_scope | Some s \<Rightarrow> s)"
  by (simp_all add: new_row_def live_def)

lemma tokenize_cases:
  fixes env sid et v
  defines "etype \<equiv> normalize_entity_type et" and "u \<equiv> coerce_session_uuid env sid"
  obtains
    (fails) st' e where "tokenize env up now sid et v sc st = (st', Inl e)" "vrows st' = vrows st" "vlog st' = vlog st"
      "vnonces st' = vnonces st \<or> vnonces st' = (\<lambda>k. vnonces st (Suc k))"
  | (found) h row where "up" "vault_hash env sid etype v = Inr h" "select_live_hash (vrows st) u h = Some row"
      "tokenize env up now sid et v sc st = (st, Inr (token_label row))"
  | (fresh) h blob row st' where "up" "vault_hash env sid etype v = Inr h" "select_live_hash (vrows st) u h = None"
      "encrypt env (vnonces st 0) v = Inr blob" "\<forall>e. varchar64 (token_label row) \<noteq> Inl e"
      "row = new_row env now (vnext st) u etype (count_type (vrows st) u etype + 1) blob h sc"
      "tokenize env up now sid et v sc st = (st', Inr (token_label row))"
      "vrows st' = vrows st @ [row]" "vlog st' = vlog st" "vnext st' = Suc (vnext st)"
      "vnonces st' = (\<lambda>k. vnonces st (Suc k))"
proof (cases "vault_hash env sid etype v")
  case (Inl e)
  then show ?thesis by (intro fails [of st e]) (simp_all add: tokenize_def etype_def [symmetric] Let_def)
next
  case h: (Inr h)
  show ?thesis
  proof (cases "vault_ttl_sec env")
    case (Inl e)
    with h show ?thesis by (intro fails [of st e]) (simp_all add: tokenize_def etype_def [symmetric] Let_def)
  next
    case ttl: (Inr ttl)
    note run = tokenize_def etype_def [symmetric] u_def [symmetric] Let_def h ttl lifetime_def
    show ?thesis
    proof (cases "up \<and> select_live_hash (vrows st) u h = None")
      case True
      show ?thesis
      proof (cases "encrypt env (vnonces st 0) v")
        case (Inl e)
        then show ?thesis using True by (intro fails [of "st\<lparr>vnonces := (\<lambda>k. vnonces st (Suc k))\<rparr>" e]) (simp_all add: run)
      next
        case (Inr blob)
        let ?row = "new_row env now (vnext st) u etype (count_type (vrows st) u etype + 1) blob h sc"
        let ?st = "st\<lparr>vnonces := (\<lambda>k. vnonces st (Suc k))\<rparr>"
        show ?thesis
        proof (cases "insert_row env ?st ?row")
          case (Inl e)
          then show ?thesis using True Inr by (intro fails [of ?st e]) (simp_all add: run new_row_def)
        next
          case l: (Inr r)
          with True have row: "\<forall>e. varchar64 (token_label ?row) \<noteq> Inl e"
            "r = (?st\<lparr>vrows := vrows st @ [?row], vnext := Suc (vnext st)\<rparr>, Some (token_label ?row))"
            by (auto simp: insert_row_def bind_result_Inr split: if_splits)
          with l show ?thesis using True Inr h
            by (intro fresh [of h blob ?row "?st\<lparr>vrows := vrows st @ [?row], vnext := Suc (vnext st)\<rparr>"]) (simp_all add: run new_row_def)
        qed
      qed
    next
      case False
      then show ?thesis
      proof (cases up)
        case True
        then obtain row where "select_live_hash (vrows st) u h = Some row" using False by auto
        then show ?thesis using True h by (intro found [of h row]) (simp_all add: run)
      next
        case up: False
        then show ?thesis by (intro fails [of st DbError]) (simp_all add: run)
      qed
    qed
  qed
qed

end
