(* ===== verification/Vault_Laws.thy ===== *)
theory Vault_Laws
  imports Vault
begin

text \<open>
  What the vault guarantees: the invariants of its table under every sequence of calls
  (\<open>vault_step\<close>, \<open>vreach\<close>), who may restore what, and the contract of a token store
  (\<open>token_store\<close>: a label resolves to the value it was issued for, and keeps doing so), proved
  of \<open>tokenize\<close> and \<open>detokenize\<close> and used for whole lists of values.
\<close>

section \<open>The contract of a token store\<close>

locale token_store =
  fixes tok :: "'v \<Rightarrow> 'st \<Rightarrow> 'st \<times> 'l option"
    and look :: "'st \<Rightarrow> 'l \<Rightarrow> 'w option"
    and val :: "'v \<Rightarrow> 'w"
    and inv :: "'st \<Rightarrow> bool"
    and storable :: "'v \<Rightarrow> bool"
  assumes tok_inv: "inv st \<Longrightarrow> storable v \<Longrightarrow> inv (fst (tok v st))"
    and tok_look: "inv st \<Longrightarrow> storable v \<Longrightarrow> tok v st = (st', Some l) \<Longrightarrow> look st' l = Some (val v)"
    and tok_keep: "inv st \<Longrightarrow> storable v \<Longrightarrow> look st l = Some w \<Longrightarrow> look (fst (tok v st)) l = Some w"
begin

fun tok_all :: "'v list \<Rightarrow> 'st \<Rightarrow> 'st \<times> 'l option list" where
  "tok_all [] st = (st, [])"
| "tok_all (v # vs) st = (let (st, l) = tok v st; (st, ls) = tok_all vs st in (st, l # ls))"

lemma tok_all_keep:
  "inv st \<Longrightarrow> \<forall>v \<in> set vs. storable v \<Longrightarrow> look st l = Some w \<Longrightarrow> look (fst (tok_all vs st)) l = Some w"
proof (induction vs arbitrary: st)
  case (Cons v vs)
  then show ?case using tok_inv [of st v] tok_keep [of st v l w] by (simp add: case_prod_beta Let_def)
qed simp

lemma tok_all_inv: "inv st \<Longrightarrow> \<forall>v \<in> set vs. storable v \<Longrightarrow> inv (fst (tok_all vs st))"
  by (induction vs arbitrary: st) (auto simp: case_prod_beta Let_def intro: tok_inv)

text \<open>After a run of calls every label issued in it resolves to its value.\<close>

lemma tok_all_look:
  "inv st \<Longrightarrow> \<forall>v \<in> set vs. storable v \<Longrightarrow>
    list_all2 (\<lambda>v l. \<forall>x. l = Some x \<longrightarrow> look (fst (tok_all vs st)) x = Some (val v)) vs (snd (tok_all vs st))"
proof (induction vs arbitrary: st)
  case (Cons v vs)
  have i: "inv (fst (tok v st))" using Cons.prems by (simp add: tok_inv)
  have "look (fst (tok_all vs (fst (tok v st)))) x = Some (val v)" if "snd (tok v st) = Some x" for x
    using Cons.prems that tok_look [of st v "fst (tok v st)" x] by (intro tok_all_keep i) (auto simp: prod_eq_iff)
  then show ?case using Cons.IH [OF i] Cons.prems by (simp add: case_prod_beta Let_def)
qed simp

lemma same_label_same_value:
  assumes "inv st" "\<forall>v \<in> set vs. storable v" "i < length vs" "j < length vs"
    "snd (tok_all vs st) ! i = Some l" "snd (tok_all vs st) ! j = Some l"
  shows "val (vs ! i) = val (vs ! j)"
  using list_all2_nthD [OF tok_all_look [OF assms(1,2)]] assms(3-6) by (metis option.inject)

end

section \<open>Labels\<close>

definition vault_types :: "pystr set" where
  "vault_types = insert (lit ''UNKNOWN'') (set ENTITY_TYPES)"

lemma normalize_in_types [simp]: "normalize_entity_type t \<in> vault_types"
  by (simp add: normalize_entity_type_def vault_types_def Let_def)

lemma types_no_colon: "e \<in> vault_types \<Longrightarrow> 58 \<notin> set e"
  by (auto simp: vault_types_def ENTITY_TYPES_def lit_def)

lemma token_label_inject:
  assumes "e \<in> vault_types" "e' \<in> vault_types" "token_label_fmt e n = token_label_fmt e' n'"
  shows "e = e' \<and> n = n'"
proof -
  have eq: "e @ 58 # (py_str_nat n @ [62]) = e' @ 58 # (py_str_nat n' @ [62])"
    using assms(3) by (simp add: token_label_fmt_def lit_def)
  have t: "takeWhile (\<lambda>c. c \<noteq> 58) (x @ 58 # y) = x" if "x \<in> vault_types" for x y
    using types_no_colon [OF that] by (auto simp: takeWhile_append)
  have "e = e'" using arg_cong [OF eq, of "takeWhile (\<lambda>c. c \<noteq> 58)"] t [OF assms(1)] t [OF assms(2)] by simp
  with eq show ?thesis by simp
qed

section \<open>Invariants of the table\<close>

text \<open>
  \<open>numbered\<close>: the label of a row carries its position among the rows of its session and type.
  \<open>unique_live\<close>: the unique index on live rows. \<open>nonces_ok\<close>: the nonces to come are 12 bytes.
\<close>

definition numbered :: "vault_row list \<Rightarrow> bool" where
  "numbered rows \<longleftrightarrow> (\<forall>i < length rows. vtype (rows ! i) \<in> vault_types \<and>
     token_label (rows ! i) = token_label_fmt (vtype (rows ! i))
       (Suc (count_type (take i rows) (vsession (rows ! i)) (vtype (rows ! i)))))"

definition unique_live :: "vault_row list \<Rightarrow> bool" where
  "unique_live rows \<longleftrightarrow> distinct (map (\<lambda>r. (vsession r, value_hash r)) (filter live rows))"

lemma count_type_append [simp]: "count_type (xs @ ys) u e = count_type xs u e + count_type ys u e"
  by (simp add: count_type_def)

lemma count_type_Nil [simp]: "count_type [] u e = 0"
  by (simp add: count_type_def)

lemma count_type_single [simp]: "count_type [r] u e = (if vsession r = u \<and> vtype r = e then 1 else 0)"
  by (simp add: count_type_def)

lemma numbered_snoc:
  "numbered rows \<Longrightarrow> vtype r \<in> vault_types \<Longrightarrow>
    token_label r = token_label_fmt (vtype r) (count_type rows (vsession r) (vtype r) + 1) \<Longrightarrow> numbered (rows @ [r])"
  by (auto simp: numbered_def nth_append less_Suc_eq)

lemma count_type_mono: "i \<le> j \<Longrightarrow> count_type (take i rows) u e \<le> count_type (take j rows) u e"
proof -
  assume "i \<le> j"
  then have "take j rows = take i rows @ take (j - i) (drop i rows)" by (metis le_add_diff_inverse take_add)
  then show ?thesis by simp
qed

lemma numbered_unique:
  assumes "numbered rows" "i < length rows" "j < length rows"
    "vsession (rows ! i) = vsession (rows ! j)" "token_label (rows ! i) = token_label (rows ! j)"
  shows "i = j"
proof -
  have less: "\<not> a < b" if "a < length rows" "b < length rows" "vsession (rows ! a) = vsession (rows ! b)"
    "token_label (rows ! a) = token_label (rows ! b)" for a b
  proof
    assume "a < b"
    let ?u = "vsession (rows ! b)" and ?e = "vtype (rows ! b)"
    have l: "token_label (rows ! a) = token_label_fmt (vtype (rows ! a)) (Suc (count_type (take a rows) ?u (vtype (rows ! a))))"
      "token_label (rows ! b) = token_label_fmt ?e (Suc (count_type (take b rows) ?u ?e))"
      "vtype (rows ! a) \<in> vault_types" "?e \<in> vault_types"
      using assms(1) that by (auto simp: numbered_def)
    have "token_label_fmt (vtype (rows ! a)) (Suc (count_type (take a rows) ?u (vtype (rows ! a)))) =
        token_label_fmt ?e (Suc (count_type (take b rows) ?u ?e))"
      using that(4) by (simp only: l(1,2))
    from token_label_inject [OF l(3,4) this]
    have e: "vtype (rows ! a) = ?e" "count_type (take a rows) ?u ?e = count_type (take b rows) ?u ?e" by auto
    have "count_type (take (Suc a) rows) ?u ?e \<le> count_type (take b rows) ?u ?e"
      using \<open>a < b\<close> by (intro count_type_mono) simp
    then show False using that e by (simp add: take_Suc_conv_app_nth)
  qed
  from less [OF assms(2-5)] less [of j i] assms show ?thesis by simp
qed

lemma numbered_distinct: "numbered rows \<Longrightarrow> distinct (map (\<lambda>r. (vsession r, token_label r)) rows)"
  unfolding distinct_conv_nth using numbered_unique by fastforce

lemma find_unique:
  assumes "x \<in> set xs" "P x" "\<forall>y \<in> set xs. P y \<longrightarrow> y = x"
  shows "List.find P xs = Some x"
proof (cases "List.find P xs")
  case None
  then show ?thesis using assms(1,2) by (simp add: find_None_iff)
next
  case (Some y)
  from find_Some_iff [OF this] assms(3) Some show ?thesis by blast
qed

lemma select_live_label_iff:
  assumes "numbered rows"
  shows "select_live_label rows u l = Some r \<longleftrightarrow> r \<in> set rows \<and> vsession r = u \<and> token_label r = l \<and> live r"
proof
  assume r: "r \<in> set rows \<and> vsession r = u \<and> token_label r = l \<and> live r"
  have inj: "inj_on (\<lambda>r. (vsession r, token_label r)) (set rows)"
    using numbered_distinct [OF assms] by (simp add: distinct_map)
  have "\<forall>y \<in> set rows. vsession y = u \<and> token_label y = l \<and> live y \<longrightarrow> y = r"
    by (intro ballI impI, rule inj_onD [OF inj]) (use r in simp_all)
  with r show "select_live_label rows u l = Some r"
    unfolding select_live_label_def by (intro find_unique [of r]) blast+
next
  assume "select_live_label rows u l = Some r"
  from find_Some_iff [OF this [unfolded select_live_label_def]]
  show "r \<in> set rows \<and> vsession r = u \<and> token_label r = l \<and> live r" .
qed

text \<open>Revoking changes nothing but the revocation.\<close>

lemma revoke_where_nth: "i < length rows \<Longrightarrow> vsession (revoke_where P t rows ! i) = vsession (rows ! i) \<and>
    vtype (revoke_where P t rows ! i) = vtype (rows ! i) \<and> token_label (revoke_where P t rows ! i) = token_label (rows ! i)"
  by (simp add: revoke_where_def)

lemma count_type_revoke [simp]: "count_type (revoke_where P t rows) u e = count_type rows u e"
proof -
  have "filter (\<lambda>r. vsession r = u \<and> vtype r = e) (revoke_where P t rows) =
      map (\<lambda>r. if P r \<and> live r then r\<lparr>revoked_at := Some t\<rparr> else r) (filter (\<lambda>r. vsession r = u \<and> vtype r = e) rows)"
    unfolding revoke_where_def filter_map by (intro arg_cong [where f = "map _"] filter_cong) auto
  then show ?thesis by (simp add: count_type_def)
qed

lemma numbered_revoke: "numbered rows \<Longrightarrow> numbered (revoke_where P t rows)"
proof -
  have "take i (revoke_where P t rows) = revoke_where P t (take i rows)" for i
    by (simp add: revoke_where_def take_map)
  moreover have "length (revoke_where P t rows) = length rows" by (simp add: revoke_where_def)
  ultimately show "numbered rows \<Longrightarrow> numbered (revoke_where P t rows)"
    by (auto simp: numbered_def revoke_where_nth)
qed

lemma live_revoke: "filter live (revoke_where P t rows) = filter (\<lambda>r. live r \<and> \<not> P r) rows"
  by (induction rows) (auto simp: revoke_where_def live_def)

lemma unique_live_filter: "unique_live rows \<Longrightarrow> unique_live (filter Q rows)"
proof -
  have "filter live (filter Q rows) = filter Q (filter live rows)" by (simp add: conj_commute)
  then show "unique_live rows \<Longrightarrow> unique_live (filter Q rows)"
    unfolding unique_live_def by (metis distinct_map_filter)
qed

lemma unique_live_revoke: "unique_live rows \<Longrightarrow> unique_live (revoke_where P t rows)"
  using unique_live_filter [of rows "\<lambda>r. \<not> P r"]
  by (simp add: unique_live_def live_revoke conj_commute)

lemma unique_live_snoc:
  "unique_live rows \<Longrightarrow> select_live_hash rows (vsession r) (value_hash r) = None \<Longrightarrow> unique_live (rows @ [r])"
  by (auto simp: unique_live_def select_live_hash_def find_None_iff)

section \<open>Sequences of calls\<close>

inductive vault_step :: "vault_env \<Rightarrow> bool \<Rightarrow> vault \<Rightarrow> vault \<Rightarrow> bool" for env :: vault_env and purging :: bool where
  step_tokenize: "vault_step env purging st (fst (tokenize env up now sid et v sc st))"
| step_detokenize: "vault_step env purging st (fst (detokenize env up now sid l rl pu st))"
| step_revoke: "vault_step env purging st (revoke_session env up now sid st)"
| step_purge: "purging \<Longrightarrow> vault_step env purging st (purge_expired up now st)"

inductive_cases vault_stepE: "vault_step env purging st st'"

definition empty_vault :: "(nat \<Rightarrow> bytes) \<Rightarrow> vault" where
  "empty_vault nonces = \<lparr>vrows = [], vlog = [], vnext = 0, vnonces = nonces\<rparr>"

inductive vreach :: "vault_env \<Rightarrow> bool \<Rightarrow> vault \<Rightarrow> bool" for env :: vault_env and purging :: bool where
  vreach_empty: "vreach env purging (empty_vault nonces)"
| vreach_step: "vreach env purging st \<Longrightarrow> vault_step env purging st st' \<Longrightarrow> vreach env purging st'"

lemma tokenize_unique_live: "unique_live (vrows st) \<Longrightarrow> unique_live (vrows (fst (tokenize env up now sid et v sc st)))"
  by (cases rule: tokenize_cases [where env = env and up = up and now = now and sid = sid and et = et and v = v and sc = sc and st = st])
    (auto intro: unique_live_snoc)

lemma tokenize_numbered: "numbered (vrows st) \<Longrightarrow> numbered (vrows (fst (tokenize env up now sid et v sc st)))"
  by (cases rule: tokenize_cases [where env = env and up = up and now = now and sid = sid and et = et and v = v and sc = sc and st = st])
    (auto intro!: numbered_snoc)

lemma step_unique_live: "vault_step env p st st' \<Longrightarrow> unique_live (vrows st) \<Longrightarrow> unique_live (vrows st')"
  by (erule vault_stepE)
    (auto simp: tokenize_unique_live revoke_session_def purge_expired_def intro: unique_live_filter unique_live_revoke)

lemma step_numbered: "vault_step env False st st' \<Longrightarrow> numbered (vrows st) \<Longrightarrow> numbered (vrows st')"
  by (erule vault_stepE)
    (auto simp: tokenize_numbered revoke_session_def intro: numbered_revoke)

lemma empty_vault_ok [simp]: "unique_live (vrows (empty_vault g))" "numbered (vrows (empty_vault g))"
  by (simp_all add: empty_vault_def unique_live_def numbered_def)

lemma reach_unique_live: "vreach env p st \<Longrightarrow> unique_live (vrows st)"
  by (induction rule: vreach.induct) (simp_all add: step_unique_live)

lemma reach_numbered: "vreach env False st \<Longrightarrow> numbered (vrows st)"
  by (induction rule: vreach.induct) (simp_all add: step_numbered)

section \<open>The vault is a token store\<close>

text \<open>
  The laws hold of the vault for a requester whom the scope admits, before the tokens expire,
  under the documented behaviour of the cipher (decryption undoes encryption) and while the
  hash does not collide on the values \<open>V\<close> in use.
\<close>

definition crypto_ok :: "vault_env \<Rightarrow> bool" where
  "crypto_ok env \<longleftrightarrow> (\<forall>key nonce plain. aes_decrypt env key nonce (aes_encrypt env key nonce plain) = Some plain)"

definition hash_free :: "vault_env \<Rightarrow> pystr \<Rightarrow> (pystr \<times> pystr) set \<Rightarrow> bool" where
  "hash_free env sid V \<longleftrightarrow> (\<forall>(e, v) \<in> V. \<forall>(e', v') \<in> V. \<forall>h.
     vault_hash env sid e v = Inr h \<longrightarrow> vault_hash env sid e' v' = Inr h \<longrightarrow> v = v')"

definition row_ok :: "vault_env \<Rightarrow> pystr \<Rightarrow> (pystr \<times> pystr) set \<Rightarrow> rat \<Rightarrow> pystr option \<Rightarrow> pystr option \<Rightarrow> vault_row \<Rightarrow> bool" where
  "row_ok env sid V now' rl pu r \<longleftrightarrow> now' < expires_at r \<and> fst (scope_allows (access_scope r) rl pu) \<and>
     (\<exists>l. varchar64 (token_label r) = Inr l) \<and>
     (\<exists>v. (vtype r, v) \<in> V \<and> decrypt env (cipher_value r) = Inr v \<and> vault_hash env sid (vtype r) v = Inr (value_hash r))"

definition restoring :: "vault_env \<Rightarrow> pystr \<Rightarrow> (pystr \<times> pystr) set \<Rightarrow> rat \<Rightarrow> rat \<Rightarrow> scope option \<Rightarrow> pystr option \<Rightarrow> pystr option \<Rightarrow> vault \<Rightarrow> bool" where
  "restoring env sid V now now' sc rl pu st \<longleftrightarrow>
     crypto_ok env \<and> hash_free env sid V \<and> now' < now + of_int (lifetime env) \<and>
     fst (scope_allows (case sc of None \<Rightarrow> no_scope | Some s \<Rightarrow> s) rl pu) \<and>
     (\<exists>r. varchar64 (case rl of None \<Rightarrow> [] | Some r \<Rightarrow> r) = Inr r) \<and> (\<exists>p. map_option_result pg_text pu = Inr p) \<and>
     numbered (vrows st) \<and> (\<forall>k. length (vnonces st k) = NONCE_BYTES) \<and>
     (\<forall>r \<in> set (vrows st). live r \<and> vsession r = coerce_session_uuid env sid \<longrightarrow> row_ok env sid V now' rl pu r)"

definition storable_value :: "(pystr \<times> pystr) set \<Rightarrow> pystr \<times> pystr \<Rightarrow> bool" where
  "storable_value V p \<longleftrightarrow> (normalize_entity_type (fst p), snd p) \<in> V \<and> (\<forall>c \<in> set (snd p). valid_char c)"

definition vault_tok :: "vault_env \<Rightarrow> pystr \<Rightarrow> rat \<Rightarrow> scope option \<Rightarrow> pystr \<times> pystr \<Rightarrow> vault \<Rightarrow> vault \<times> pystr option" where
  "vault_tok env sid now sc p st =
     (case tokenize env True now sid (fst p) (snd p) sc st of
        (st', Inl _) \<Rightarrow> (st', None) | (st', Inr l) \<Rightarrow> (st', Some l))"

definition vault_look :: "vault_env \<Rightarrow> pystr \<Rightarrow> rat \<Rightarrow> pystr option \<Rightarrow> pystr option \<Rightarrow> vault \<Rightarrow> pystr \<Rightarrow> pystr option" where
  "vault_look env sid now rl pu st l = snd (detokenize env True now sid l rl pu st)"

lemma decrypt_encrypt:
  assumes "crypto_ok env" "length nonce = NONCE_BYTES" "encrypt env nonce v = Inr blob" "\<forall>c \<in> set v. valid_char c"
  shows "decrypt env blob = Inr v"
  using assms utf8_roundtrip [OF assms(4)]
  by (auto simp: encrypt_def decrypt_def bind_result_Inr crypto_ok_def)

lemma log_access_ok:
  "varchar64 l = Inr x \<Longrightarrow> varchar64 (case rl of None \<Rightarrow> [] | Some r \<Rightarrow> r) = Inr y \<Longrightarrow>
    map_option_result pg_text pu = Inr p \<Longrightarrow> \<exists>st'. log_access env tid sid l rl pu ok reason st = Inr st'"
  by (simp add: log_access_def)

lemma look_row:
  assumes "restoring env sid V now now' sc rl pu st" "r \<in> set (vrows st)" "live r"
    "vsession r = coerce_session_uuid env sid"
  shows "\<exists>v. vault_look env sid now' rl pu st (token_label r) = Some v \<and> (vtype r, v) \<in> V \<and>
    vault_hash env sid (vtype r) v = Inr (value_hash r)"
proof -
  from assms have ok: "row_ok env sid V now' rl pu r" "numbered (vrows st)"
    "\<exists>x. varchar64 (case rl of None \<Rightarrow> [] | Some r \<Rightarrow> r) = Inr x" and p: "\<exists>p. map_option_result pg_text pu = Inr p"
    by (auto simp: restoring_def)
  then obtain v x l where v: "(vtype r, v) \<in> V" "decrypt env (cipher_value r) = Inr v"
    "vault_hash env sid (vtype r) v = Inr (value_hash r)"
    and l: "varchar64 (token_label r) = Inr l" "varchar64 (case rl of None \<Rightarrow> [] | Some r \<Rightarrow> r) = Inr x"
    and e: "now' < expires_at r" "fst (scope_allows (access_scope r) rl pu)"
    by (auto simp: row_ok_def)
  obtain st' where "log_access env (Some (token_id r)) sid (token_label r) rl pu True None st = Inr st'"
    using log_access_ok [OF l] p by blast
  moreover have "select_live_label (vrows st) (coerce_session_uuid env sid) (token_label r) = Some r"
    using assms(2-4) by (simp add: select_live_label_iff [OF ok(2)])
  ultimately show ?thesis
    using detokenize_granted [OF _ e v(2)] v by (simp add: vault_look_def)
qed

lemma look_Some_row:
  assumes "restoring env sid V now now' sc rl pu st" "vault_look env sid now' rl pu st l = Some v"
  shows "\<exists>r \<in> set (vrows st). live r \<and> vsession r = coerce_session_uuid env sid \<and> token_label r = l"
proof -
  have n: "numbered (vrows st)" using assms(1) by (simp add: restoring_def)
  obtain st' where "detokenize env True now' sid l rl pu st = (st', Some v)"
    using assms(2) by (auto simp: vault_look_def prod_eq_iff intro: that)
  from detokenize_Some [OF this] show ?thesis by (auto simp: select_live_label_iff [OF n])
qed

lemma nonce_shift: "\<forall>k. length (g k) = n \<Longrightarrow> \<forall>k. length (g (Suc k)) = n"
  by blast

lemma tok_restoring:
  assumes "restoring env sid V now now' sc rl pu st" "storable_value V p"
  shows "restoring env sid V now now' sc rl pu (fst (vault_tok env sid now sc p st))"
proof (cases rule: tokenize_cases [where env = env and up = True and now = now and sid = sid and et = "fst p" and v = "snd p" and sc = sc and st = st])
  case (fails st' e)
  then show ?thesis using assms(1)
    by (auto simp: vault_tok_def restoring_def)
next
  case (found h row)
  then show ?thesis using assms(1) by (simp add: vault_tok_def)
next
  case (fresh h blob row st')
  have "decrypt env blob = Inr (snd p)"
    using assms fresh(4) by (intro decrypt_encrypt [of env "vnonces st 0"]) (auto simp: restoring_def storable_value_def)
  moreover obtain l where "varchar64 (token_label row) = Inr l" using fresh(5) by (cases "varchar64 (token_label row)") auto
  ultimately have "row_ok env sid V now' rl pu row"
    using assms fresh(2) unfolding fresh(6) by (auto simp: row_ok_def restoring_def storable_value_def)
  moreover have "numbered (vrows st @ [row])"
    using assms(1) unfolding fresh(6) by (intro numbered_snoc) (simp_all add: restoring_def)
  ultimately show ?thesis
    using assms(1) fresh(7-11) by (auto simp: vault_tok_def restoring_def)
qed

lemma tok_issued:
  assumes "vault_tok env sid now sc p st = (st', Some l)"
  shows "\<exists>r h. r \<in> set (vrows st') \<and> live r \<and> vsession r = coerce_session_uuid env sid \<and> token_label r = l \<and>
    value_hash r = h \<and> vault_hash env sid (normalize_entity_type (fst p)) (snd p) = Inr h"
proof (cases rule: tokenize_cases [where env = env and up = True and now = now and sid = sid and et = "fst p" and v = "snd p" and sc = sc and st = st])
  case (found h row)
  then have "row \<in> set (vrows st) \<and> vsession row = coerce_session_uuid env sid \<and> value_hash row = h \<and> live row"
    unfolding select_live_hash_def by (intro find_Some_iff)
  with found assms show ?thesis by (intro exI [of _ row] exI [of _ h]) (auto simp: vault_tok_def)
next
  case (fresh h blob row st'')
  with assms show ?thesis by (intro exI [of _ row] exI [of _ h]) (auto simp: vault_tok_def)
qed (use assms in \<open>auto simp: vault_tok_def\<close>)

lemma tok_rows_grow: "set (vrows st) \<subseteq> set (vrows (fst (vault_tok env sid now sc p st)))"
  by (cases rule: tokenize_cases [where env = env and up = True and now = now and sid = sid and et = "fst p" and v = "snd p" and sc = sc and st = st])
    (auto simp: vault_tok_def)

lemma vault_tok_look:
  assumes "restoring env sid V now now' sc rl pu st" "storable_value V p" "vault_tok env sid now sc p st = (st', Some l)"
  shows "vault_look env sid now' rl pu st' l = Some (snd p)"
proof -
  have st': "restoring env sid V now now' sc rl pu st'"
    using tok_restoring [OF assms(1,2)] assms(3) by simp
  obtain r where r: "r \<in> set (vrows st')" "live r" "vsession r = coerce_session_uuid env sid" "token_label r = l"
    "vault_hash env sid (normalize_entity_type (fst p)) (snd p) = Inr (value_hash r)"
    using tok_issued [OF assms(3)] by auto
  from look_row [OF st' r(1-3)] obtain v where v: "vault_look env sid now' rl pu st' l = Some v"
    "(vtype r, v) \<in> V" "vault_hash env sid (vtype r) v = Inr (value_hash r)" by (auto simp: r(4))
  have "v = snd p"
    using st' assms(2) v(2,3) r(5) unfolding restoring_def storable_value_def hash_free_def by fast
  with v(1) show ?thesis by simp
qed

lemma vault_tok_keep:
  assumes "restoring env sid V now now' sc rl pu st" "storable_value V p" "vault_look env sid now' rl pu st l = Some w"
  shows "vault_look env sid now' rl pu (fst (vault_tok env sid now sc p st)) l = Some w"
proof -
  let ?st' = "fst (vault_tok env sid now sc p st)"
  note st' = tok_restoring [OF assms(1,2)]
  from look_Some_row [OF assms(1,3)] obtain r where r: "r \<in> set (vrows st)" "live r"
    "vsession r = coerce_session_uuid env sid" "token_label r = l" by auto
  then have "r \<in> set (vrows ?st')" using tok_rows_grow by blast
  from look_row [OF st' this r(2,3)] obtain v where v: "vault_look env sid now' rl pu ?st' l = Some v"
    "(vtype r, v) \<in> V" "vault_hash env sid (vtype r) v = Inr (value_hash r)" by (auto simp: r(4))
  from look_row [OF assms(1) r(1-3)] assms(3) have w: "(vtype r, w) \<in> V"
    "vault_hash env sid (vtype r) w = Inr (value_hash r)" by (auto simp: r(4))
  have "v = w" using assms(1) v(2,3) w unfolding restoring_def hash_free_def by fast
  with v(1) show ?thesis by simp
qed

interpretation vault_store: token_store "vault_tok env sid now sc" "vault_look env sid now' rl pu" snd
    "restoring env sid V now now' sc rl pu" "storable_value V"
  for env sid V now now' sc rl pu
  by unfold_locales (auto intro: tok_restoring vault_tok_look vault_tok_keep)

text \<open>The calls of one request for a list of typed values, and the labels they return.\<close>

fun tokenize_all :: "vault_env \<Rightarrow> pystr \<Rightarrow> rat \<Rightarrow> scope option \<Rightarrow> (pystr \<times> pystr) list \<Rightarrow> vault \<Rightarrow> vault \<times> pystr option list" where
  "tokenize_all env sid now sc [] st = (st, [])"
| "tokenize_all env sid now sc (p # ps) st =
     (let (st, l) = vault_tok env sid now sc p st; (st, ls) = tokenize_all env sid now sc ps st in (st, l # ls))"

lemma tokenize_all_tok_all: "tokenize_all env sid now sc ps st = vault_store.tok_all env sid now sc ps st"
  by (induction ps arbitrary: st) (simp_all add: vault_store.tok_all.simps)

lemma tokenize_Inr_ttl: "tokenize env up now sid et v sc st = (st', Inr l) \<Longrightarrow> \<exists>ttl. vault_ttl_sec env = Inr ttl"
  by (auto simp: tokenize_def Let_def split: sum.splits)

lemma tokenize_found:
  "vault_ttl_sec env = Inr ttl \<Longrightarrow> vault_hash env sid (normalize_entity_type et) v = Inr h \<Longrightarrow>
    select_live_hash (vrows st) (coerce_session_uuid env sid) h = Some row \<Longrightarrow>
    tokenize env True now sid et v sc st = (st, Inr (token_label row))"
  by (simp add: tokenize_def Let_def)

lemma tokenize_again:
  assumes "tokenize env up now sid et v sc st = (st1, Inr l)"
  shows "tokenize env True now2 sid et v sc2 st1 = (st1, Inr l)"
proof -
  obtain ttl where ttl: "vault_ttl_sec env = Inr ttl" using tokenize_Inr_ttl [OF assms] by blast
  show ?thesis
  proof (cases rule: tokenize_cases [where env = env and up = up and now = now and sid = sid and et = et and v = v and sc = sc and st = st])
    case (found h row)
    with assms show ?thesis using tokenize_found [OF ttl found(2)] by auto
  next
    case (fresh h blob row st')
    have "select_live_hash (vrows st') (coerce_session_uuid env sid) h = Some row"
      using fresh(3) unfolding fresh(8) by (simp add: select_live_hash_def find_None_append fresh(6))
    with assms fresh(7) show ?thesis using tokenize_found [OF ttl fresh(2)] by auto
  qed (use assms in simp)
qed

lemma scope_denied_None:
  assumes "\<forall>r \<in> set (vrows st). live r \<and> vsession r = coerce_session_uuid env sid \<longrightarrow>
      \<not> fst (scope_allows (access_scope r) rl pu)"
  shows "snd (detokenize env up now sid l rl pu st) = None"
proof (cases "snd (detokenize env up now sid l rl pu st)")
  case (Some v)
  then have "detokenize env up now sid l rl pu st = (fst (detokenize env up now sid l rl pu st), Some v)"
    by (simp add: prod_eq_iff)
  from detokenize_Some [OF this] obtain row where row: "select_live_label (vrows st) (coerce_session_uuid env sid) l = Some row"
    "fst (scope_allows (access_scope row) rl pu)" by blast
  from find_Some_iff [OF row(1) [unfolded select_live_label_def]] row(2) assms show ?thesis by blast
qed simp

lemma sub_state_id:
  assumes "\<And>st m. I st \<Longrightarrow> I (fst (f st m)) \<and> snd (f st m) = group0 t m"
  shows "I st \<Longrightarrow> snd (sub_state f t i ms st) = sub_pieces (group0 t) t i ms"
proof (induction ms arbitrary: i st)
  case (Cons m ms)
  then show ?case using assms [OF Cons.prems, of m] by (simp add: case_prod_beta Let_def)
qed simp

lemma detokenize_text_id:
  assumes "\<And>k st l. I st \<Longrightarrow> I (fst (detokenize env (up k) (now k) sid l rl pu st)) \<and>
      snd (detokenize env (up k) (now k) sid l rl pu st) = None" "I st"
  shows "snd (detokenize_text env up now sid text rl pu st) = text"
proof -
  have "snd (detokenize_text env up now sid text rl pu st) = sub_pieces (group0 text) text 0 (re_finditer TOKEN_LABEL_RE False text)"
    unfolding detokenize_text_def
    by (rule sub_state_id [where I = "\<lambda>(k, st). I st"]) (use assms in \<open>auto simp: case_prod_beta Let_def\<close>)
  then show ?thesis using re_sub_group0 [of TOKEN_LABEL_RE False "text"] by (simp add: re_sub_def)
qed

text \<open>An instance of the parameters to evaluate the calls on.\<close>

definition sample_env :: vault_env where
  "sample_env = \<lparr>uuid5 = (\<lambda>s. int (length s)), sha256_hex = (\<lambda>b. b), vault_key = lit ''k'',
     b64decode = (\<lambda>s. Inr (replicate 32 0)), aes_encrypt = (\<lambda>k n p. rev p), aes_decrypt = (\<lambda>k n c. Some (rev c)),
     vault_ttl_sec = Inr 1800, type_codes = lit ''UNKNOWN'' # ENTITY_TYPES\<rparr>"

definition sample_vault :: vault where
  "sample_vault = empty_vault (\<lambda>k. replicate 12 0)"

definition open_scope :: scope where
  "open_scope = \<lparr>roles = [lit ''*''], purposes = [lit ''*'']\<rparr>"

section \<open>Properties\<close>

text \<open>C30: as long as expired rows are not purged, no two rows of a session carry the same label,
  whatever calls were made.\<close>

theorem vault_labels_unique:
  assumes "vreach env False st"
  shows "distinct (map (\<lambda>r. (vsession r, token_label r)) (vrows st))"
  using numbered_distinct [OF reach_numbered [OF assms]] .

theorem vault_labels_unique_witness:
  "distinct (map (\<lambda>r. (vsession r, token_label r))
     (vrows (fst (tokenize sample_env True 0 (lit ''s'') (lit ''RRN'') (lit ''x'') None sample_vault))))"
  unfolding sample_vault_def by (rule vault_labels_unique) (rule vreach_step [OF vreach_empty step_tokenize])

text \<open>a session never has two live rows for one value, under any calls, purging included.\<close>

theorem vault_live_unique:
  assumes "vreach env p st"
  shows "distinct (map (\<lambda>r. (vsession r, value_hash r)) (filter live (vrows st)))"
  using reach_unique_live [OF assms] by (simp add: unique_live_def)

theorem vault_live_unique_witness:
  "distinct (map (\<lambda>r. (vsession r, value_hash r)) (filter live
     (vrows (purge_expired True 5 (fst (tokenize sample_env True 0 (lit ''s'') (lit ''RRN'') (lit ''x'') None sample_vault))))))"
  unfolding sample_vault_def
  by (rule vault_live_unique [where env = sample_env and p = True])
    (rule vreach_step [OF vreach_step [OF vreach_empty step_tokenize] step_purge [OF TrueI]])

text \<open>What a call leaves of a row: its session, label and hash, whether or not it is revoked.\<close>

definition row_for :: "vault_env \<Rightarrow> pystr \<Rightarrow> pystr \<Rightarrow> pystr \<Rightarrow> vault \<Rightarrow> vault_row \<Rightarrow> bool" where
  "row_for env sid l h st r \<longleftrightarrow> r \<in> set (vrows st) \<and> vsession r = coerce_session_uuid env sid \<and> token_label r = l \<and> value_hash r = h"

lemma row_for_revoke: "\<exists>r. row_for env sid l h st r \<Longrightarrow> vrows st' = revoke_where P t (vrows st) \<Longrightarrow> \<exists>r. row_for env sid l h st' r"
proof (elim exE)
  fix r assume r: "row_for env sid l h st r" and v: "vrows st' = revoke_where P t (vrows st)"
  have "(if P r \<and> live r then r\<lparr>revoked_at := Some t\<rparr> else r) \<in> set (vrows st')"
    using r unfolding v by (auto simp: row_for_def revoke_where_def)
  with r show "\<exists>r. row_for env sid l h st' r"
    by (intro exI [of _ "if P r \<and> live r then r\<lparr>revoked_at := Some t\<rparr> else r"]) (auto simp: row_for_def)
qed

lemma row_for_tokenize: "\<exists>r. row_for env sid l h st r \<Longrightarrow> \<exists>r. row_for env sid l h (fst (tokenize env up now sid' et v sc st)) r"
  by (cases rule: tokenize_cases [where env = env and up = up and now = now and sid = sid' and et = et and v = v and sc = sc and st = st])
    (auto simp: row_for_def)

lemma row_for_steps: "(vault_step env False)\<^sup>*\<^sup>* st st' \<Longrightarrow> \<exists>r. row_for env sid l h st r \<Longrightarrow> \<exists>r. row_for env sid l h st' r"
proof (induction rule: rtranclp_induct)
  case (step st1 st2)
  note old = step.IH [OF step.prems]
  from step.hyps(2) show ?case
  proof (cases rule: vault_step.cases)
    case (step_tokenize up now sid' et v sc)
    with row_for_tokenize [OF old] show ?thesis by simp
  next
    case (step_revoke up now sid')
    with old row_for_revoke [OF old] show ?thesis by (cases up) (auto simp: revoke_session_def)
  next
    case (step_detokenize up now sid' l' rl pu)
    with old show ?thesis by (simp add: row_for_def)
  qed simp
qed

lemma tokenize_row_for:
  assumes "tokenize env up now sid et v sc st = (st', Inr l)"
  shows "\<exists>h r. vault_hash env sid (normalize_entity_type et) v = Inr h \<and> row_for env sid l h st' r"
proof (cases rule: tokenize_cases [where env = env and up = up and now = now and sid = sid and et = et and v = v and sc = sc and st = st])
  case (found h row)
  with assms find_Some_iff [OF found(3) [unfolded select_live_hash_def]] show ?thesis
    by (intro exI [of _ h] exI [of _ row]) (auto simp: row_for_def)
next
  case (fresh h blob row st')
  with assms show ?thesis by (intro exI [of _ h] exI [of _ row]) (auto simp: row_for_def)
qed (use assms in simp)

lemma row_for_unique: "numbered (vrows st) \<Longrightarrow> row_for env sid l h st r \<Longrightarrow> row_for env sid l h' st r' \<Longrightarrow> r = r'"
  using inj_onD [of "\<lambda>r. (vsession r, token_label r)" "set (vrows st)" r r'] numbered_distinct [of "vrows st"]
  by (auto simp: row_for_def distinct_map)

lemma live_row_found:
  assumes "unique_live (vrows st)" "row_for env sid l h st r" "live r"
  shows "select_live_hash (vrows st) (coerce_session_uuid env sid) h = Some r"
proof -
  have inj: "inj_on (\<lambda>r. (vsession r, value_hash r)) (set (filter live (vrows st)))"
    using assms(1) by (simp add: unique_live_def distinct_map)
  have "\<forall>y \<in> set (vrows st). vsession y = coerce_session_uuid env sid \<and> value_hash y = h \<and> live y \<longrightarrow> y = r"
    by (intro ballI impI, rule inj_onD [OF inj]) (use assms(2,3) in \<open>simp_all add: row_for_def\<close>)
  with assms(2,3) show ?thesis unfolding select_live_hash_def by (intro find_unique) (simp_all add: row_for_def)
qed

lemma hash_free_pair:
  assumes "hash_free env sid {(e, v), (e', v')}" "vault_hash env sid e v = Inr h" "vault_hash env sid e' v' = Inr h"
  shows "v' = v"
proof -
  have "(e, v) \<in> {(e, v), (e', v')}" "(e', v') \<in> {(e, v), (e', v')}" by simp_all
  with assms show ?thesis unfolding hash_free_def by blast
qed

lemma tokenize_reuses:
  assumes "vault_hash env sid (normalize_entity_type et) v = Inr h" "select_live_hash (vrows st) (coerce_session_uuid env sid) h = Some r"
    "tokenize env up now sid et v sc st = (st', Inr l)"
  shows "l = token_label r"
proof -
  obtain ttl where "vault_ttl_sec env = Inr ttl" using tokenize_Inr_ttl [OF assms(3)] by blast
  with assms show ?thesis by (simp add: tokenize_def Let_def split: if_splits)
qed

text \<open>C32: Within a session a label stands for one value for as long as nothing is purged: whatever calls come between two
  token calls, revocations included, equal labels mean equal values, and the same value of the same type
  gets the label it had while its row is live, as long as the hash does not collide on the two.\<close>

theorem label_identifies_value:
  assumes "vreach env False st" "tokenize env up now sid et v sc st = (st1, Inr l)" "(vault_step env False)\<^sup>*\<^sup>* st1 st2"
    "tokenize env up' now' sid et' v' sc' st2 = (st3, Inr l')" "hash_free env sid {(normalize_entity_type et, v), (normalize_entity_type et', v')}"
  shows "(l' = l \<longrightarrow> v' = v) \<and>
    (v' = v \<and> normalize_entity_type et' = normalize_entity_type et \<and>
      (\<exists>r \<in> set (vrows st2). live r \<and> vsession r = coerce_session_uuid env sid \<and> token_label r = l) \<longrightarrow> l' = l)"
proof -
  have r1: "vreach env False st1" using vreach_step [OF assms(1) step_tokenize, of up now sid et v sc] assms(2) by simp
  have r2: "vreach env False st2" using assms(3) r1 by (induction rule: rtranclp_induct) (auto intro: vreach_step)
  have r3: "vreach env False st3" using vreach_step [OF r2 step_tokenize, of up' now' sid et' v' sc'] assms(4) by simp
  from tokenize_row_for [OF assms(2)] obtain h ra where h: "vault_hash env sid (normalize_entity_type et) v = Inr h" "row_for env sid l h st1 ra" by blast
  from tokenize_row_for [OF assms(4)] obtain h' rc where h': "vault_hash env sid (normalize_entity_type et') v' = Inr h'" "row_for env sid l' h' st3 rc" by blast
  from row_for_steps [OF assms(3)] h(2) obtain rb where rb: "row_for env sid l h st2 rb" by blast
  from row_for_tokenize [of env sid l h st2 up' now' sid et' v' sc'] rb assms(4) obtain rd where rd: "row_for env sid l h st3 rd" by auto
  have "v' = v" if "l' = l"
  proof -
    have "row_for env sid l h' st3 rc" using h'(2) that by simp
    from row_for_unique [OF reach_numbered [OF r3] rd this] have "rd = rc" .
    with rd h'(2) have "h' = h" by (simp add: row_for_def)
    with h'(1) have "vault_hash env sid (normalize_entity_type et') v' = Inr h" by simp
    with hash_free_pair [OF assms(5) h(1)] show ?thesis by simp
  qed
  moreover have "l' = l" if "v' = v" "normalize_entity_type et' = normalize_entity_type et"
    and r: "r \<in> set (vrows st2)" "live r" "vsession r = coerce_session_uuid env sid" "token_label r = l" for r
  proof -
    have "row_for env sid l (value_hash r) st2 r" using r by (simp add: row_for_def)
    from row_for_unique [OF reach_numbered [OF r2] rb this] have "rb = r" .
    with rb have "row_for env sid l h st2 r" by simp
    from live_row_found [OF reach_unique_live [OF r2] this r(2)]
    have sel: "select_live_hash (vrows st2) (coerce_session_uuid env sid) h = Some r" .
    have "vault_hash env sid (normalize_entity_type et') v' = Inr h" using h(1) that(1,2) by simp
    from tokenize_reuses [OF this sel assms(4)] r(4) show ?thesis by simp
  qed
  ultimately show ?thesis by blast
qed

theorem label_identifies_value_witness:
  "let r1 = tokenize sample_env True 0 (lit ''s'') (lit ''RRN'') (lit ''x'') None sample_vault;
       st2 = revoke_session sample_env True 5 (lit ''s'') (fst r1);
       r3 = tokenize sample_env True 9 (lit ''s'') (lit ''RRN'') (lit ''y'') None st2
   in snd r1 \<noteq> snd r3"
proof -
  let ?r1 = "tokenize sample_env True 0 (lit ''s'') (lit ''RRN'') (lit ''x'') None sample_vault"
  let ?st2 = "revoke_session sample_env True 5 (lit ''s'') (fst ?r1)"
  let ?r3 = "tokenize sample_env True 9 (lit ''s'') (lit ''RRN'') (lit ''y'') None ?st2"
  have s: "snd ?r1 = Inr (lit ''<PII:RRN:1>'')" "snd ?r3 = Inr (lit ''<PII:RRN:2>'')" "normalize_entity_type (lit ''RRN'') = lit ''RRN''"
    "lit ''y'' \<noteq> lit ''x''" by code_simp+
  then have l: "?r1 = (fst ?r1, Inr (lit ''<PII:RRN:1>''))" "?r3 = (fst ?r3, Inr (lit ''<PII:RRN:2>''))"
    by (simp_all only: prod_eq_iff fst_conv snd_conv)
  have steps: "(vault_step sample_env False)\<^sup>*\<^sup>* (fst ?r1) ?st2" by (rule r_into_rtranclp, rule step_revoke)
  have "case (vault_hash sample_env (lit ''s'') (lit ''RRN'') (lit ''x''), vault_hash sample_env (lit ''s'') (lit ''RRN'') (lit ''y'')) of
      (Inr h, Inr k) \<Rightarrow> h \<noteq> k | _ \<Rightarrow> False" by code_simp
  then have "hash_free sample_env (lit ''s'') {(normalize_entity_type (lit ''RRN''), lit ''x''), (normalize_entity_type (lit ''RRN''), lit ''y'')}"
    by (auto simp: hash_free_def s(3) split: sum.splits)
  from label_identifies_value [OF vreach_empty [of _ _ "\<lambda>k. replicate 12 0", folded sample_vault_def] l(1) steps l(2) this] s(4)
  have "lit ''<PII:RRN:1>'' \<noteq> lit ''<PII:RRN:2>''" by metis
  then show ?thesis unfolding Let_def s(1,2) by simp
qed

text \<open>the same value of the same type gets the same label again, at any later time and for any
  scope, and the second call changes nothing.\<close>

theorem tokenize_idempotent:
  assumes "tokenize env up now sid et v sc st = (st1, Inr l)"
  shows "tokenize env True now2 sid et v sc2 st1 = (st1, Inr l)"
  using assms by (rule tokenize_again)

theorem tokenize_idempotent_witness:
  "snd (tokenize sample_env True 9999 (lit ''s'') (lit ''RRN'') (lit ''x'') None
     (fst (tokenize sample_env True 0 (lit ''s'') (lit ''RRN'') (lit ''x'') (Some open_scope) sample_vault))) = Inr (lit ''<PII:RRN:1>'')"
proof -
  let ?r = "tokenize sample_env True 0 (lit ''s'') (lit ''RRN'') (lit ''x'') (Some open_scope) sample_vault"
  have "snd ?r = Inr (lit ''<PII:RRN:1>'')" by code_simp
  then have "?r = (fst ?r, Inr (lit ''<PII:RRN:1>''))" by (simp only: prod_eq_iff fst_conv snd_conv)
  from tokenize_idempotent [OF this, of 9999 None] show ?thesis by (simp only: snd_conv)
qed

text \<open>C4: every label issued in a run of token calls is restored to the value it was issued for, to a
  requester in scope before the tokens expire, also when values repeat and rows existed before.\<close>

theorem tokenize_all_restored:
  assumes "restoring env sid V now now' sc rl pu st" "\<forall>p \<in> set ps. storable_value V p"
  shows "list_all2 (\<lambda>p l. \<forall>x. l = Some x \<longrightarrow>
      snd (detokenize env True now' sid x rl pu (fst (tokenize_all env sid now sc ps st))) = Some (snd p))
    ps (snd (tokenize_all env sid now sc ps st))"
  using vault_store.tok_all_look [OF assms] by (simp add: tokenize_all_tok_all vault_look_def)

lemma sample_restoring:
  "restoring sample_env (lit ''s'') {(lit ''RRN'', lit ''ab''), (lit ''PHONE'', lit ''cd'')} 0 9 (Some open_scope) None None sample_vault"
  unfolding restoring_def
proof (intro conjI)
  show "crypto_ok sample_env" by (simp add: crypto_ok_def sample_env_def)
  show "hash_free sample_env (lit ''s'') {(lit ''RRN'', lit ''ab''), (lit ''PHONE'', lit ''cd'')}"
  proof -
    have "(case (vault_hash sample_env (lit ''s'') (lit ''RRN'') (lit ''ab''), vault_hash sample_env (lit ''s'') (lit ''PHONE'') (lit ''cd'')) of
      (Inr h, Inr k) \<Rightarrow> h \<noteq> k | _ \<Rightarrow> False)" by code_simp
    then show ?thesis by (auto simp: hash_free_def split: sum.splits)
  qed
  show "\<exists>r. varchar64 (case None of None \<Rightarrow> [] | Some r \<Rightarrow> r) = Inr r" by (simp add: varchar64_def)
  show "\<exists>p. map_option_result pg_text None = Inr p" by (simp add: map_option_result_def)
  show "fst (scope_allows (case Some open_scope of None \<Rightarrow> no_scope | Some s \<Rightarrow> s) None None)" by code_simp
  show "(9 :: rat) < 0 + of_int (lifetime sample_env)" by (simp add: sample_env_def lifetime_def)
qed (simp_all add: sample_vault_def empty_vault_def numbered_def NONCE_BYTES_def)

theorem tokenize_all_restored_witness:
  "let r = tokenize_all sample_env (lit ''s'') 0 (Some open_scope)
       [(lit ''RRN'', lit ''ab''), (lit ''PHONE'', lit ''cd''), (lit ''RRN'', lit ''ab'')] sample_vault
   in snd r = [Some (lit ''<PII:RRN:1>''), Some (lit ''<PII:PHONE:1>''), Some (lit ''<PII:RRN:1>'')] \<and>
     snd (detokenize sample_env True 9 (lit ''s'') (lit ''<PII:PHONE:1>'') None None (fst r)) = Some (lit ''cd'')"
proof -
  let ?V = "{(lit ''RRN'', lit ''ab''), (lit ''PHONE'', lit ''cd'')}"
  let ?ps = "[(lit ''RRN'', lit ''ab''), (lit ''PHONE'', lit ''cd''), (lit ''RRN'', lit ''ab'')]"
  let ?r = "tokenize_all sample_env (lit ''s'') 0 (Some open_scope) ?ps sample_vault"
  have n: "normalize_entity_type (lit ''RRN'') = lit ''RRN''" "normalize_entity_type (lit ''PHONE'') = lit ''PHONE''"
    by code_simp+
  have "\<forall>p \<in> set ?ps. storable_value ?V p"
    by (simp add: storable_value_def n) (simp add: lit_def valid_char_def surrogate_def)
  note t = tokenize_all_restored [OF sample_restoring this]
  have s: "snd ?r = [Some (lit ''<PII:RRN:1>''), Some (lit ''<PII:PHONE:1>''), Some (lit ''<PII:RRN:1>'')]" by code_simp
  show ?thesis using t unfolding s by (simp add: Let_def s del: tokenize_all.simps)
qed

text \<open>C6: a value is restored only from a live, unexpired row of the session whose scope admits the
  requester's role and purpose, and the table is left as it was.\<close>

theorem detokenize_only_authorised:
  assumes "detokenize env up now sid l rl pu st = (st', Some v)"
  shows "\<exists>row \<in> set (vrows st). up \<and> live row \<and> vsession row = coerce_session_uuid env sid \<and> token_label row = l \<and>
    now < expires_at row \<and> (lit ''*'' \<in> set (roles (access_scope row)) \<or> (\<exists>r. rl = Some r \<and> r \<in> set (roles (access_scope row)))) \<and>
    (lit ''*'' \<in> set (purposes (access_scope row)) \<or> (\<exists>p. pu = Some p \<and> p \<in> set (purposes (access_scope row)))) \<and>
    decrypt env (cipher_value row) = Inr v \<and> vrows st' = vrows st"
proof -
  from detokenize_Some [OF assms] obtain row where row: "up"
    "select_live_label (vrows st) (coerce_session_uuid env sid) l = Some row" "now < expires_at row"
    "fst (scope_allows (access_scope row) rl pu)" "decrypt env (cipher_value row) = Inr v" by blast
  have "vrows st' = vrows st"
    using detokenize_rows [of env up now sid l rl pu st] by (simp add: assms)
  with row find_Some_iff [OF row(2) [unfolded select_live_label_def]] show ?thesis
    by (intro bexI [of _ row]) (auto simp: scope_allows_def split: if_splits option.splits)
qed

theorem detokenize_only_authorised_witness:
  "\<exists>row \<in> set (vrows (fst (tokenize sample_env True 0 (lit ''s'') (lit ''RRN'') (lit ''x'') (Some open_scope) sample_vault))).
     live row \<and> (9 :: rat) < expires_at row"
proof -
  let ?st = "fst (tokenize sample_env True 0 (lit ''s'') (lit ''RRN'') (lit ''x'') (Some open_scope) sample_vault)"
  let ?d = "detokenize sample_env True 9 (lit ''s'') (lit ''<PII:RRN:1>'') None None ?st"
  have "snd ?d = Some (lit ''x'')" by code_simp
  then have "?d = (fst ?d, Some (lit ''x''))" by (simp only: prod_eq_iff fst_conv snd_conv)
  from detokenize_only_authorised [OF this] show ?thesis by blast
qed

text \<open>an attempt whose label, role and purpose fit their columns, and whose value can be decrypted if it is
  found, adds exactly one entry to the access log, and the entry says whether a value was returned.\<close>

theorem detokenize_logged:
  assumes "varchar64 l = Inr x" "varchar64 (case rl of None \<Rightarrow> [] | Some r \<Rightarrow> r) = Inr y" "map_option_result pg_text pu = Inr p"
    "\<forall>row \<in> set (vrows st). live row \<longrightarrow> (\<exists>v. decrypt env (cipher_value row) = Inr v)"
  shows "\<exists>e. vlog (fst (detokenize env True now sid l rl pu st)) = vlog st @ [e] \<and>
    (granted e \<longleftrightarrow> snd (detokenize env True now sid l rl pu st) \<noteq> None)"
proof -
  have log: "\<exists>st' e. log_access env tid sid l rl pu ok reason st = Inr st' \<and> vlog st' = vlog st @ [e] \<and> granted e = ok"
    for tid ok reason
    using log_access_ok [OF assms(1-3), of env tid sid ok reason st] log_access_rows by metis
  show ?thesis
  proof (cases rule: detokenize_cases [where up = True and env = env and now = now and sid = sid and l = l and rl = rl and pu = pu and st = st])
    case (denied tid reason)
    then show ?thesis using log [of tid False reason] by (auto simp: fail_closed_def)
  next
    case (undecryptable row)
    then show ?thesis using assms(4) find_Some_iff [OF undecryptable(2) [unfolded select_live_label_def]] by blast
  next
    case (granted row v)
    then show ?thesis using log [of "Some (token_id row)" True None] by (auto simp: fail_closed_def)
  qed simp
qed

theorem detokenize_logged_witness:
  "\<exists>e. vlog (fst (detokenize sample_env True 0 (lit ''s'') (lit ''<PII:RRN:7>'') None None sample_vault)) = vlog sample_vault @ [e]"
proof -
  have "varchar64 (lit ''<PII:RRN:7>'') = Inr (lit ''<PII:RRN:7>'')" "varchar64 (case None of None \<Rightarrow> [] | Some r \<Rightarrow> r) = Inr []"
    by code_simp+
  moreover have "map_option_result pg_text None = Inr None" by (simp add: map_option_result_def)
  moreover have "\<forall>row \<in> set (vrows sample_vault). live row \<longrightarrow> (\<exists>v. decrypt sample_env (cipher_value row) = Inr v)"
    by (simp add: sample_vault_def empty_vault_def)
  ultimately show ?thesis using detokenize_logged [where env = sample_env and st = sample_vault and rl = None] by blast
qed

text \<open>a requester whose role is longer than its column leaves no trace: no attempt of theirs is logged
  and none returns a value.\<close>

theorem long_role_unlogged:
  assumes "\<exists>c \<in> set (drop 64 r). c \<noteq> 32"
  shows "detokenize env up now sid l (Some r) pu st = (st, None)"
proof -
  have "\<exists>e. log_access env tid sid l (Some r) pu ok reason st = Inl e" for tid ok reason
    using assms by (cases "varchar64 l") (simp_all add: log_access_def varchar64_def [of r])
  then have "fail_closed st (log_access env tid sid l (Some r) pu ok reason st) x = (st, None)" for tid ok reason x
    unfolding fail_closed_def by (metis sum.simps(5))
  then show ?thesis
    by (cases rule: detokenize_cases [where up = up and env = env and now = now and sid = sid and l = l and rl = "Some r" and pu = pu and st = st])
      simp_all
qed

theorem long_role_unlogged_witness:
  "detokenize sample_env True 0 (lit ''s'') (lit ''<PII:RRN:1>'') (Some (replicate 65 97)) None sample_vault = (sample_vault, None)"
  by (rule long_role_unlogged) simp

text \<open>A session revoked at its start, a second value a day later, a purge, a third value.\<close>

definition reused_label :: "vault \<times> pystr result" where
  "reused_label =
     (let day = 86400;
          st = fst (tokenize sample_env True 0 (lit ''s'') (lit ''RRN'') (lit ''a'') (Some open_scope) sample_vault);
          st = revoke_session sample_env True 1 (lit ''s'') st;
          st = fst (tokenize sample_env True day (lit ''s'') (lit ''RRN'') (lit ''b'') (Some open_scope) st);
          st = purge_expired True (day + 2) st
      in tokenize sample_env True (day + 3) (lit ''s'') (lit ''RRN'') (lit ''c'') (Some open_scope) st)"

text \<open>purging lets a label number be used again, against the intention of counting revoked rows:
  with the default lifetimes two live rows of different values end up with one label, and the
  second value's own label restores the first value.\<close>

theorem purge_reuses_label:
  "(case reused_label of (st, Inr l) \<Rightarrow>
      map token_label (filter live (vrows st)) = [l, l] \<and>
      snd (detokenize sample_env True 86404 (lit ''s'') l None None st) = Some (lit ''b'')
    | _ \<Rightarrow> False)"
  by code_simp

text \<open>after a session's tokens are revoked no label of the session is restored to anyone, and the
  rows of other sessions are untouched.\<close>

theorem revoke_session_final:
  "snd (detokenize env up now' sid l rl pu (revoke_session env True now sid st)) = None \<and>
   filter (\<lambda>r. vsession r \<noteq> coerce_session_uuid env sid) (vrows (revoke_session env True now sid st)) =
     filter (\<lambda>r. vsession r \<noteq> coerce_session_uuid env sid) (vrows st)"
proof
  show "snd (detokenize env up now' sid l rl pu (revoke_session env True now sid st)) = None"
    by (rule scope_denied_None) (auto simp: revoke_session_def revoke_where_def live_def split: if_splits)
  show "filter (\<lambda>r. vsession r \<noteq> coerce_session_uuid env sid) (vrows (revoke_session env True now sid st)) =
      filter (\<lambda>r. vsession r \<noteq> coerce_session_uuid env sid) (vrows st)"
  proof -
    have "filter (\<lambda>r. vsession r \<noteq> u) (revoke_where (\<lambda>r. vsession r = u) now rows) = filter (\<lambda>r. vsession r \<noteq> u) rows" for u rows
      by (induction rows) (auto simp: revoke_where_def)
    then show ?thesis by (simp add: revoke_session_def)
  qed
qed

text \<open>a response is returned as it is when no live row of the session admits the requester, and
  when the database cannot be reached.\<close>

theorem detokenize_text_fail_closed:
  assumes "(\<forall>k. \<not> up k) \<or> (\<forall>r \<in> set (vrows st). live r \<and> vsession r = coerce_session_uuid env sid \<longrightarrow>
      \<not> fst (scope_allows (access_scope r) rl pu))"
  shows "snd (detokenize_text env up now sid body rl pu st) = body"
proof -
  have "snd (detokenize env (up k) (now k) sid l rl pu st') = None" if "vrows st' = vrows st" for k l st'
  proof (cases "up k")
    case True
    then show ?thesis using assms that by (intro scope_denied_None) auto
  qed (simp add: detokenize_def)
  then show ?thesis
    by (intro detokenize_text_id [where I = "\<lambda>s. vrows s = vrows st"]) simp_all
qed

theorem detokenize_text_fail_closed_witness:
  "snd (detokenize_text sample_env (\<lambda>k. True) (\<lambda>k. 0) (lit ''s'') (lit ''a <PII:RRN:1>'') None None
    (fst (tokenize sample_env True 0 (lit ''s'') (lit ''RRN'') (lit ''x'') None sample_vault))) = lit ''a <PII:RRN:1>''"
  by (rule detokenize_text_fail_closed, rule disjI2) code_simp

end
