(* ===== verification/Vault_Concurrency.thy ===== *)
theory Vault_Concurrency
  imports Vault_Laws
begin

text \<open>
  Interleavings of \<open>tokenize\<close> transactions. Each client runs one call; the statements of the
  transaction are the steps: the first SELECT, the advisory lock (held to the end of the
  transaction), the count, and the INSERT with its commit. Every statement sees the rows
  committed before it (READ COMMITTED); an INSERT that meets a live row of the same value does
  nothing and the label of that row is read back. The lock key is built from the session id as
  received, the rows are counted for its UUID.
\<close>

section \<open>Clients and steps\<close>

datatype pc = Start | Looked | Locked | Counted nat | Finished pystr

record token_request =
  q_sid :: pystr
  q_type :: pystr
  q_hash :: pystr
  q_blob :: bytes
  q_scope :: "scope option"
  q_now :: rat

record cstate =
  crows :: "vault_row list"
  cpcs :: "pc list"
  cheld :: "(pystr \<times> nat) list"

definition lock_key :: "token_request \<Rightarrow> pystr" where
  "lock_key q = q_sid q @ lit ''|'' @ q_type q"

definition client_step :: "vault_env \<Rightarrow> token_request list \<Rightarrow> nat \<Rightarrow> cstate \<Rightarrow> cstate option" where
  "client_step env qs i st =
     (let q = qs ! i; u = coerce_session_uuid env (q_sid q);
          go = (\<lambda>p st. Some (st\<lparr>cpcs := (cpcs st)[i := p]\<rparr>));
          release = (\<lambda>st. st\<lparr>cheld := filter (\<lambda>(k, j). j \<noteq> i) (cheld st)\<rparr>)
      in case cpcs st ! i of
        Start \<Rightarrow> (case select_live_hash (crows st) u (q_hash q) of
            Some r \<Rightarrow> go (Finished (token_label r)) st
          | None \<Rightarrow> go Looked st)
      | Looked \<Rightarrow> if lock_key q \<in> set (map fst (cheld st)) then None
          else go Locked (st\<lparr>cheld := (lock_key q, i) # cheld st\<rparr>)
      | Locked \<Rightarrow> go (Counted (count_type (crows st) u (q_type q))) st
      | Counted n \<Rightarrow> (case select_live_hash (crows st) u (q_hash q) of
            Some r \<Rightarrow> go (Finished (token_label r)) (release st)
          | None \<Rightarrow>
              let row = new_row env (q_now q) (length (crows st)) u (q_type q) (n + 1) (q_blob q) (q_hash q) (q_scope q)
              in go (Finished (token_label row)) (release (st\<lparr>crows := crows st @ [row]\<rparr>)))
      | Finished l \<Rightarrow> None)"

definition initial :: "token_request list \<Rightarrow> vault_row list \<Rightarrow> cstate" where
  "initial qs rows = \<lparr>crows = rows, cpcs = map (\<lambda>_. Start) qs, cheld = []\<rparr>"

inductive creach :: "vault_env \<Rightarrow> token_request list \<Rightarrow> vault_row list \<Rightarrow> cstate \<Rightarrow> bool"
  for env :: vault_env and qs :: "token_request list" and rows :: "vault_row list" where
  creach_initial: "creach env qs rows (initial qs rows)"
| creach_step: "creach env qs rows st \<Longrightarrow> i < length qs \<Longrightarrow> client_step env qs i st = Some st' \<Longrightarrow> creach env qs rows st'"

text \<open>A schedule names the client that moves next; a client that cannot move is passed over.\<close>

fun run_schedule :: "vault_env \<Rightarrow> token_request list \<Rightarrow> nat list \<Rightarrow> cstate \<Rightarrow> cstate" where
  "run_schedule env qs [] st = st"
| "run_schedule env qs (i # is) st =
     run_schedule env qs is (case client_step env qs i st of None \<Rightarrow> st | Some st' \<Rightarrow> st')"

lemma run_schedule_reach:
  "creach env qs rows st \<Longrightarrow> \<forall>i \<in> set is. i < length qs \<Longrightarrow> creach env qs rows (run_schedule env qs is st)"
  by (induction "is" arbitrary: st) (auto split: option.splits intro: creach_step)

section \<open>The invariant of the interleavings\<close>

text \<open>A client past the lock holds its key alone, and what it counted is still the count.\<close>

definition holds :: "token_request list \<Rightarrow> nat \<Rightarrow> cstate \<Rightarrow> bool" where
  "holds qs i st \<longleftrightarrow> (lock_key (qs ! i), i) \<in> set (cheld st)"

definition cinv :: "vault_env \<Rightarrow> token_request list \<Rightarrow> cstate \<Rightarrow> bool" where
  "cinv env qs st \<longleftrightarrow> numbered (crows st) \<and> unique_live (crows st) \<and> length (cpcs st) = length qs \<and>
     distinct (map fst (cheld st)) \<and>
     (\<forall>i < length qs. cpcs st ! i = Locked \<longrightarrow> holds qs i st) \<and>
     (\<forall>i < length qs. \<forall>n. cpcs st ! i = Counted n \<longrightarrow> holds qs i st \<and>
        n = count_type (crows st) (coerce_session_uuid env (q_sid (qs ! i))) (q_type (qs ! i)))"

definition same_session_same_id :: "vault_env \<Rightarrow> token_request list \<Rightarrow> bool" where
  "same_session_same_id env qs \<longleftrightarrow> (\<forall>q \<in> set qs. \<forall>q' \<in> set qs.
     coerce_session_uuid env (q_sid q) = coerce_session_uuid env (q_sid q') \<longrightarrow> q_sid q = q_sid q')"

lemma held_unique: "distinct (map fst xs) \<Longrightarrow> (k, i) \<in> set xs \<Longrightarrow> (k, j) \<in> set xs \<Longrightarrow> i = j"
  by (metis map_of_is_SomeI option.inject)

lemma cinv_initial: "numbered rows \<Longrightarrow> unique_live rows \<Longrightarrow> cinv env qs (initial qs rows)"
  by (simp add: cinv_def initial_def)

lemma cinv_start:
  assumes "cinv env qs st" "i < length qs" "p = Looked \<or> (\<exists>l. p = Finished l)"
  shows "cinv env qs (st\<lparr>cpcs := (cpcs st)[i := p]\<rparr>)"
  using assms by (auto simp: cinv_def holds_def nth_list_update)

lemma cinv_lock:
  assumes "cinv env qs st" "i < length qs" "lock_key (qs ! i) \<notin> set (map fst (cheld st))"
  shows "cinv env qs (st\<lparr>cheld := (lock_key (qs ! i), i) # cheld st, cpcs := (cpcs st)[i := Locked]\<rparr>)"
  using assms by (auto simp: cinv_def holds_def nth_list_update)

lemma cinv_count:
  assumes "cinv env qs st" "i < length qs" "cpcs st ! i = Locked"
  shows "cinv env qs (st\<lparr>cpcs := (cpcs st)[i := Counted (count_type (crows st)
    (coerce_session_uuid env (q_sid (qs ! i))) (q_type (qs ! i)))]\<rparr>)"
  using assms by (auto simp: cinv_def holds_def nth_list_update)

lemma cinv_release:
  assumes "cinv env qs st" "i < length qs"
  shows "cinv env qs (st\<lparr>cheld := filter (\<lambda>(k, j). j \<noteq> i) (cheld st), cpcs := (cpcs st)[i := Finished l]\<rparr>)"
  using assms by (auto simp: cinv_def holds_def nth_list_update distinct_map_filter)

lemma cinv_insert:
  fixes env qs i st
  defines "q \<equiv> qs ! i" and "u \<equiv> coerce_session_uuid env (q_sid (qs ! i))"
  assumes inv: "cinv env qs st" and i: "i < length qs" "cpcs st ! i = Counted n"
    and same: "same_session_same_id env qs" and ty: "q_type q \<in> vault_types"
    and none: "select_live_hash (crows st) u (q_hash q) = None"
  shows "cinv env qs (st\<lparr>crows := crows st @ [new_row env t k u (q_type q) (n + 1) (q_blob q) (q_hash q) (q_scope q)],
    cheld := filter (\<lambda>(k, j). j \<noteq> i) (cheld st), cpcs := (cpcs st)[i := Finished l]\<rparr>)"
proof -
  let ?row = "new_row env t k u (q_type q) (n + 1) (q_blob q) (q_hash q) (q_scope q)"
  have n: "n = count_type (crows st) u (q_type q)" and hi: "holds qs i st"
    using inv i by (auto simp: cinv_def u_def q_def)
  have rows: "numbered (crows st @ [?row])" "unique_live (crows st @ [?row])"
    using inv ty none n by (auto simp: cinv_def intro!: numbered_snoc unique_live_snoc)
  have other: "\<not> (coerce_session_uuid env (q_sid (qs ! j)) = u \<and> q_type (qs ! j) = q_type q)"
    if j: "j < length qs" "j \<noteq> i" "cpcs st ! j = Counted m" for j m
  proof
    assume same_key: "coerce_session_uuid env (q_sid (qs ! j)) = u \<and> q_type (qs ! j) = q_type q"
    then have "lock_key (qs ! j) = lock_key (qs ! i)"
      using same i(1) j(1) by (simp add: lock_key_def same_session_same_id_def u_def q_def)
    moreover have "holds qs j st" using inv j by (auto simp: cinv_def)
    ultimately show False using hi j(2) inv held_unique by (fastforce simp: holds_def cinv_def)
  qed
  have others: "\<forall>j m. j < length qs \<longrightarrow> j \<noteq> i \<longrightarrow> cpcs st ! j = Counted m \<longrightarrow>
      \<not> (coerce_session_uuid env (q_sid (qs ! j)) = u \<and> q_type (qs ! j) = q_type q)"
    using other by blast
  show ?thesis
    using inv i rows others by (auto simp: cinv_def holds_def nth_list_update distinct_map_filter)
qed

lemma cinv_step:
  assumes "cinv env qs st" "i < length qs" "client_step env qs i st = Some st'"
    "same_session_same_id env qs" "\<forall>q \<in> set qs. q_type q \<in> vault_types"
  shows "cinv env qs st'"
proof -
  have ty: "q_type (qs ! i) \<in> vault_types" using assms(2,5) by simp
  show ?thesis
  proof (cases "cpcs st ! i")
    case Start
    then show ?thesis using assms(3) cinv_start [OF assms(1,2)]
      by (auto simp: client_step_def Let_def split: option.splits)
  next
    case Looked
    then show ?thesis using assms(3) cinv_lock [OF assms(1,2)]
      by (auto simp: client_step_def Let_def split: if_splits)
  next
    case Locked
    then show ?thesis using assms(3) cinv_count [OF assms(1,2)]
      by (auto simp: client_step_def Let_def)
  next
    case (Counted n)
    then show ?thesis using assms(3) cinv_release [OF assms(1,2)] cinv_insert [OF assms(1,2) Counted assms(4) ty]
      by (auto simp: client_step_def Let_def split: option.splits)
  next
    case (Finished l)
    then show ?thesis using assms(3) by (simp add: client_step_def)
  qed
qed

lemma creach_cinv:
  assumes "creach env qs rows st" "numbered rows" "unique_live rows" "same_session_same_id env qs"
    "\<forall>q \<in> set qs. q_type q \<in> vault_types"
  shows "cinv env qs st"
  using assms(1) by (induction rule: creach.induct) (use assms(2-) in \<open>auto intro: cinv_initial cinv_step\<close>)

section \<open>Properties\<close>

text \<open>Two requests whose ids are one UUID in different spelling, and a schedule of their steps.\<close>

definition spelling_requests :: "token_request list" where
  "spelling_requests =
     [\<lparr>q_sid = lit ''0000000000000000000000000000000a'', q_type = lit ''RRN'', q_hash = lit ''h1'', q_blob = [], q_scope = None, q_now = 0\<rparr>,
      \<lparr>q_sid = lit ''0000000000000000000000000000000A'', q_type = lit ''RRN'', q_hash = lit ''h2'', q_blob = [], q_scope = None, q_now = 0\<rparr>]"

lemma spelling_hex:
  "remove_all (lit ''-'') (strip_braces (remove_all (lit ''uuid:'') (remove_all (lit ''urn:'')
     (lit ''0000000000000000000000000000000a'')))) = lit ''0000000000000000000000000000000a''"
  "remove_all (lit ''-'') (strip_braces (remove_all (lit ''uuid:'') (remove_all (lit ''urn:'')
     (lit ''0000000000000000000000000000000A'')))) = lit ''0000000000000000000000000000000A''"
  "py_int16 (lit ''0000000000000000000000000000000a'') = Some 10"
  "py_int16 (lit ''0000000000000000000000000000000A'') = Some 10"
  by code_simp+

lemma spelling_uuid [simp]:
  "coerce_session_uuid env (lit ''0000000000000000000000000000000a'') = 10"
  "coerce_session_uuid env (lit ''0000000000000000000000000000000A'') = 10"
  by (simp_all add: coerce_session_uuid_def uuid_parse_def spelling_hex Let_def)

lemma first_label: "token_label_fmt (lit ''RRN'') (Suc 0) = lit ''<PII:RRN:1>''"
  by code_simp

lemma spelling_run:
  "crows (run_schedule sample_env spelling_requests [0, 0, 0, 1, 1, 1, 0, 1] (initial spelling_requests [])) =
    [new_row sample_env 0 0 10 (lit ''RRN'') (Suc 0) [] (lit ''h1'') None,
     new_row sample_env 0 (Suc 0) 10 (lit ''RRN'') (Suc 0) [] (lit ''h2'') None]"
  by (simp add: spelling_requests_def initial_def client_step_def Let_def select_live_hash_def lock_key_def
    count_type_def first_label lit_append [symmetric])

text \<open>C31: however tokenize transactions interleave, no two rows of a session carry one label and no two
  live rows one value, provided requests for one session spell its id alike.\<close>

theorem concurrent_labels_unique:
  assumes "creach env qs rows st" "numbered rows" "unique_live rows" "same_session_same_id env qs"
    "\<forall>q \<in> set qs. q_type q \<in> vault_types"
  shows "distinct (map (\<lambda>r. (vsession r, token_label r)) (crows st)) \<and>
    distinct (map (\<lambda>r. (vsession r, value_hash r)) (filter live (crows st)))"
  using creach_cinv [OF assms] numbered_distinct by (simp add: cinv_def unique_live_def)

theorem concurrent_labels_unique_witness:
  "distinct (map (\<lambda>r. (vsession r, token_label r))
     (crows (run_schedule sample_env (take 1 spelling_requests) [0, 0, 0, 0] (initial (take 1 spelling_requests) []))))"
proof -
  let ?qs = "take 1 spelling_requests"
  have r: "creach sample_env ?qs [] (run_schedule sample_env ?qs [0, 0, 0, 0] (initial ?qs []))"
    by (rule run_schedule_reach [OF creach_initial]) (simp add: spelling_requests_def)
  have t: "\<forall>q \<in> set ?qs. q_type q \<in> vault_types"
    by (simp add: spelling_requests_def vault_types_def ENTITY_TYPES_def)
  have k: "same_session_same_id sample_env ?qs"
    by (simp add: same_session_same_id_def spelling_requests_def)
  have e: "numbered []" "unique_live []" by (simp_all add: numbered_def unique_live_def)
  show ?thesis by (rule conjunct1 [OF concurrent_labels_unique [OF r e k t]])
qed

text \<open>spelling matters: two requests for one session, its id written in lower and in upper case,
  take different locks, and an interleaving gives two different values the same live label.\<close>

theorem concurrent_spelling_race:
  "\<exists>st. creach sample_env spelling_requests [] st \<and>
     map token_label (filter live (crows st)) = [lit ''<PII:RRN:1>'', lit ''<PII:RRN:1>''] \<and>
     map vsession (crows st) = [10, 10] \<and> map value_hash (crows st) = [lit ''h1'', lit ''h2'']"
proof (intro exI conjI)
  show "creach sample_env spelling_requests []
      (run_schedule sample_env spelling_requests [0, 0, 0, 1, 1, 1, 0, 1] (initial spelling_requests []))"
    by (rule run_schedule_reach [OF creach_initial]) (simp add: spelling_requests_def)
qed (simp_all only: spelling_run filter.simps list.map new_row_simps first_label if_True)

end
