(* ===== verification/Store.thy ===== *)
theory Store
  imports Models
begin

text \<open>
  \<open>app/context/store.py\<close>: the state of a session and the in-memory store. The dict of the store
  is \<open>states\<close>; an operation that expires sessions also returns the states for which the
  \<open>on_expire\<close> hook fires, in the order of the calls. Time is the value \<open>time.time()\<close> returns in
  the operation. The lock makes every operation atomic, so each is one function. What the sweeper thread
  does in a pass is \<open>sweep_once\<close>; its start, its loop and its end are in \<open>Sweeper\<close>.

  What the stages rely on is the locale \<open>session_store\<close>, interpreted on this store.
\<close>

section \<open>Session state\<close>

type_synonym entity_key = "pystr \<times> pystr"

record entity_record =
  etype :: pystr
  ehash :: pystr
  first_turn :: int
  last_turn :: int
  ecount :: int

record graph_edge =
  node_a :: entity_key
  node_b :: entity_key
  edge_turn :: int

record session_state =
  ss_id :: pystr
  created_at :: pyfloat
  ss_expires_at :: pyfloat
  turn_count :: int
  entities :: "(entity_key \<times> entity_record) list"
  graph_edges :: "graph_edge list"
  turn_timestamps :: "pyfloat list"
  ss_risk_score :: pyfloat
  risk_reasons :: "pystr list"
  ss_purpose :: "pystr option"

definition is_expired :: "pyfloat \<Rightarrow> session_state \<Rightarrow> bool" where
  "is_expired now s = (now \<ge> ss_expires_at s)"

section \<open>The in-memory store\<close>

record mem_store =
  states :: "(pystr \<times> session_state) list"
  default_ttl :: pyfloat

definition DEFAULT_TTL_SECONDS :: pyfloat where "DEFAULT_TTL_SECONDS = 1800"

definition new_store :: mem_store where
  "new_store = \<lparr>states = [], default_ttl = DEFAULT_TTL_SECONDS\<rparr>"

text \<open>\<open>del d[k]\<close> and \<open>d.pop(k)\<close>.\<close>

definition dict_del :: "'k \<Rightarrow> ('k \<times> 'v) list \<Rightarrow> ('k \<times> 'v) list" where
  "dict_del k d = filter (\<lambda>(k', v). k' \<noteq> k) d"

definition store_load :: "pyfloat \<Rightarrow> pystr \<Rightarrow> mem_store \<Rightarrow> mem_store \<times> session_state option \<times> session_state list" where
  "store_load now sid st =
     (case dict_get (states st) sid of
        None \<Rightarrow> (st, None, [])
      | Some s \<Rightarrow>
          if is_expired now s then (st\<lparr>states := dict_del sid (states st)\<rparr>, None, [s])
          else (st, Some s, []))"

definition store_save :: "session_state \<Rightarrow> mem_store \<Rightarrow> mem_store" where
  "store_save s st = st\<lparr>states := dict_set (ss_id s) s (states st)\<rparr>"

definition store_delete :: "pystr \<Rightarrow> mem_store \<Rightarrow> mem_store \<times> session_state list" where
  "store_delete sid st =
     (case dict_get (states st) sid of
        None \<Rightarrow> (st, [])
      | Some s \<Rightarrow> (st\<lparr>states := dict_del sid (states st)\<rparr>, [s]))"

definition new_session :: "pyfloat \<Rightarrow> pystr \<Rightarrow> pyfloat option \<Rightarrow> mem_store \<Rightarrow> session_state" where
  "new_session now sid ttl_seconds st =
     (let ttl = (case ttl_seconds of None \<Rightarrow> default_ttl st | Some t \<Rightarrow> t) in
      \<lparr>ss_id = sid, created_at = now, ss_expires_at = fadd now ttl, turn_count = 0, entities = [],
       graph_edges = [], turn_timestamps = [], ss_risk_score = 0, risk_reasons = [], ss_purpose = None\<rparr>)"

definition sweep_once :: "pyfloat \<Rightarrow> mem_store \<Rightarrow> mem_store \<times> session_state list" where
  "sweep_once now st =
     (st\<lparr>states := filter (\<lambda>(k, s). \<not> is_expired now s) (states st)\<rparr>,
      map snd (filter (\<lambda>(k, s). is_expired now s) (states st)))"

section \<open>The contract of a session store\<close>

text \<open>
  \<open>ld now k st\<close> loads, \<open>sv k v st\<close> saves, \<open>alive\<close> says that a state has not expired, \<open>keyed\<close> that
  a state belongs to the key.
\<close>

locale session_store =
  fixes ld :: "'t \<Rightarrow> 'k \<Rightarrow> 'st \<Rightarrow> 'st \<times> 'v option"
    and sv :: "'k \<Rightarrow> 'v \<Rightarrow> 'st \<Rightarrow> 'st"
    and alive :: "'t \<Rightarrow> 'v \<Rightarrow> bool"
    and keyed :: "'k \<Rightarrow> 'v \<Rightarrow> bool"
    and inv :: "'st \<Rightarrow> bool"
  assumes load_same: "inv st \<Longrightarrow> keyed k v \<Longrightarrow> alive t v \<Longrightarrow> snd (ld t k (sv k v st)) = Some v"
    and load_expired: "inv st \<Longrightarrow> keyed k v \<Longrightarrow> \<not> alive t v \<Longrightarrow> snd (ld t k (sv k v st)) = None"
    and load_other: "inv st \<Longrightarrow> keyed k v \<Longrightarrow> k' \<noteq> k \<Longrightarrow> snd (ld t k' (sv k v st)) = snd (ld t k' st)"
    and load_load: "inv st \<Longrightarrow> k' \<noteq> k \<Longrightarrow> snd (ld t' k' (fst (ld t k st))) = snd (ld t' k' st)"
    and load_alive: "inv st \<Longrightarrow> snd (ld t k st) = Some v \<Longrightarrow> alive t v \<and> keyed k v"
    and inv_load: "inv st \<Longrightarrow> inv (fst (ld t k st))"
    and inv_save: "inv st \<Longrightarrow> keyed k v \<Longrightarrow> inv (sv k v st)"
begin

text \<open>Load the state or start from a fresh one, change it, save it.\<close>

definition update :: "'t \<Rightarrow> 'k \<Rightarrow> 'v \<Rightarrow> ('v \<Rightarrow> 'v) \<Rightarrow> 'st \<Rightarrow> 'st" where
  "update t k fresh f st = (let (st, v) = ld t k st in sv k (f (case v of None \<Rightarrow> fresh | Some v \<Rightarrow> v)) st)"

lemma update_load:
  assumes "inv st" "keyed k fresh" "\<And>v. keyed k v \<Longrightarrow> keyed k (f v)" "\<And>v. alive t' (f v) \<longleftrightarrow> alive t' v"
    "alive t' (case snd (ld t k st) of None \<Rightarrow> fresh | Some v \<Rightarrow> v)"
  shows "snd (ld t' k (update t k fresh f st)) = Some (f (case snd (ld t k st) of None \<Rightarrow> fresh | Some v \<Rightarrow> v))"
proof -
  let ?v = "case snd (ld t k st) of None \<Rightarrow> fresh | Some v \<Rightarrow> v"
  have "keyed k (f ?v)" using assms(2,3) load_alive [OF assms(1), of t k] by (auto split: option.splits)
  then have "snd (ld t' k (sv k (f ?v) (fst (ld t k st)))) = Some (f ?v)"
    using assms(4,5) by (intro load_same inv_load assms(1)) simp_all
  then show ?thesis by (simp add: update_def case_prod_beta)
qed

lemma update_other:
  assumes "inv st" "keyed k fresh" "\<And>v. keyed k v \<Longrightarrow> keyed k (f v)" "k' \<noteq> k"
  shows "snd (ld t' k' (update t k fresh f st)) = snd (ld t' k' st)"
proof -
  let ?v = "case snd (ld t k st) of None \<Rightarrow> fresh | Some v \<Rightarrow> v"
  have "keyed k (f ?v)" using assms(2,3) load_alive [OF assms(1), of t k] by (auto split: option.splits)
  then show ?thesis
    using load_other [OF inv_load [OF assms(1)] _ assms(4)] load_load [OF assms(1,4)]
    by (simp add: update_def case_prod_beta)
qed

lemma inv_update:
  assumes "inv st" "keyed k fresh" "\<And>v. keyed k v \<Longrightarrow> keyed k (f v)"
  shows "inv (update t k fresh f st)"
proof -
  let ?v = "case snd (ld t k st) of None \<Rightarrow> fresh | Some v \<Rightarrow> v"
  have "keyed k (f ?v)" using assms(2,3) load_alive [OF assms(1), of t k] by (auto split: option.splits)
  then show ?thesis using inv_save [OF inv_load [OF assms(1)]] by (simp add: update_def case_prod_beta)
qed

end

section \<open>The in-memory store keeps the contract\<close>

text \<open>Keys are distinct, and every state is stored under its own id.\<close>

definition store_inv :: "mem_store \<Rightarrow> bool" where
  "store_inv st \<longleftrightarrow> distinct (map fst (states st)) \<and> (\<forall>(k, s) \<in> set (states st). ss_id s = k)"

lemma map_of_dict_del: "map_of (dict_del k d) = (map_of d)(k := None)"
  by (induction d) (auto simp: dict_del_def)

lemma dict_set_items: "p \<in> set (dict_set k v d) \<Longrightarrow> p = (k, v) \<or> p \<in> set d"
  by (induction d rule: dict_set.induct) (auto split: if_splits)

lemma store_inv_save: "store_inv st \<Longrightarrow> store_inv (store_save s st)"
  by (auto simp: store_inv_def store_save_def dest!: dict_set_items)

lemma store_inv_filter: "store_inv st \<Longrightarrow> store_inv (st\<lparr>states := filter P (states st)\<rparr>)"
  by (auto simp: store_inv_def distinct_map_filter)

lemma store_inv_load: "store_inv st \<Longrightarrow> store_inv (fst (store_load now sid st))"
  by (auto simp: store_load_def dict_del_def intro: store_inv_filter split: option.splits)

definition mem_load :: "pyfloat \<Rightarrow> pystr \<Rightarrow> mem_store \<Rightarrow> mem_store \<times> session_state option" where
  "mem_load now sid st = (fst (store_load now sid st), fst (snd (store_load now sid st)))"

definition mem_save :: "pystr \<Rightarrow> session_state \<Rightarrow> mem_store \<Rightarrow> mem_store" where
  "mem_save sid s st = store_save s st"

lemma snd_mem_load: "snd (mem_load now sid st) =
    (case map_of (states st) sid of None \<Rightarrow> None | Some s \<Rightarrow> if is_expired now s then None else Some s)"
  by (simp add: mem_load_def store_load_def dict_get_def split: option.splits)

interpretation mem: session_store mem_load mem_save "\<lambda>now s. \<not> is_expired now s" "\<lambda>k s. ss_id s = k" store_inv
proof
  fix st k k' t t' v
  assume i: "store_inv st"
  show "k' \<noteq> k \<Longrightarrow> snd (mem_load t' k' (fst (mem_load t k st))) = snd (mem_load t' k' st)"
    by (auto simp: snd_mem_load) (auto simp: mem_load_def store_load_def map_of_dict_del dict_get_def split: option.splits)
  show "snd (mem_load t k st) = Some v \<Longrightarrow> \<not> is_expired t v \<and> ss_id v = k"
    using i by (auto simp: snd_mem_load store_inv_def split: option.splits if_splits dest!: map_of_SomeD)
  show "store_inv (fst (mem_load t k st))" using store_inv_load [OF i] by (simp add: mem_load_def)
qed (auto simp: snd_mem_load mem_save_def store_save_def intro: store_inv_save [unfolded store_save_def])

lemma sweep_keeps: "store_inv st \<Longrightarrow> snd (mem_load now sid (fst (sweep_once now st))) = snd (mem_load now sid st)"
proof -
  assume i: "store_inv st"
  have "map_of (filter (\<lambda>(k, s). P s) d) k = (case map_of d k of None \<Rightarrow> None | Some s \<Rightarrow> if P s then Some s else None)"
    if "distinct (map fst d)" for P :: "session_state \<Rightarrow> bool" and d k
    using that by (induction d) (auto simp: map_of_eq_None_iff split: option.splits dest: map_of_SomeD)
  from this [of "states st" "\<lambda>s. \<not> is_expired now s" sid] i
  have "map_of (filter (\<lambda>(k, s). \<not> is_expired now s) (states st)) sid =
      (case map_of (states st) sid of None \<Rightarrow> None | Some s \<Rightarrow> if \<not> is_expired now s then Some s else None)"
    by (simp add: store_inv_def)
  then show ?thesis by (cases "map_of (states st) sid") (simp_all add: snd_mem_load sweep_once_def)
qed

end
