(* ===== verification/Accumulator.thy ===== *)
theory Accumulator
  imports Store Py_Text
begin

text \<open>
  \<open>app/context/accumulator.py\<close>: the entities of a session and its risk score. \<open>accumulate\<close>
  changes the session state in place, so it returns the state it has reached also when it
  raises (hashing a value with a lone surrogate does). The score is recomputed in each turn
  from the entities mentioned within the window. Numbers in the reasons are printed as the
  format specifications do. \<open>sha\<close> is \<open>sha256(...).hexdigest()\<close>.
\<close>

section \<open>Configuration\<close>

text \<open>A \<open>frozenset\<close> of types is the list of its members in the order \<open>sorted\<close> gives.\<close>

record acc_config =
  window_size_turns :: int
  combo_cap :: pyfloat
  repeat_weight :: pyfloat
  repeat_cap :: pyfloat
  combo_weights :: "(pystr list \<times> pyfloat) list"
  velocity_thresholds :: "(nat \<times> pyfloat \<times> pyfloat) list"

definition DEFAULT_COMBO_WEIGHTS :: "(pystr list \<times> pyfloat) list" where
  "DEFAULT_COMBO_WEIGHTS =
     [([lit ''NAME'', lit ''RRN''], fl (25 / 100)),
      ([lit ''ACCOUNT'', lit ''NAME'', lit ''RRN''], fl (35 / 100)),
      ([lit ''ACCOUNT'', lit ''NAME'', lit ''PHONE''], fl (30 / 100)),
      ([lit ''ACCOUNT'', lit ''RRN''], fl (20 / 100)),
      ([lit ''ACCOUNT'', lit ''PHONE'', lit ''RRN''], fl (35 / 100))]"

definition DEFAULT_VELOCITY_THRESHOLDS :: "(nat \<times> pyfloat \<times> pyfloat) list" where
  "DEFAULT_VELOCITY_THRESHOLDS = [(3, 60, fl (5 / 100)), (5, 120, fl (10 / 100))]"

definition DEFAULT_CONFIG :: acc_config where
  "DEFAULT_CONFIG = \<lparr>window_size_turns = 5, combo_cap = fl (8 / 10), repeat_weight = fl (5 / 100),
     repeat_cap = fl (15 / 100), combo_weights = DEFAULT_COMBO_WEIGHTS,
     velocity_thresholds = DEFAULT_VELOCITY_THRESHOLDS\<rparr>"

record multiturn_config =
  mt_window_size_turns :: int
  mt_combo_cap :: pyfloat
  mt_repeat_weight :: pyfloat
  mt_repeat_cap :: pyfloat

definition from_app_config :: "multiturn_config \<Rightarrow> acc_config" where
  "from_app_config m = \<lparr>window_size_turns = mt_window_size_turns m, combo_cap = mt_combo_cap m,
     repeat_weight = mt_repeat_weight m, repeat_cap = mt_repeat_cap m,
     combo_weights = combo_weights DEFAULT_CONFIG, velocity_thresholds = velocity_thresholds DEFAULT_CONFIG\<rparr>"

section \<open>Printing\<close>

definition py_str_int :: "int \<Rightarrow> pystr" where
  "py_str_int n = (if n < 0 then 45 # py_str_nat (nat (- n)) else py_str_nat (nat n))"

definition with_sign :: "pyfloat \<Rightarrow> (pyfloat \<Rightarrow> pystr) \<Rightarrow> pystr" where
  "with_sign x f = (if x < 0 then 45 # f (- x) else f x)"

text \<open>\<open>f"{x:.2f}"\<close> and \<open>f"{x:.0f}"\<close>.\<close>

definition fmt_2f :: "pyfloat \<Rightarrow> pystr" where
  "fmt_2f x = with_sign x (\<lambda>y. let n = nat (rhe (y * 100)) in
     py_str_nat (n div 100) @ lit ''.'' @ py_str_nat (n div 10 mod 10) @ py_str_nat (n mod 10))"

definition fmt_0f :: "pyfloat \<Rightarrow> pystr" where
  "fmt_0f x = with_sign x (\<lambda>y. py_str_nat (nat (rhe y)))"

fun py_join :: "pystr \<Rightarrow> pystr list \<Rightarrow> pystr" where
  "py_join sep [] = []"
| "py_join sep [x] = x"
| "py_join sep (x # xs) = x @ sep @ py_join sep xs"

section \<open>Entities\<close>

definition hash_value :: "(bytes \<Rightarrow> pystr) \<Rightarrow> pystr \<Rightarrow> pystr result" where
  "hash_value sha v = bind_result (utf8_encode v) (\<lambda>b. Inr (take 16 (sha b)))"

definition register_span :: "int \<Rightarrow> pystr \<Rightarrow> pystr \<Rightarrow> (entity_key \<times> entity_record) list \<Rightarrow> (entity_key \<times> entity_record) list" where
  "register_span turn_index t h ents =
     (case map_of ents (t, h) of
        None \<Rightarrow> dict_set (t, h) \<lparr>etype = t, ehash = h, first_turn = turn_index, last_turn = turn_index, ecount = 1\<rparr> ents
      | Some rec \<Rightarrow> dict_set (t, h) (rec\<lparr>last_turn := turn_index, ecount := ecount rec + 1\<rparr>) ents)"

fun register_spans :: "(bytes \<Rightarrow> pystr) \<Rightarrow> int \<Rightarrow> span list \<Rightarrow> session_state \<Rightarrow> session_state \<times> py_exn option" where
  "register_spans sha turn_index [] s = (s, None)"
| "register_spans sha turn_index (sp # sps) s =
     (case hash_value sha (svalue sp) of
        Inl e \<Rightarrow> (s, Some e)
      | Inr h \<Rightarrow> register_spans sha turn_index sps
          (s\<lparr>entities := register_span turn_index (stype sp) h (entities s)\<rparr>))"

definition active_nodes :: "acc_config \<Rightarrow> int \<Rightarrow> session_state \<Rightarrow> entity_record list" where
  "active_nodes cfg turn_index s =
     (let window_start = turn_index - window_size_turns cfg + 1
      in filter (\<lambda>r. last_turn r \<ge> window_start) (map snd (entities s)))"

fun build_edges :: "int \<Rightarrow> entity_record list \<Rightarrow> graph_edge list" where
  "build_edges turn_index [] = []"
| "build_edges turn_index (a # rest) =
     map (\<lambda>b. \<lparr>node_a = (etype a, ehash a), node_b = (etype b, ehash b), edge_turn = turn_index\<rparr>) rest
       @ build_edges turn_index rest"

section \<open>The score\<close>

text \<open>A sum with its reasons: each item adds a weight and a line.\<close>

definition capped_reason :: "pystr \<Rightarrow> pyfloat \<Rightarrow> pyfloat \<Rightarrow> pystr list" where
  "capped_reason name tot capped =
     (if capped < tot then [name @ lit ''(capped '' @ fmt_2f tot @ lit '' -> '' @ fmt_2f capped @ lit '')''] else [])"

definition active_combos :: "acc_config \<Rightarrow> entity_record list \<Rightarrow> (pystr list \<times> pyfloat) list" where
  "active_combos cfg nodes = filter (\<lambda>(combo, w). set combo \<subseteq> etype ` set nodes) (combo_weights cfg)"

definition score_combos :: "acc_config \<Rightarrow> entity_record list \<Rightarrow> pyfloat \<times> pystr list" where
  "score_combos cfg nodes =
     (let hits = active_combos cfg nodes;
          total = foldl fadd 0 (map snd hits);
          reasons = map (\<lambda>(combo, w). lit ''combo:'' @ py_join (lit ''+'') combo @ lit ''(+'' @ fmt_2f w @ lit '')'') hits;
          capped = min total (combo_cap cfg)
      in (capped, reasons @ capped_reason (lit ''combo_cap_applied'') total capped))"

definition repeat_extra :: "entity_record \<Rightarrow> int" where
  "repeat_extra r = max 0 (ecount r - 2)"

definition repeat_delta :: "acc_config \<Rightarrow> entity_record \<Rightarrow> pyfloat" where
  "repeat_delta cfg r = fmul (of_int (repeat_extra r)) (repeat_weight cfg)"

definition score_repeats :: "acc_config \<Rightarrow> entity_record list \<Rightarrow> pyfloat \<times> pystr list" where
  "score_repeats cfg nodes =
     (let hits = filter (\<lambda>r. repeat_extra r > 0) nodes;
          total = foldl fadd 0 (map (repeat_delta cfg) hits);
          reasons = map (\<lambda>r. lit ''repeat:'' @ etype r @ lit '':'' @ ehash r @ lit ''(count='' @
            py_str_int (ecount r) @ lit '', +'' @ fmt_2f (repeat_delta cfg r) @ lit '')'') hits;
          capped = min total (repeat_cap cfg)
      in (capped, reasons @ capped_reason (lit ''repeat_cap_applied'') total capped))"

text \<open>The thresholds that fire, with the elapsed time; \<open>timestamps[-n]\<close> is the \<open>n\<close>-th last.\<close>

definition velocity_hits :: "acc_config \<Rightarrow> int \<Rightarrow> pyfloat \<Rightarrow> pyfloat list \<Rightarrow> (nat \<times> pyfloat \<times> pyfloat) list" where
  "velocity_hits cfg turn_index now ts =
     List.map_filter (\<lambda>(min_turns, max_elapsed, w).
       if turn_index < int min_turns \<or> length ts < min_turns then None
       else let elapsed = fsub now (ts ! (length ts - min_turns))
            in if elapsed \<le> max_elapsed then Some (min_turns, elapsed, w) else None)
     (velocity_thresholds cfg)"

definition score_velocity :: "acc_config \<Rightarrow> int \<Rightarrow> pyfloat \<Rightarrow> session_state \<Rightarrow> pyfloat \<times> pystr list" where
  "score_velocity cfg turn_index now s =
     (let hits = velocity_hits cfg turn_index now (turn_timestamps s)
      in (foldl fadd 0 (map (\<lambda>(n, el, w). w) hits),
          map (\<lambda>(n, el, w). lit ''velocity:'' @ py_str_nat n @ lit ''turns/'' @ fmt_0f el @ lit ''s(+'' @
            fmt_2f w @ lit '')'') hits))"

definition risk_of :: "acc_config \<Rightarrow> int \<Rightarrow> pyfloat \<Rightarrow> session_state \<Rightarrow> pyfloat \<times> pystr list" where
  "risk_of cfg turn_index now s =
     (let nodes = active_nodes cfg turn_index s;
          (combo_delta, combo_reasons) = score_combos cfg nodes;
          (repeat_delta, repeat_reasons) = score_repeats cfg nodes;
          (velocity_delta, velocity_reasons) = score_velocity cfg turn_index now s
      in (min 1 (fadd (fadd combo_delta repeat_delta) velocity_delta),
          combo_reasons @ repeat_reasons @ velocity_reasons))"

definition accumulate :: "(bytes \<Rightarrow> pystr) \<Rightarrow> acc_config \<Rightarrow> span list \<Rightarrow> int \<Rightarrow> pyfloat \<Rightarrow> session_state \<Rightarrow>
    session_state \<times> pystr list result" where
  "accumulate sha cfg spans turn_index now s =
     (let s = s\<lparr>turn_count := max (turn_count s) turn_index, turn_timestamps := turn_timestamps s @ [now]\<rparr>
      in case register_spans sha turn_index spans s of
        (s, Some e) \<Rightarrow> (s, Inl e)
      | (s, None) \<Rightarrow>
          let s = s\<lparr>graph_edges := build_edges turn_index (active_nodes cfg turn_index s)\<rparr>;
              (score, reasons) = risk_of cfg turn_index now s;
              s = s\<lparr>ss_risk_score := score, risk_reasons := reasons\<rparr>
          in (s, Inr reasons))"

section \<open>Bounds and monotonicity of the score\<close>

definition config_ok :: "acc_config \<Rightarrow> bool" where
  "config_ok cfg \<longleftrightarrow> (\<forall>(c, w) \<in> set (combo_weights cfg). 0 \<le> w) \<and>
     (\<forall>(n, el, w) \<in> set (velocity_thresholds cfg). 0 \<le> w) \<and>
     0 \<le> combo_cap cfg \<and> 0 \<le> repeat_weight cfg \<and> 0 \<le> repeat_cap cfg"

lemma default_config_ok [simp]: "config_ok DEFAULT_CONFIG"
  by (simp add: config_ok_def DEFAULT_CONFIG_def DEFAULT_COMBO_WEIGHTS_def DEFAULT_VELOCITY_THRESHOLDS_def b64.nonneg)

lemma float_sum_nonneg [float_bounds]: "\<forall>w \<in> set ws. 0 \<le> w \<Longrightarrow> 0 \<le> foldl fadd 0 ws"
  using b64.sum_nonneg [of ws 0] by (simp add: fadd_def [abs_def])

lemma score_combos_nonneg [float_bounds]: "config_ok cfg \<Longrightarrow> 0 \<le> fst (score_combos cfg nodes)"
  by (fastforce simp: score_combos_def active_combos_def config_ok_def Let_def intro!: float_sum_nonneg)

lemma score_repeats_nonneg [float_bounds]: "config_ok cfg \<Longrightarrow> 0 \<le> fst (score_repeats cfg nodes)"
  by (auto simp: score_repeats_def repeat_delta_def repeat_extra_def config_ok_def Let_def
    intro!: float_sum_nonneg fmul_nonneg)

lemma velocity_hits_weights: "(n, el, w) \<in> set (velocity_hits cfg ti now ts) \<Longrightarrow> \<exists>m x. (m, x, w) \<in> set (velocity_thresholds cfg)"
  by (auto simp: velocity_hits_def List.map_filter_def Let_def split: if_splits) blast

lemma score_velocity_nonneg [float_bounds]: "config_ok cfg \<Longrightarrow> 0 \<le> fst (score_velocity cfg ti now s)"
  by (fastforce simp: score_velocity_def config_ok_def Let_def intro!: float_sum_nonneg dest!: velocity_hits_weights)

lemma fst_risk_of: "fst (risk_of cfg ti now s) = min 1 (fadd (fadd (fst (score_combos cfg (active_nodes cfg ti s)))
    (fst (score_repeats cfg (active_nodes cfg ti s)))) (fst (score_velocity cfg ti now s)))"
  by (simp add: risk_of_def Let_def case_prod_beta)

lemma fst_score_combos: "fst (score_combos cfg ns) = min (foldl fadd 0 (map snd (active_combos cfg ns))) (combo_cap cfg)"
  by (simp add: score_combos_def Let_def)

lemma score_combos_mono:
  assumes "config_ok cfg" "etype ` set ns \<subseteq> etype ` set ms"
  shows "fst (score_combos cfg ns) \<le> fst (score_combos cfg ms)"
proof -
  have "foldl (\<lambda>s w. fl (s + snd w)) 0 (active_combos cfg ns) \<le> foldl (\<lambda>s w. fl (s + snd w)) 0 (active_combos cfg ms)"
    unfolding active_combos_def
    by (rule b64.sum_filter_mono) (use assms in \<open>auto simp: config_ok_def\<close>)
  then have "foldl fadd 0 (map snd (active_combos cfg ns)) \<le> foldl fadd 0 (map snd (active_combos cfg ms))"
    by (simp add: foldl_map fadd_def)
  then show ?thesis by (simp add: score_combos_def Let_def min.coboundedI1)
qed

lemma representable_fadd: "representable (fadd a b)"
  by (simp add: fadd_def representable_fl)

lemma representable_fadds: "representable a \<Longrightarrow> representable (foldl fadd a ws)"
  by (induction ws arbitrary: a) (simp_all add: representable_fadd)

lemma representable_combos: "representable (combo_cap cfg) \<Longrightarrow> representable (fst (score_combos cfg ns))"
  by (simp add: score_combos_def Let_def min_def representable_fadds)

lemma fadd_ge: "representable a \<Longrightarrow> 0 \<le> b \<Longrightarrow> a \<le> fadd a b"
  using fl_mono [of a "a + b"] by (simp add: fadd_def fl_id)

lemma risk_ge_combos:
  assumes "config_ok cfg" "representable (combo_cap cfg)"
  shows "min 1 (fst (score_combos cfg (active_nodes cfg ti s))) \<le> fst (risk_of cfg ti now s)"
proof -
  let ?c = "fst (score_combos cfg (active_nodes cfg ti s))" and ?r = "fst (score_repeats cfg (active_nodes cfg ti s))"
  have "?c \<le> fadd ?c ?r"
    by (rule fadd_ge [OF representable_combos [OF assms(2)] score_repeats_nonneg [OF assms(1)]])
  also have "\<dots> \<le> fadd (fadd ?c ?r) (fst (score_velocity cfg ti now s))"
    by (rule fadd_ge [OF representable_fadd score_velocity_nonneg [OF assms(1)]])
  finally show ?thesis by (auto simp: fst_risk_of min_def)
qed

section \<open>The entities of a session\<close>

definition entity_ok :: "int \<Rightarrow> entity_key \<times> entity_record \<Rightarrow> bool" where
  "entity_ok turn p \<longleftrightarrow> fst p = (etype (snd p), ehash (snd p)) \<and> 1 \<le> ecount (snd p) \<and>
     first_turn (snd p) \<le> last_turn (snd p) \<and> last_turn (snd p) \<le> turn"

definition entities_ok :: "int \<Rightarrow> (entity_key \<times> entity_record) list \<Rightarrow> bool" where
  "entities_ok turn d \<longleftrightarrow> distinct (map fst d) \<and> (\<forall>p \<in> set d. entity_ok turn p)"

definition mentions :: "(entity_key \<times> entity_record) list \<Rightarrow> int" where
  "mentions d = sum_list (map (\<lambda>p. ecount (snd p)) d)"

lemma entities_ok_mono: "entities_ok t d \<Longrightarrow> t \<le> u \<Longrightarrow> entities_ok u d"
  by (fastforce simp: entities_ok_def entity_ok_def)

lemma register_span_ok: "entities_ok ti d \<Longrightarrow> entities_ok ti (register_span ti t h d)"
  by (fastforce simp: entities_ok_def entity_ok_def register_span_def split: option.splits
    dest!: dict_set_items map_of_SomeD)

lemma mentions_dict_set: "distinct (map fst d) \<Longrightarrow>
    mentions (dict_set k r d) = mentions d + ecount r - (case map_of d k of None \<Rightarrow> 0 | Some q \<Rightarrow> ecount q)"
  by (induction k r d rule: dict_set.induct) (auto simp: mentions_def split: option.splits)

lemma mentions_register: "distinct (map fst d) \<Longrightarrow> mentions (register_span ti t h d) = mentions d + 1"
  by (auto simp: register_span_def mentions_dict_set split: option.splits)

lemma register_spans_ok:
  "entities_ok ti (entities s) \<Longrightarrow> register_spans sha ti sps s = (s', e) \<Longrightarrow> entities_ok ti (entities s')"
  by (induction sha ti sps s rule: register_spans.induct) (auto intro: register_span_ok split: sum.splits)

lemma register_spans_mentions:
  "entities_ok ti (entities s) \<Longrightarrow> register_spans sha ti sps s = (s', None) \<Longrightarrow>
    mentions (entities s') = mentions (entities s) + int (length sps)"
proof (induction sha ti sps s rule: register_spans.induct)
  case (2 sha ti sp sps s)
  then obtain h where h: "hash_value sha (svalue sp) = Inr h" by (cases "hash_value sha (svalue sp)") auto
  let ?s = "s\<lparr>entities := register_span ti (stype sp) h (entities s)\<rparr>"
  have "entities_ok ti (entities ?s)" using register_span_ok [OF "2.prems"(1)] by simp
  with "2.IH" [OF h] "2.prems" h show ?case
    by (simp add: mentions_register entities_ok_def)
qed simp

lemma register_spans_fields: "register_spans sha ti sps s = (s', e) \<Longrightarrow>
    ss_id s' = ss_id s \<and> turn_count s' = turn_count s \<and> ss_expires_at s' = ss_expires_at s \<and>
    turn_timestamps s' = turn_timestamps s \<and> ss_purpose s' = ss_purpose s"
  by (induction sha ti sps s rule: register_spans.induct) (auto split: sum.splits)

lemma register_spans_risk: "register_spans sha ti sps s = (s', e) \<Longrightarrow> ss_risk_score s' = ss_risk_score s"
  by (induction sha ti sps s rule: register_spans.induct) (auto split: sum.splits)

lemma register_spans_hash:
  "list_all2 (\<lambda>a b. stype a = stype b \<and> hash_value sha (svalue a) = hash_value sha (svalue b)) xs ys \<Longrightarrow>
    register_spans sha ti xs s = register_spans sha ti ys s"
  by (induction xs ys arbitrary: s rule: list_all2_induct) (auto split: sum.splits)

text \<open>The two outcomes of a turn.\<close>

definition turn_started :: "int \<Rightarrow> pyfloat \<Rightarrow> session_state \<Rightarrow> session_state" where
  "turn_started ti now s = s\<lparr>turn_count := max (turn_count s) ti, turn_timestamps := turn_timestamps s @ [now]\<rparr>"

definition scored :: "acc_config \<Rightarrow> int \<Rightarrow> pyfloat \<Rightarrow> session_state \<Rightarrow> session_state" where
  "scored cfg ti now s = (let s = s\<lparr>graph_edges := build_edges ti (active_nodes cfg ti s)\<rparr> in
     s\<lparr>ss_risk_score := fst (risk_of cfg ti now s), risk_reasons := snd (risk_of cfg ti now s)\<rparr>)"

lemma scored_simps [simp]:
  "ss_id (scored cfg ti now s) = ss_id s" "ss_expires_at (scored cfg ti now s) = ss_expires_at s"
  "turn_count (scored cfg ti now s) = turn_count s" "turn_timestamps (scored cfg ti now s) = turn_timestamps s"
  "ss_purpose (scored cfg ti now s) = ss_purpose s" "entities (scored cfg ti now s) = entities s"
  "active_nodes cfg ti (scored cfg ti now s) = active_nodes cfg ti s"
  "ss_risk_score (scored cfg ti now s) = fst (risk_of cfg ti now s)"
  "risk_reasons (scored cfg ti now s) = snd (risk_of cfg ti now s)"
  "risk_of cfg ti now (scored cfg ti now s) = risk_of cfg ti now s"
  by (simp_all add: scored_def Let_def active_nodes_def risk_of_def score_velocity_def case_prod_beta)

lemma turn_started_simps [simp]:
  "ss_id (turn_started ti now s) = ss_id s" "ss_expires_at (turn_started ti now s) = ss_expires_at s"
  "turn_count (turn_started ti now s) = max (turn_count s) ti"
  "turn_timestamps (turn_started ti now s) = turn_timestamps s @ [now]"
  "ss_purpose (turn_started ti now s) = ss_purpose s" "entities (turn_started ti now s) = entities s"
  by (simp_all add: turn_started_def)

lemma accumulate_cases:
  obtains (raised) s1 e where "register_spans sha ti sps (turn_started ti now s) = (s1, Some e)"
      "accumulate sha cfg sps ti now s = (s1, Inl e)"
  | (completed) s1 where "register_spans sha ti sps (turn_started ti now s) = (s1, None)"
      "accumulate sha cfg sps ti now s = (scored cfg ti now s1, Inr (snd (risk_of cfg ti now s1)))"
proof (cases "register_spans sha ti sps (turn_started ti now s)")
  case (Pair s1 e)
  show ?thesis
  proof (cases e)
    case None
    then show ?thesis using Pair
      by (intro completed [of s1]) (simp_all add: accumulate_def turn_started_def [symmetric] scored_def Let_def
        case_prod_beta risk_of_def active_nodes_def score_velocity_def)
  next
    case (Some x)
    then show ?thesis using Pair
      by (intro raised [of s1 x]) (simp_all add: accumulate_def turn_started_def [symmetric] Let_def)
  qed
qed

lemma accumulate_fields:
  assumes "accumulate sha cfg sps ti now s = (s', r)"
  shows "ss_id s' = ss_id s \<and> ss_expires_at s' = ss_expires_at s \<and> turn_count s' = max (turn_count s) ti \<and>
    turn_timestamps s' = turn_timestamps s @ [now] \<and> ss_purpose s' = ss_purpose s"
  by (cases rule: accumulate_cases [where sha = sha and cfg = cfg and sps = sps and ti = ti and now = now and s = s])
    (use assms in \<open>auto dest!: register_spans_fields\<close>)

lemma accumulate_Inr:
  assumes "accumulate sha cfg sps ti now s = (s', Inr rs)"
  shows "\<exists>s1. register_spans sha ti sps (turn_started ti now s) = (s1, None) \<and> s' = scored cfg ti now s1 \<and>
    rs = snd (risk_of cfg ti now s1)"
  by (cases rule: accumulate_cases [where sha = sha and cfg = cfg and sps = sps and ti = ti and now = now and s = s])
    (use assms in auto)

lemma combination_score:
  assumes "{lit ''NAME'', lit ''RRN'', lit ''ACCOUNT''} \<subseteq> etype ` set (active_nodes DEFAULT_CONFIG ti s)"
  shows "fl (8 / 10) \<le> fst (risk_of DEFAULT_CONFIG ti now s)"
proof -
  let ?rec = "\<lambda>t. \<lparr>etype = t, ehash = [], first_turn = 0, last_turn = 0, ecount = 1\<rparr>"
  let ?three = "[?rec (lit ''NAME''), ?rec (lit ''RRN''), ?rec (lit ''ACCOUNT'')]"
  have three: "fst (score_combos DEFAULT_CONFIG ?three) = fl (8 / 10)" unfolding fst_score_combos by code_simp
  have "etype ` set ?three \<subseteq> etype ` set (active_nodes DEFAULT_CONFIG ti s)" using assms by simp
  from score_combos_mono [OF default_config_ok this]
  have "fl (8 / 10) \<le> fst (score_combos DEFAULT_CONFIG (active_nodes DEFAULT_CONFIG ti s))" by (simp only: three)
  moreover have "fl (8 / 10) \<le> 1" by code_simp
  moreover have "representable (combo_cap DEFAULT_CONFIG)" by (simp add: DEFAULT_CONFIG_def representable_fl)
  ultimately show ?thesis
    using risk_ge_combos [OF default_config_ok, of ti s now] by simp
qed

text \<open>A first turn to evaluate: three spans in a new session.\<close>

definition sample_span :: "string \<Rightarrow> span" where
  "sample_span t = \<lparr>stype = lit t, svalue = lit ''v'', sstart = 0, send = 1, sconfidence = 1, ssource = lit ''dict''\<rparr>"

definition sample_turn :: "session_state \<times> pystr list result" where
  "sample_turn = accumulate (\<lambda>b. b) DEFAULT_CONFIG (map sample_span [''NAME'', ''RRN'', ''ACCOUNT'']) 1 0
     (new_session 0 (lit ''s'') None new_store)"

lemma sample_turn_Inr: "\<exists>s' rs. sample_turn = (s', Inr rs)"
proof -
  have "hash_value (\<lambda>b. b) (lit ''v'') = Inr (lit ''v'')" by code_simp
  then show ?thesis
    by (simp add: sample_turn_def accumulate_def new_session_def sample_span_def Let_def case_prod_beta)
qed

lemma sample_entities: "map (\<lambda>r. (etype r, last_turn r)) (map snd (entities (fst sample_turn))) =
    [(lit ''NAME'', 1), (lit ''RRN'', 1), (lit ''ACCOUNT'', 1)]"
proof -
  have "hash_value (\<lambda>b. b) (lit ''v'') = Inr (lit ''v'')" by code_simp
  then show ?thesis
    by (simp add: sample_turn_def accumulate_def new_session_def sample_span_def Let_def case_prod_beta register_span_def)
qed

section \<open>Properties\<close>

text \<open>C39: The risk score of a session is between 0 and 1 after every turn, for every configuration without negative
  weights and caps, which the defaults and all loadable settings with non-negative values are.\<close>

theorem accumulate_risk_bounds:
  assumes "config_ok cfg" "accumulate sha cfg sps ti now s = (s', Inr rs)"
  shows "0 \<le> ss_risk_score s' \<and> ss_risk_score s' \<le> 1"
  using accumulate_Inr [OF assms(2)] assms(1) by (auto simp: fst_risk_of float_bounds)

theorem accumulate_risk_bounds_witness:
  "0 \<le> ss_risk_score (fst sample_turn) \<and> ss_risk_score (fst sample_turn) \<le> 1"
proof -
  obtain s' rs where r: "sample_turn = (s', Inr rs)" using sample_turn_Inr by blast
  from accumulate_risk_bounds [OF default_config_ok r [unfolded sample_turn_def]] show ?thesis
    unfolding r fst_conv .
qed

text \<open>An entity mentioned in several turns is one record: keys stay distinct, counts add up to the
  number of mentions, and first and last turn are in order.\<close>

theorem accumulate_entities:
  assumes "entities_ok (turn_count s) (entities s)" "turn_count s \<le> ti" "accumulate sha cfg sps ti now s = (s', Inr rs)"
  shows "entities_ok (turn_count s') (entities s') \<and> mentions (entities s') = mentions (entities s) + int (length sps)"
proof -
  obtain s1 where s1: "register_spans sha ti sps (turn_started ti now s) = (s1, None)"
    "entities s' = entities s1" using accumulate_Inr [OF assms(3)] by auto
  have "entities_ok ti (entities s)" using entities_ok_mono [OF assms(1,2)] .
  then show ?thesis
    using register_spans_ok [OF _ s1(1)] register_spans_mentions [OF _ s1(1)] s1(2) accumulate_fields [OF assms(3)] assms(2)
    by (simp add: max_absorb2)
qed

theorem accumulate_entities_witness:
  "mentions (entities (fst sample_turn)) = 3 \<and> distinct (map fst (entities (fst sample_turn)))"
proof -
  obtain s' rs where r: "sample_turn = (s', Inr rs)" using sample_turn_Inr by blast
  have "entities_ok (turn_count (new_session 0 (lit ''s'') None new_store)) (entities (new_session 0 (lit ''s'') None new_store))"
    "turn_count (new_session 0 (lit ''s'') None new_store) \<le> 1"
    "mentions (entities (new_session 0 (lit ''s'') None new_store)) = 0"
    by (simp_all add: new_session_def entities_ok_def mentions_def Let_def)
  from accumulate_entities [OF this(1,2) r [unfolded sample_turn_def]] this(3) show ?thesis
    unfolding r fst_conv by (simp add: entities_ok_def)
qed

text \<open>The session state depends on the values only through their hashes: texts with the same
  hashes leave the same state, so no other trace of a value is kept.\<close>

theorem accumulate_hashes_only:
  assumes "list_all2 (\<lambda>a b. stype a = stype b \<and> hash_value sha (svalue a) = hash_value sha (svalue b)) xs ys"
  shows "accumulate sha cfg xs ti now s = accumulate sha cfg ys ti now s"
  using register_spans_hash [OF assms] by (simp add: accumulate_def)

theorem accumulate_hashes_only_witness:
  "accumulate (\<lambda>b. []) DEFAULT_CONFIG [(sample_span ''RRN'')\<lparr>svalue := lit ''x''\<rparr>] 1 0 (fst sample_turn) =
   accumulate (\<lambda>b. []) DEFAULT_CONFIG [(sample_span ''RRN'')\<lparr>svalue := lit ''y''\<rparr>] 1 0 (fst sample_turn)"
proof -
  have "hash_value (\<lambda>b. []) (lit ''x'') = hash_value (\<lambda>b. []) (lit ''y'')" by code_simp
  then show ?thesis by (intro accumulate_hashes_only) (simp add: sample_span_def)
qed

text \<open>A name, a resident number and an account within the window push the score to at least 0.8, the
  hard block of the shipped configuration, in whatever turns they were mentioned.\<close>

theorem combination_reaches_block:
  assumes "accumulate sha DEFAULT_CONFIG sps ti now s = (s', Inr rs)"
    "{lit ''NAME'', lit ''RRN'', lit ''ACCOUNT''} \<subseteq> etype ` set (active_nodes DEFAULT_CONFIG ti s')"
  shows "fl (8 / 10) \<le> ss_risk_score s'"
proof -
  have "fl (8 / 10) \<le> fst (risk_of DEFAULT_CONFIG ti now s')" by (rule combination_score [OF assms(2)])
  with accumulate_Inr [OF assms(1)] show ?thesis by auto
qed

theorem combination_reaches_block_witness:
  "fl (8 / 10) \<le> ss_risk_score (fst sample_turn)"
proof -
  obtain s' rs where r: "sample_turn = (s', Inr rs)" using sample_turn_Inr by blast
  have e: "map (\<lambda>r. (etype r, last_turn r)) (map snd (entities s')) = [(lit ''NAME'', 1), (lit ''RRN'', 1), (lit ''ACCOUNT'', 1)]"
    using sample_entities unfolding r fst_conv .
  have "lit t \<in> etype ` set (active_nodes DEFAULT_CONFIG 1 s')" if "t \<in> {''NAME'', ''RRN'', ''ACCOUNT''}" for t
  proof -
    have "(lit t, 1) \<in> set (map (\<lambda>r. (etype r, last_turn r)) (map snd (entities s')))"
      unfolding e using that by auto
    then obtain n where "n \<in> set (map snd (entities s'))" "etype n = lit t" "last_turn n = 1" by fastforce
    then show ?thesis by (intro rev_image_eqI [of n]) (simp_all add: active_nodes_def DEFAULT_CONFIG_def)
  qed
  then have "{lit ''NAME'', lit ''RRN'', lit ''ACCOUNT''} \<subseteq> etype ` set (active_nodes DEFAULT_CONFIG 1 s')" by blast
  with combination_reaches_block [OF r [unfolded sample_turn_def]] show ?thesis
    unfolding r fst_conv by simp
qed

end
