(* ===== verification/Context_Stage.thy ===== *)
theory Context_Stage
  imports Accumulator Vault_Laws
begin

text \<open>
  \<open>app/context/stage.py\<close>: the stages that keep a session's state. The mutable state of the process
  is the record \<open>world\<close>: the module globals \<open>_store\<close> and \<open>_accumulator_config\<close>, the token vault,
  the values the clock, the database and the random generator will give. Each call of
  \<open>time.time()\<close> or SQL \<open>now()\<close> takes the next value of \<open>w_clock\<close>, each connection to the database
  succeeds or not as \<open>w_db\<close> says, so every order of times and failures is covered.
  A store is paired with a flag: whether its \<open>on_expire\<close> hook is \<open>_default_on_expire\<close>; a store
  injected by \<open>configure\<close> has no hook.

  A stage takes the world and the context and returns the world with the new context or an
  exception. \<open>loop\<close> says that the calling thread has a running event loop.
\<close>

section \<open>The state of the process\<close>

record world =
  w_store :: "(mem_store \<times> bool) option"
  w_acc :: "acc_config option"
  w_vault :: vault
  w_clock :: "nat \<Rightarrow> pyfloat"
  w_db :: "nat \<Rightarrow> bool"
  w_rng :: "nat \<Rightarrow> nat"

type_synonym 'a effect = "world \<Rightarrow> world \<times> 'a"
type_synonym stage = "ctx \<Rightarrow> ctx result effect"

text \<open>What the stages take from outside: the vault's environment and the result of \<open>load_config()\<close>.\<close>

record context_env =
  c_vault :: vault_env
  c_sha :: "bytes \<Rightarrow> pystr"
  c_multiturn :: "multiturn_config result"
  c_loop :: bool

definition read_clock :: "pyfloat effect" where
  "read_clock w = (w\<lparr>w_clock := (\<lambda>k. w_clock w (Suc k))\<rparr>, w_clock w 0)"

definition connect :: "bool effect" where
  "connect w = (w\<lparr>w_db := (\<lambda>k. w_db w (Suc k))\<rparr>, w_db w 0)"

definition configure :: "mem_store option \<Rightarrow> acc_config option \<Rightarrow> world \<Rightarrow> world" where
  "configure st cfg w =
     (let w = (case st of None \<Rightarrow> w | Some s \<Rightarrow> w\<lparr>w_store := Some (s, False)\<rparr>)
      in case cfg of None \<Rightarrow> w | Some c \<Rightarrow> w\<lparr>w_acc := Some c\<rparr>)"

definition get_store :: "(mem_store \<times> bool) effect" where
  "get_store w =
     (case w_store w of
        None \<Rightarrow> (w\<lparr>w_store := Some (new_store, True)\<rparr>, (new_store, True))
      | Some s \<Rightarrow> (w, s))"

definition get_accumulator_config :: "context_env \<Rightarrow> acc_config result effect" where
  "get_accumulator_config env w =
     (case w_acc w of
        None \<Rightarrow>
          (case c_multiturn env of
             Inl e \<Rightarrow> (w, Inl e)
           | Inr m \<Rightarrow> let c = from_app_config m in (w\<lparr>w_acc := Some c\<rparr>, Inr c))
      | Some c \<Rightarrow> (w, Inr c))"

text \<open>An exception of the vault is logged and dropped.\<close>

definition default_on_expire :: "context_env \<Rightarrow> session_state \<Rightarrow> world \<Rightarrow> world" where
  "default_on_expire env s w =
     (let (w, up) = connect w; (w, now) = read_clock w
      in w\<lparr>w_vault := revoke_session (c_vault env) up now (ss_id s) (w_vault w)\<rparr>)"

definition fire_on_expire :: "context_env \<Rightarrow> session_state list \<Rightarrow> world \<Rightarrow> world" where
  "fire_on_expire env ss w =
     (case w_store w of
        Some (st, True) \<Rightarrow> foldl (\<lambda>w s. default_on_expire env s w) w ss
      | _ \<Rightarrow> w)"

text \<open>The store operations on the global store; \<open>_run_sync\<close> of a call.\<close>

definition put_store :: "mem_store \<Rightarrow> world \<Rightarrow> world" where
  "put_store st w = w\<lparr>w_store := Some (st, case w_store w of None \<Rightarrow> True | Some (_, h) \<Rightarrow> h)\<rparr>"

definition run_sync :: "context_env \<Rightarrow> 'a effect \<Rightarrow> 'a result effect" where
  "run_sync env f w = (if c_loop env then (w, Inl RuntimeError) else let (w, x) = f w in (w, Inr x))"

definition load_session :: "context_env \<Rightarrow> pystr \<Rightarrow> session_state option effect" where
  "load_session env sid w =
     (let (w, (st, hook)) = get_store w; (w, now) = read_clock w;
          (st, r, expired) = store_load now sid st
      in (fire_on_expire env expired (put_store st w), r))"

definition save_session :: "session_state \<Rightarrow> unit effect" where
  "save_session s w = (let (w, (st, hook)) = get_store w in (put_store (store_save s st) w, ()))"

definition fresh_session :: "pystr \<Rightarrow> session_state effect" where
  "fresh_session sid w =
     (let (w, (st, hook)) = get_store w; (w, now) = read_clock w in (w, new_session now sid None st))"

text \<open>One pass of the sweeper thread.\<close>

definition sweep_sessions :: "context_env \<Rightarrow> world \<Rightarrow> world" where
  "sweep_sessions env w =
     (case w_store w of None \<Rightarrow> w | Some (st, hook) \<Rightarrow>
        let (w, now) = read_clock w; (st, expired) = sweep_once now st
        in fire_on_expire env expired (put_store st w))"

section \<open>The stages\<close>

text \<open>
  \<open>accumulate\<close> changes the state object in place: when it raises, a state that came from the
  store has kept the changes, and one that is new is lost.
\<close>

fun group_by_type :: "span list \<Rightarrow> (pystr \<times> span list) list \<Rightarrow> (pystr \<times> span list) list" where
  "group_by_type [] d = d"
| "group_by_type (s # ss) d =
     group_by_type ss (dict_set (stype s) ((case map_of d (stype s) of None \<Rightarrow> [] | Some l \<Rightarrow> l) @ [s]) d)"

definition load_or_new :: "context_env \<Rightarrow> pystr \<Rightarrow> (session_state \<times> bool) result effect" where
  "load_or_new env sid w =
     (case run_sync env (load_session env sid) (fst (get_store w)) of
        (w, Inl e) \<Rightarrow> (w, Inl e)
      | (w, Inr (Some s)) \<Rightarrow> (w, Inr (s, True))
      | (w, Inr None) \<Rightarrow> let (w, s) = fresh_session sid w in (w, Inr (s, False)))"

definition multiturn_stage :: "context_env \<Rightarrow> stage" where
  "multiturn_stage env c w =
     (case get_accumulator_config env (fst (get_store w)) of
        (w, Inl e) \<Rightarrow> (w, Inl e)
      | (w, Inr cfg) \<Rightarrow>
          (case load_or_new env (session_id c) w of
             (w, Inl e) \<Rightarrow> (w, Inl e)
           | (w, Inr (s, stored)) \<Rightarrow>
               let (w, now) = read_clock w in
               case accumulate (c_sha env) cfg (new_turn_spans c) (turn_count s + 1) now s of
                 (s, Inl e) \<Rightarrow> (if stored then fst (save_session s w) else w, Inl e)
               | (s, Inr reasons) \<Rightarrow>
                   (case run_sync env (save_session s) w of
                      (w, Inl e) \<Rightarrow> (w, Inl e)
                    | (w, Inr _) \<Rightarrow>
                        (w, Inr (c\<lparr>risk_score := ss_risk_score s,
                                   accumulated := group_by_type (new_turn_spans c) []\<rparr>)))))"

definition remember_purpose_stage :: "context_env \<Rightarrow> stage" where
  "remember_purpose_stage env c w =
     (if direction c \<noteq> lit ''input'' \<or> purpose c = None then (w, Inr c)
      else case load_or_new env (session_id c) w of
        (w, Inl e) \<Rightarrow> (w, Inl e)
      | (w, Inr (s, stored)) \<Rightarrow>
          (case run_sync env (save_session (s\<lparr>ss_purpose := purpose c\<rparr>)) w of
             (w, Inl e) \<Rightarrow> (w, Inl e)
           | (w, Inr _) \<Rightarrow> (w, Inr c)))"

definition get_last_purpose :: "context_env \<Rightarrow> pystr \<Rightarrow> pystr option result effect" where
  "get_last_purpose env sid w =
     (case run_sync env (load_session env sid) (fst (get_store w)) of
        (w, Inl e) \<Rightarrow> (w, Inl e)
      | (w, Inr None) \<Rightarrow> (w, Inr None)
      | (w, Inr (Some s)) \<Rightarrow> (w, Inr (ss_purpose s)))"


section \<open>What the operations change\<close>

text \<open>The store of the process, empty before its first use.\<close>

definition store_of :: "world \<Rightarrow> mem_store" where
  "store_of w = (case w_store w of None \<Rightarrow> new_store | Some (st, h) \<Rightarrow> st)"

definition hooked :: "world \<Rightarrow> bool" where
  "hooked w = (case w_store w of None \<Rightarrow> True | Some (st, h) \<Rightarrow> h)"

named_theorems world_simps

lemma get_store_simps [world_simps]:
  "snd (get_store w) = (store_of w, hooked w)" "store_of (fst (get_store w)) = store_of w"
  "hooked (fst (get_store w)) = hooked w" "w_vault (fst (get_store w)) = w_vault w"
  "w_acc (fst (get_store w)) = w_acc w" "w_clock (fst (get_store w)) = w_clock w"
  "w_db (fst (get_store w)) = w_db w" "w_rng (fst (get_store w)) = w_rng w"
  by (simp_all add: get_store_def store_of_def hooked_def split: option.splits)

lemma put_store_simps [world_simps]:
  "store_of (put_store st w) = st" "hooked (put_store st w) = hooked w" "w_vault (put_store st w) = w_vault w"
  "w_acc (put_store st w) = w_acc w" "w_clock (put_store st w) = w_clock w" "w_db (put_store st w) = w_db w"
  by (auto simp: put_store_def store_of_def hooked_def split: option.splits prod.splits)

lemma read_clock_simps [world_simps]:
  "snd (read_clock w) = w_clock w 0" "store_of (fst (read_clock w)) = store_of w"
  "hooked (fst (read_clock w)) = hooked w" "w_vault (fst (read_clock w)) = w_vault w"
  "w_acc (fst (read_clock w)) = w_acc w" "w_clock (fst (read_clock w)) = (\<lambda>k. w_clock w (Suc k))"
  "w_db (fst (read_clock w)) = w_db w"
  by (simp_all add: read_clock_def store_of_def hooked_def)

lemma connect_simps [world_simps]:
  "snd (connect w) = w_db w 0" "store_of (fst (connect w)) = store_of w" "hooked (fst (connect w)) = hooked w"
  "w_vault (fst (connect w)) = w_vault w" "w_acc (fst (connect w)) = w_acc w" "w_clock (fst (connect w)) = w_clock w"
  "w_db (fst (connect w)) = (\<lambda>k. w_db w (Suc k))"
  by (simp_all add: connect_def store_of_def hooked_def)

lemma default_on_expire_simps [world_simps]:
  "store_of (default_on_expire env s w) = store_of w" "hooked (default_on_expire env s w) = hooked w"
  "w_acc (default_on_expire env s w) = w_acc w"
  "w_db (default_on_expire env s w) = (\<lambda>k. w_db w (Suc k))"
  "w_vault (default_on_expire env s w) = revoke_session (c_vault env) (w_db w 0) (w_clock w 0) (ss_id s) (w_vault w)"
  "w_clock (default_on_expire env s w) = (\<lambda>k. w_clock w (Suc k))"
  by (simp_all add: default_on_expire_def case_prod_beta world_simps) (simp_all add: store_of_def hooked_def read_clock_def connect_def)

definition session_config :: "context_env \<Rightarrow> world \<Rightarrow> acc_config result" where
  "session_config env w =
     (case w_acc w of None \<Rightarrow> bind_result (c_multiturn env) (\<lambda>m. Inr (from_app_config m)) | Some c \<Rightarrow> Inr c)"

lemma get_accumulator_config_simps [world_simps]:
  "store_of (fst (get_accumulator_config env w)) = store_of w" "hooked (fst (get_accumulator_config env w)) = hooked w"
  "w_db (fst (get_accumulator_config env w)) = w_db w"
  "w_vault (fst (get_accumulator_config env w)) = w_vault w" "w_clock (fst (get_accumulator_config env w)) = w_clock w"
  "w_acc (fst (get_accumulator_config env w)) = (case session_config env w of Inl e \<Rightarrow> w_acc w | Inr c \<Rightarrow> Some c)"
  "snd (get_accumulator_config env w) = session_config env w"
  by (cases "w_acc w"; cases "c_multiturn env"; simp add: get_accumulator_config_def store_of_def hooked_def session_config_def bind_result_def Let_def)+

lemma session_config_store [world_simps]: "session_config env (fst (get_store w)) = session_config env w"
  by (simp add: session_config_def world_simps)

text \<open>The times that a run can still read: what comes later env was to come before.\<close>

definition later :: "context_env \<Rightarrow> world \<Rightarrow> world \<Rightarrow> bool" where
  "later env w w' \<longleftrightarrow> range (w_clock w') \<subseteq> range (w_clock w) \<and> range (w_db w') \<subseteq> range (w_db w) \<and> hooked w' = hooked w \<and>
     default_ttl (store_of w') = default_ttl (store_of w) \<and>
     (vault_step (c_vault env) False)\<^sup>*\<^sup>* (w_vault w) (w_vault w')"

lemma later_trans: "later env w w' \<Longrightarrow> later env w' w'' \<Longrightarrow> later env w w''"
  unfolding later_def by (metis rtranclp_trans subset_trans)

lemma later_refl [simp]: "later env w w"
  by (simp add: later_def)

lemma fire_on_expire_fold: "fire_on_expire env ss w = (if ss = [] then w else if hooked w \<and> w_store w \<noteq> None
    then foldl (\<lambda>w s. default_on_expire env s w) w ss else w)"
  by (auto simp: fire_on_expire_def hooked_def split: option.splits bool.splits prod.splits)

lemma fire_on_expire_keeps [world_simps]:
  "store_of (fire_on_expire env ss w) = store_of w \<and> hooked (fire_on_expire env ss w) = hooked w \<and>
   w_acc (fire_on_expire env ss w) = w_acc w"
proof -
  let ?f = "foldl (\<lambda>w s. default_on_expire env s w) w ss"
  have "store_of ?f = store_of w \<and> hooked ?f = hooked w \<and> w_acc ?f = w_acc w"
    by (induction ss arbitrary: w) (simp_all add: world_simps)
  then show ?thesis by (simp add: fire_on_expire_fold)
qed

lemma default_on_expire_later: "later env w (default_on_expire env s w)"
  by (auto simp: later_def world_simps intro: step_revoke)

lemma fire_on_expire_later: "later env w (fire_on_expire env ss w)"
proof -
  have "later env w (foldl (\<lambda>w s. default_on_expire env s w) w ss)"
  proof (induction ss arbitrary: w)
    case (Cons s ss)
    from later_trans [OF default_on_expire_later Cons.IH] show ?case by simp
  qed simp
  then show ?thesis by (simp add: fire_on_expire_fold)
qed

text \<open>Loading reads the clock once and then behaves as the store does; saving is its save.\<close>

lemma load_session_store:
  "store_of (fst (load_session env sid w)) = fst (mem_load (w_clock w 0) sid (store_of w))"
  "snd (load_session env sid w) = snd (mem_load (w_clock w 0) sid (store_of w))"
  "w_acc (fst (load_session env sid w)) = w_acc w"
  by (simp_all add: load_session_def case_prod_beta world_simps mem_load_def)

lemma store_load_ttl: "default_ttl (fst (store_load now sid st)) = default_ttl st"
  by (simp add: store_load_def split: option.splits)

lemma load_session_later: "later env w (fst (load_session env sid w))"
proof -
  let ?w = "put_store (fst (store_load (w_clock w 0) sid (store_of w))) (fst (read_clock (fst (get_store w))))"
  have "later env w ?w" by (auto simp: later_def world_simps store_load_ttl)
  then show ?thesis
    using fire_on_expire_later by (auto simp: load_session_def case_prod_beta world_simps intro: later_trans)
qed

lemma save_session_simps [world_simps]:
  "store_of (fst (save_session s w)) = mem_save (ss_id s) s (store_of w)" "w_vault (fst (save_session s w)) = w_vault w"
  "w_acc (fst (save_session s w)) = w_acc w" "w_clock (fst (save_session s w)) = w_clock w"
  "hooked (fst (save_session s w)) = hooked w" "w_db (fst (save_session s w)) = w_db w"
  by (simp_all add: save_session_def case_prod_beta world_simps mem_save_def)

lemma fresh_session_simps [world_simps]:
  "store_of (fst (fresh_session sid w)) = store_of w" "w_vault (fst (fresh_session sid w)) = w_vault w"
  "w_acc (fst (fresh_session sid w)) = w_acc w" "hooked (fst (fresh_session sid w)) = hooked w"
  "snd (fresh_session sid w) = new_session (w_clock w 0) sid None (store_of w)"
  "w_clock (fst (fresh_session sid w)) = (\<lambda>k. w_clock w (Suc k))" "w_db (fst (fresh_session sid w)) = w_db w"
  by (simp_all add: fresh_session_def case_prod_beta world_simps)

lemma new_session_simps [simp]:
  "ss_id (new_session now sid ttl st) = sid" "turn_count (new_session now sid ttl st) = 0"
  "entities (new_session now sid ttl st) = []" "ss_risk_score (new_session now sid ttl st) = 0"
  "ss_purpose (new_session now sid ttl st) = None"
  "ss_expires_at (new_session now sid None st) = fadd now (default_ttl st)"
  by (simp_all add: new_session_def Let_def)

lemma save_later: "later env w (fst (save_session s w))"
  by (simp add: later_def world_simps mem_save_def store_save_def)

text \<open>
  The state a stage works on: the stored one while it is alive, else a new one; the world it
  leaves has the store of the load.
\<close>

lemma load_or_new_cases:
  obtains (looping) "c_loop env" "load_or_new env sid w = (fst (get_store w), Inl RuntimeError)"
  | (loaded) w' s where "\<not> c_loop env" "load_or_new env sid w = (w', Inr (s, True))"
      "snd (mem_load (w_clock w 0) sid (store_of w)) = Some s"
      "store_of w' = fst (mem_load (w_clock w 0) sid (store_of w))" "later env w w'" "w_acc w' = w_acc w"
  | (fresh) w' t where "\<not> c_loop env" "load_or_new env sid w = (w', Inr (new_session t sid None (store_of w), False))"
      "snd (mem_load (w_clock w 0) sid (store_of w)) = None" "t \<in> range (w_clock w)"
      "store_of w' = fst (mem_load (w_clock w 0) sid (store_of w))" "later env w w'" "w_acc w' = w_acc w"
proof (cases "c_loop env")
  case True
  then show ?thesis by (intro looping) (simp_all add: load_or_new_def run_sync_def)
next
  case False
  let ?g = "fst (get_store w)"
  let ?l = "load_session env sid ?g"
  have g: "w_clock ?g = w_clock w" "store_of ?g = store_of w" "w_acc ?g = w_acc w" by (simp_all add: world_simps)
  have gl: "later env w ?g" by (simp add: later_def world_simps)
  have l: "store_of (fst ?l) = fst (mem_load (w_clock w 0) sid (store_of w))"
    "snd ?l = snd (mem_load (w_clock w 0) sid (store_of w))" "later env w (fst ?l)" "w_acc (fst ?l) = w_acc w"
    using load_session_store [of env sid ?g] later_trans [OF gl load_session_later] by (simp_all add: g)
  have ttl: "default_ttl (store_of (fst ?l)) = default_ttl (store_of w)" using l(3) by (simp add: later_def)
  show ?thesis
  proof (cases "snd ?l")
    case (Some s)
    with False show ?thesis
      by (intro loaded [of "fst ?l" s]) (simp_all add: load_or_new_def run_sync_def case_prod_beta l)
  next
    case None
    let ?f = "fresh_session sid (fst ?l)"
    have "later env w (fst ?f)" using l(3) by (rule later_trans) (auto simp: later_def world_simps)
    moreover have "w_clock (fst ?l) 0 \<in> range (w_clock w)" using l(3) by (auto simp: later_def)
    ultimately show ?thesis using False None
      by (intro fresh [of "fst ?f" "w_clock (fst ?l) 0"])
        (simp_all add: load_or_new_def run_sync_def case_prod_beta l world_simps new_session_def ttl [unfolded l] Let_def)
  qed
qed

section \<open>The invariant of the process state\<close>

definition session_ok :: "session_state \<Rightarrow> bool" where
  "session_ok s \<longleftrightarrow> entities_ok (turn_count s) (entities s) \<and> 0 \<le> ss_risk_score s \<and> ss_risk_score s \<le> 1"

definition world_ok :: "context_env \<Rightarrow> world \<Rightarrow> bool" where
  "world_ok env w \<longleftrightarrow> store_inv (store_of w) \<and> (\<forall>p \<in> set (states (store_of w)). session_ok (snd p)) \<and>
     numbered (vrows (w_vault w)) \<and> unique_live (vrows (w_vault w)) \<and>
     (\<forall>m. c_multiturn env = Inr m \<longrightarrow> config_ok (from_app_config m)) \<and> (\<forall>c. w_acc w = Some c \<longrightarrow> config_ok c)"

lemma vault_steps_ok:
  "(vault_step env False)\<^sup>*\<^sup>* st st' \<Longrightarrow> numbered (vrows st) \<and> unique_live (vrows st) \<Longrightarrow>
    numbered (vrows st') \<and> unique_live (vrows st')"
  by (induction rule: rtranclp_induct) (blast intro: step_numbered step_unique_live)+

lemma world_okI:
  assumes "world_ok env w" "later env w w'" "store_inv (store_of w')"
    "\<forall>p \<in> set (states (store_of w')). session_ok (snd p)" "\<forall>c. w_acc w' = Some c \<longrightarrow> config_ok c"
  shows "world_ok env w'"
  using assms vault_steps_ok [of "c_vault env" "w_vault w" "w_vault w'"] by (auto simp: world_ok_def later_def)

lemma mem_load_states: "set (states (fst (mem_load t sid st))) \<subseteq> set (states st)"
  by (auto simp: mem_load_def store_load_def dict_del_def split: option.splits)

lemma mem_load_in: "snd (mem_load t sid st) = Some s \<Longrightarrow> (sid, s) \<in> set (states st)"
  by (auto simp: snd_mem_load split: option.splits if_splits dest!: map_of_SomeD)

lemma world_ok_load:
  assumes "world_ok env w" "later env w w'" "store_of w' = fst (mem_load t sid (store_of w))" "w_acc w' = w_acc w"
  shows "world_ok env w'"
proof (rule world_okI [OF assms(1,2)])
  show "store_inv (store_of w')" using mem.inv_load assms(1) by (simp add: assms(3) world_ok_def)
  show "\<forall>p \<in> set (states (store_of w')). session_ok (snd p)"
    using mem_load_states [of t sid "store_of w"] assms(1) by (auto simp: assms(3) world_ok_def)
qed (use assms in \<open>simp add: world_ok_def\<close>)

lemma world_ok_save:
  assumes "world_ok env w" "session_ok s"
  shows "world_ok env (fst (save_session s w))"
proof (rule world_okI [OF assms(1) save_later])
  show "store_inv (store_of (fst (save_session s w)))"
    using assms(1) by (simp add: world_simps world_ok_def mem.inv_save)
  show "\<forall>p \<in> set (states (store_of (fst (save_session s w)))). session_ok (snd p)"
    using assms by (auto simp: world_simps world_ok_def mem_save_def store_save_def dest!: dict_set_items)
qed (use assms in \<open>simp add: world_ok_def world_simps\<close>)

lemma session_ok_new [simp]: "session_ok (new_session t sid ttl st)"
  by (simp add: session_ok_def entities_ok_def)

lemma session_ok_accumulate:
  assumes "session_ok s" "config_ok cfg" "accumulate sha cfg sps (turn_count s + 1) now s = (s', r)"
  shows "session_ok s'"
proof -
  have e: "entities_ok (turn_count s + 1) (entities (turn_started (turn_count s + 1) now s))"
    using assms(1) by (auto simp: session_ok_def intro: entities_ok_mono)
  show ?thesis
  proof (cases rule: accumulate_cases [where sha = sha and cfg = cfg and sps = sps and ti = "turn_count s + 1" and now = now and s = s])
    case (raised s1 x)
    have "ss_risk_score s1 = ss_risk_score s"
      using register_spans_risk [OF raised(1)] by (simp add: turn_started_def)
    with raised assms register_spans_ok [OF e raised(1)] register_spans_fields [OF raised(1)]
    show ?thesis by (auto simp: session_ok_def)
  next
    case (completed s1)
    then show ?thesis
      using assms register_spans_ok [OF e completed(1)] register_spans_fields [OF completed(1)]
      by (auto simp: session_ok_def fst_risk_of float_bounds)
  qed
qed

lemma load_or_new_ok:
  assumes "world_ok env w" "load_or_new env sid w = (w', r)"
  shows "world_ok env w' \<and> later env w w' \<and> (\<forall>s b. r = Inr (s, b) \<longrightarrow> session_ok s \<and> ss_id s = sid)"
proof (cases rule: load_or_new_cases [where env = env and sid = sid and w = w])
  case looping
  have "later env w (fst (get_store w))" by (simp add: later_def world_simps)
  with looping assms show ?thesis by (auto simp: world_ok_def world_simps)
next
  case (loaded w1 s)
  have "(sid, s) \<in> set (states (store_of w))" by (rule mem_load_in [OF loaded(3)])
  with assms(1) have "session_ok s \<and> ss_id s = sid" by (fastforce simp: world_ok_def store_inv_def)
  with loaded assms world_ok_load [OF assms(1) loaded(5,4,6)] show ?thesis by auto
next
  case (fresh w1 t)
  with assms world_ok_load [OF assms(1) fresh(6,5,7)] show ?thesis by auto
qed

lemma get_config_ok:
  "world_ok env w \<Longrightarrow> world_ok env (fst (get_accumulator_config env (fst (get_store w)))) \<and>
    (\<forall>cfg. session_config env w = Inr cfg \<longrightarrow> config_ok cfg)"
  by (auto simp: world_ok_def world_simps session_config_def bind_result_Inr split: option.splits sum.splits)

lemma get_config_later: "later env w (fst (get_accumulator_config env (fst (get_store w))))"
  by (simp add: later_def world_simps)

section \<open>What a stage does\<close>

text \<open>A request changes the store by loading its own session and perhaps saving it.\<close>

definition own_change :: "pystr \<Rightarrow> mem_store \<Rightarrow> mem_store \<Rightarrow> bool" where
  "own_change sid st st' \<longleftrightarrow> st' = st \<or>
     (\<exists>t. st' = fst (mem_load t sid st) \<or> (\<exists>s. ss_id s = sid \<and> st' = mem_save sid s (fst (mem_load t sid st))))"

lemma own_change_other:
  assumes "store_inv st" "own_change sid st st'" "sid' \<noteq> sid"
  shows "snd (mem_load t sid' st') = snd (mem_load t sid' st)"
  using assms mem.load_load [OF assms(1,3)] mem.load_other [OF mem.inv_load [OF assms(1)] _ assms(3)]
  unfolding own_change_def by metis

lemma load_or_new_Inr:
  "load_or_new env sid w = (w', Inr x) \<Longrightarrow> store_of w' = fst (mem_load (w_clock w 0) sid (store_of w)) \<and> \<not> c_loop env"
  by (cases rule: load_or_new_cases [where env = env and sid = sid and w = w]) auto

lemma load_or_new_Inl: "load_or_new env sid w = (w', Inl e) \<Longrightarrow> store_of w' = store_of w \<and> c_loop env"
  by (cases rule: load_or_new_cases [where env = env and sid = sid and w = w]) (auto simp: world_simps)

lemma read_clock_later: "later env w (fst (read_clock w))"
  by (auto simp: later_def world_simps)

lemma read_clock_ok: "world_ok env w \<Longrightarrow> world_ok env (fst (read_clock w))"
  by (simp add: world_ok_def world_simps)

lemma load_only_ok:
  assumes "world_ok env w" "load_or_new env sid w = (w', x)"
  shows "world_ok env w' \<and> later env w w' \<and> own_change sid (store_of w) (store_of w')"
  using load_or_new_ok [OF assms] load_or_new_Inr [of env sid w] load_or_new_Inl [of env sid w] assms(2)
  by (cases x) (auto simp: own_change_def)

lemma load_save_ok:
  assumes "world_ok env w" "load_or_new env sid w = (w2, Inr x)" "w3 = w2 \<or> w3 = fst (read_clock w2)"
    "session_ok s" "ss_id s = sid" "w' = fst (save_session s w3)"
  shows "world_ok env w' \<and> later env w w' \<and> own_change sid (store_of w) (store_of w')"
proof -
  have w2: "world_ok env w2" "later env w w2" using load_only_ok [OF assms(1,2)] by auto
  have w3: "world_ok env w3" "later env w w3" "store_of w3 = store_of w2"
    using assms(3) w2 read_clock_ok later_trans [OF w2(2) read_clock_later] by (auto simp: world_simps)
  have "store_of w' = mem_save sid s (fst (mem_load (w_clock w 0) sid (store_of w)))"
    using load_or_new_Inr [OF assms(2)] by (simp add: world_simps assms(5,6) w3(3))
  then have "own_change sid (store_of w) (store_of w')" unfolding own_change_def using assms(5) by blast
  then show ?thesis
    using world_ok_save [OF w3(1) assms(4)] later_trans [OF w3(2) save_later] by (simp add: assms(6))
qed

lemma multiturn_cases:
  fixes env c w
  defines "w1 \<equiv> fst (get_accumulator_config env (fst (get_store w)))"
  obtains (unconfigured) e where "session_config env w = Inl e" "multiturn_stage env c w = (w1, Inl e)"
  | (looping) w2 e where "load_or_new env (session_id c) w1 = (w2, Inl e)"
      "multiturn_stage env c w = (w2, Inl e)"
  | (raised) w2 s b s' e cfg where "load_or_new env (session_id c) w1 = (w2, Inr (s, b))"
      "accumulate (c_sha env) cfg (new_turn_spans c) (turn_count s + 1) (w_clock w2 0) s = (s', Inl e)"
      "multiturn_stage env c w = (if b then fst (save_session s' (fst (read_clock w2))) else fst (read_clock w2), Inl e)" "session_config env w = Inr cfg"
  | (completed) w2 s b s' rs cfg where "load_or_new env (session_id c) w1 = (w2, Inr (s, b))"
      "accumulate (c_sha env) cfg (new_turn_spans c) (turn_count s + 1) (w_clock w2 0) s = (s', Inr rs)"
      "multiturn_stage env c w = (fst (save_session s' (fst (read_clock w2))),
         Inr (c\<lparr>risk_score := ss_risk_score s', accumulated := group_by_type (new_turn_spans c) []\<rparr>))" "session_config env w = Inr cfg"
proof (cases "session_config env w")
  case (Inl e)
  have "get_accumulator_config env (fst (get_store w)) = (w1, Inl e)" by (simp add: prod_eq_iff w1_def world_simps Inl)
  with Inl show ?thesis by (intro unconfigured [of e]) (simp_all add: multiturn_stage_def)
next
  case cfg: (Inr cfg)
  have conf: "get_accumulator_config env (fst (get_store w)) = (w1, Inr cfg)" by (simp add: prod_eq_iff w1_def world_simps cfg)
  obtain w2 r where Pair: "load_or_new env (session_id c) w1 = (w2, r)" by fastforce
  note unf = multiturn_stage_def case_prod_beta conf Let_def read_clock_simps cfg
  show ?thesis
  proof (cases r)
    case (Inl e)
    then show ?thesis using Pair by (intro looping) (simp_all add: unf)
  next
    case (Inr p)
    obtain s b where p: "p = (s, b)" by (cases p)
    have nl: "\<not> c_loop env" using Pair Inr
      by (cases rule: load_or_new_cases [where env = env and sid = "session_id c" and w = w1]) auto
    obtain s' x where a: "accumulate (c_sha env) cfg (new_turn_spans c) (turn_count s + 1) (w_clock w2 0) s = (s', x)"
      by fastforce
    show ?thesis
    proof (cases x)
      case (Inl e)
      then show ?thesis using Pair Inr p a by (intro raised) (simp_all add: unf)
    next
      case (Inr rs)
      then show ?thesis using Pair \<open>r = Inr p\<close> p a nl by (intro completed) (simp_all add: unf run_sync_def)
    qed
  qed
qed

text \<open>The score of a session with one more turn: what \<open>accumulate\<close> makes of the state that is loaded, or of a new one.\<close>

definition session_risk :: "context_env \<Rightarrow> pystr \<Rightarrow> span list \<Rightarrow> world \<Rightarrow> pyfloat option" where
  "session_risk env sid ss w =
     (case (session_config env w, load_or_new env sid (fst (get_accumulator_config env (fst (get_store w))))) of
        (Inr cfg, (w, Inr (s, stored))) \<Rightarrow>
          (case accumulate (c_sha env) cfg ss (turn_count s + 1) (w_clock w 0) s of
             (s, Inr reasons) \<Rightarrow> Some (ss_risk_score s)
           | _ \<Rightarrow> None)
      | _ \<Rightarrow> None)"

lemma multiturn_risk:
  assumes "multiturn_stage env c w = (w', Inr c')"
  shows "session_risk env (session_id c) (new_turn_spans c) w = Some (risk_score c')"
  using assms by (cases rule: multiturn_cases [where env = env and c = c and w = w]) (auto simp: session_risk_def)

lemma multiturn_ok:
  assumes "world_ok env w" "multiturn_stage env c w = (w', r)"
  shows "world_ok env w' \<and> later env w w' \<and> own_change (session_id c) (store_of w) (store_of w') \<and>
    (\<forall>c'. r = Inr c' \<longrightarrow> 0 \<le> risk_score c' \<and> risk_score c' \<le> 1)"
proof -
  let ?w1 = "fst (get_accumulator_config env (fst (get_store w)))"
  have w1: "world_ok env ?w1" "later env w ?w1" "store_of ?w1 = store_of w"
    and cfg: "\<And>cfg. session_config env w = Inr cfg \<Longrightarrow> config_ok cfg"
    using get_config_ok [OF assms(1)] get_config_later by (simp_all add: world_simps)
  show ?thesis
  proof (cases rule: multiturn_cases [where env = env and c = c and w = w])
    case (unconfigured e)
    with assms(2) w1 show ?thesis by (auto simp: own_change_def)
  next
    case (looping w2 e)
    with assms(2) load_only_ok [OF w1(1) looping(1)] w1(3) later_trans [OF w1(2)] show ?thesis by auto
  next
    case (raised w2 s b s' e cfg)
    note id' = accumulate_fields [OF raised(2)] and ok = load_or_new_ok [OF w1(1) raised(1)]
    have "session_ok s'" using ok by (blast intro: session_ok_accumulate [OF _ cfg [OF raised(4)] raised(2)])
    moreover have "ss_id s' = session_id c" using id' ok by auto
    ultimately have saved: "world_ok env (fst (save_session s' (fst (read_clock w2))))" 
      "later env ?w1 (fst (save_session s' (fst (read_clock w2))))"
      "own_change (session_id c) (store_of w) (store_of (fst (save_session s' (fst (read_clock w2)))))"
      using load_save_ok [OF w1(1) raised(1), of "fst (read_clock w2)" s'] by (auto simp: w1(3))
    have "world_ok env (fst (read_clock w2))" "later env ?w1 (fst (read_clock w2))"
      "own_change (session_id c) (store_of w) (store_of (fst (read_clock w2)))"
      using load_only_ok [OF w1(1) raised(1)] read_clock_ok later_trans [OF _ read_clock_later] w1(3)
      by (auto simp: world_simps)
    with saved raised(3) assms(2) later_trans [OF w1(2)] show ?thesis by auto
  next
    case (completed w2 s b s' rs cfg)
    note id' = accumulate_fields [OF completed(2)] and ok = load_or_new_ok [OF w1(1) completed(1)]
    have s': "session_ok s'" using ok by (blast intro: session_ok_accumulate [OF _ cfg [OF completed(4)] completed(2)])
    moreover have "ss_id s' = session_id c" using id' ok by auto
    ultimately have "world_ok env w'" "later env ?w1 w'" "own_change (session_id c) (store_of w) (store_of w')"
      using load_save_ok [OF w1(1) completed(1), of "fst (read_clock w2)" s'] completed(3) assms(2) by (auto simp: w1(3))
    with completed(3) assms(2) later_trans [OF w1(2)] s' show ?thesis by (auto simp: session_ok_def)
  qed
qed

lemma remember_cases:
  obtains (skipped) "direction c \<noteq> lit ''input'' \<or> purpose c = None" "remember_purpose_stage env c w = (w, Inr c)"
  | (looping) w2 e where "load_or_new env (session_id c) w = (w2, Inl e)" "remember_purpose_stage env c w = (w2, Inl e)"
  | (completed) w2 s b where "load_or_new env (session_id c) w = (w2, Inr (s, b))"
      "remember_purpose_stage env c w = (fst (save_session (s\<lparr>ss_purpose := purpose c\<rparr>) w2), Inr c)"
proof (cases "direction c \<noteq> lit ''input'' \<or> purpose c = None")
  case True
  then show ?thesis by (intro skipped) (auto simp: remember_purpose_stage_def)
next
  case False
  show ?thesis
  proof (cases "load_or_new env (session_id c) w")
    case (Pair w2 r)
    show ?thesis
    proof (cases r)
      case (Inl e)
      with Pair False show ?thesis by (intro looping) (auto simp: remember_purpose_stage_def)
    next
      case (Inr p)
      obtain s b where "p = (s, b)" by (cases p)
      with Inr Pair False load_or_new_Inr [OF Pair [unfolded Inr]]
      show ?thesis by (intro completed) (auto simp: remember_purpose_stage_def run_sync_def case_prod_beta)
    qed
  qed
qed

lemma remember_ok:
  assumes "world_ok env w" "remember_purpose_stage env c w = (w', r)"
  shows "world_ok env w' \<and> later env w w' \<and> own_change (session_id c) (store_of w) (store_of w') \<and> (r = Inr c \<or> (\<exists>e. r = Inl e))"
proof (cases rule: remember_cases [where env = env and c = c and w = w])
  case (completed w2 s b)
  have "session_ok (s\<lparr>ss_purpose := purpose c\<rparr>)" "ss_id (s\<lparr>ss_purpose := purpose c\<rparr>) = session_id c"
    using load_or_new_ok [OF assms(1) completed(1)] by (auto simp: session_ok_def)
  from load_save_ok [OF assms(1) completed(1) _ this] completed(2) assms(2) show ?thesis by auto
qed (use assms load_only_ok [OF assms(1)] in \<open>auto simp: own_change_def\<close>)

lemma get_store_later [simp]: "later env w (fst (get_store w))"
  by (simp add: later_def world_simps)

lemma get_last_purpose_world: "fst (get_last_purpose env sid w) =
    (if c_loop env then fst (get_store w) else fst (load_session env sid (fst (get_store w))))"
  by (simp add: get_last_purpose_def run_sync_def case_prod_beta split: option.splits)

lemma get_last_purpose_ok:
  assumes "world_ok env w" "get_last_purpose env sid w = (w', r)"
  shows "world_ok env w' \<and> later env w w' \<and> own_change sid (store_of w) (store_of w')"
proof -
  let ?g = "fst (get_store w)"
  let ?l = "fst (load_session env sid ?g)"
  have g: "world_ok env ?g" using assms(1) by (simp add: world_ok_def world_simps)
  have "store_of ?l = fst (mem_load (w_clock ?g 0) sid (store_of w))" "w_acc ?l = w_acc ?g"
    by (simp_all add: load_session_store world_simps)
  with world_ok_load [OF g load_session_later] later_trans [OF get_store_later load_session_later]
  have "world_ok env ?l \<and> later env w ?l \<and> own_change sid (store_of w) (store_of ?l)"
    by (auto simp: own_change_def world_simps)
  then show ?thesis using get_last_purpose_world [of env sid w] assms(2) g
    by (auto simp: own_change_def world_simps split: if_splits)
qed

lemma sweep_ok:
  assumes "world_ok env w"
  shows "world_ok env (sweep_sessions env w) \<and> later env w (sweep_sessions env w) \<and>
    states (store_of (sweep_sessions env w)) = (if w_store w = None then states (store_of w)
      else filter (\<lambda>(k, s). \<not> is_expired (w_clock w 0) s) (states (store_of w)))"
proof (cases "w_store w")
  case None
  with assms show ?thesis by (simp add: sweep_sessions_def)
next
  case (Some sh)
  let ?w = "put_store (fst (sweep_once (w_clock w 0) (store_of w))) (fst (read_clock w))"
  have st: "fst sh = store_of w" using Some by (simp add: store_of_def split: prod.splits)
  have e: "sweep_sessions env w = fire_on_expire env (snd (sweep_once (w_clock w 0) (store_of w))) ?w"
    using Some st by (simp add: sweep_sessions_def case_prod_beta world_simps)
  have l: "later env w ?w" by (auto simp: later_def world_simps sweep_once_def)
  have s: "states (store_of ?w) = filter (\<lambda>(k, s). \<not> is_expired (w_clock w 0) s) (states (store_of w))"
    by (simp add: world_simps sweep_once_def)
  show ?thesis
  proof (intro conjI)
    show "later env w (sweep_sessions env w)" unfolding e by (rule later_trans [OF l fire_on_expire_later])
    then show "world_ok env (sweep_sessions env w)"
      using assms s store_inv_filter [of "store_of w"]
      by (intro world_okI [OF assms]) (auto simp: e world_simps world_ok_def sweep_once_def)
  qed (use Some s in \<open>simp add: e world_simps\<close>)
qed

section \<open>Interleaved requests\<close>

text \<open>The steps of requests whose session is in \<open>S\<close>, in any order, and of the sweeper.\<close>

inductive session_step :: "context_env \<Rightarrow> pystr set \<Rightarrow> world \<Rightarrow> world \<Rightarrow> bool" for env :: context_env and S :: "pystr set" where
  step_multiturn: "session_id c \<in> S \<Longrightarrow> session_step env S w (fst (multiturn_stage env c w))"
| step_remember: "session_id c \<in> S \<Longrightarrow> session_step env S w (fst (remember_purpose_stage env c w))"
| step_last: "sid \<in> S \<Longrightarrow> session_step env S w (fst (get_last_purpose env sid w))"
| step_sweep: "session_step env S w (sweep_sessions env w)"

lemma session_step_ok:
  assumes "session_step env S w w'" "world_ok env w"
  shows "world_ok env w' \<and> later env w w' \<and> ((\<exists>sid \<in> S. own_change sid (store_of w) (store_of w')) \<or> w' = sweep_sessions env w)"
  using assms
proof (cases rule: session_step.cases)
  case (step_multiturn c)
  with multiturn_ok [OF assms(2), of c] show ?thesis by (metis prod.collapse)
next
  case (step_remember c)
  with remember_ok [OF assms(2), of c] show ?thesis by (metis prod.collapse)
next
  case (step_last sid)
  with get_last_purpose_ok [OF assms(2), of sid] show ?thesis by (metis prod.collapse)
next
  case step_sweep
  with sweep_ok [OF assms(2)] show ?thesis by auto
qed

lemma session_steps_ok:
  assumes "(session_step env S)\<^sup>*\<^sup>* w w'" "world_ok env w"
  shows "world_ok env w' \<and> later env w w'"
  using assms by (induction rule: rtranclp_induct) (simp, metis later_trans session_step_ok)

text \<open>A session that is alive at all times to come.\<close>

definition open_session :: "pystr \<Rightarrow> session_state \<Rightarrow> world \<Rightarrow> bool" where
  "open_session sid s w \<longleftrightarrow> map_of (states (store_of w)) sid = Some s \<and> (\<forall>t \<in> range (w_clock w). \<not> is_expired t s)"

lemma open_session_load: "open_session sid s w \<Longrightarrow> t \<in> range (w_clock w) \<Longrightarrow> snd (mem_load t sid (store_of w)) = Some s"
  by (auto simp: open_session_def snd_mem_load)

lemma session_step_others:
  assumes "session_step env S w w'" "world_ok env w" "sid \<notin> S" "open_session sid s w"
  shows "open_session sid s w'"
proof -
  have l: "later env w w'" and inv: "store_inv (store_of w)" using session_step_ok [OF assms(1,2)] assms(2) by (auto simp: world_ok_def)
  have t: "w_clock w 0 \<in> range (w_clock w)" by simp
  have "map_of (states (store_of w')) sid = Some s"
  proof (cases "w' = sweep_sessions env w")
    case True
    have "map_of (filter (\<lambda>(k, s). \<not> is_expired (w_clock w 0) s) (states (store_of w))) sid = Some s"
      using assms(4) inv by (intro map_of_is_SomeI) (auto simp: open_session_def store_inv_def distinct_map_filter dest: map_of_SomeD)
    then show ?thesis using True sweep_ok [OF assms(2)] assms(4) by (simp add: open_session_def split: if_splits)
  next
    case False
    with session_step_ok [OF assms(1,2)] obtain k where "k \<in> S" "own_change k (store_of w) (store_of w')" by blast
    with own_change_other [OF inv this(2), of sid] assms(3) open_session_load [OF assms(4) t]
    have "snd (mem_load (w_clock w 0) sid (store_of w')) = Some s" by metis
    then show ?thesis by (auto simp: snd_mem_load split: option.splits if_splits)
  qed
  with l assms(4) show ?thesis unfolding open_session_def later_def by blast
qed

lemma session_steps_others:
  assumes "(session_step env S)\<^sup>*\<^sup>* w w'" "world_ok env w" "sid \<notin> S" "open_session sid s w"
  shows "open_session sid s w'"
  using assms
  by (induction rule: rtranclp_induct) (auto intro: session_step_others dest: session_steps_ok)

section \<open>Properties\<close>

definition sample_context_env :: context_env where
  "sample_context_env = \<lparr>c_vault = sample_env, c_sha = (\<lambda>b. b),
     c_multiturn = Inr \<lparr>mt_window_size_turns = 5, mt_combo_cap = fl (8 / 10), mt_repeat_weight = fl (5 / 100), mt_repeat_cap = fl (15 / 100)\<rparr>,
     c_loop = False\<rparr>"

definition sample_world :: world where
  "sample_world = \<lparr>w_store = None, w_acc = None, w_vault = sample_vault, w_clock = (\<lambda>k. 0), w_db = (\<lambda>k. True), w_rng = (\<lambda>k. k)\<rparr>"

definition sample_ctx :: "string \<Rightarrow> ctx" where
  "sample_ctx sid = (new_ctx (lit sid) (lit ''input'') (lit ''gateway'') None [])\<lparr>purpose := Some (lit ''code_help'')\<rparr>"

lemma sample_world_ok: "world_ok sample_context_env sample_world"
proof -
  have "from_app_config m = DEFAULT_CONFIG" if "c_multiturn sample_context_env = Inr m" for m
    using that by (auto simp: from_app_config_def sample_context_env_def DEFAULT_CONFIG_def)
  then show ?thesis
    by (simp add: world_ok_def sample_world_def store_of_def store_inv_def new_store_def sample_vault_def default_config_ok
      numbered_def unique_live_def empty_vault_def)
qed

text \<open>C27: The purpose an input request records is the one an output request of the session reads, whatever
  requests of other sessions and sweeps run in between, as long as the session has not expired.\<close>

theorem purpose_carried:
  assumes "world_ok env w" "\<not> c_loop env" "direction c = lit ''input''" "purpose c = Some p"
    "\<forall>s. map_of (states (store_of w)) (session_id c) = Some s \<longrightarrow> (\<forall>t \<in> range (w_clock w). t < ss_expires_at s)"
    "\<forall>t \<in> range (w_clock w). \<forall>u \<in> range (w_clock w). t < fadd u (default_ttl (store_of w))"
    "(session_step env (- {session_id c}))\<^sup>*\<^sup>* (fst (remember_purpose_stage env c w)) w'"
  shows "snd (get_last_purpose env (session_id c) w') = Inr (Some p)"
proof -
  let ?w1 = "fst (remember_purpose_stage env c w)"
  obtain r where r: "remember_purpose_stage env c w = (?w1, r)" by (metis prod.collapse)
  have w1: "world_ok env ?w1" using remember_ok [OF assms(1) r] by simp
  have "\<exists>s. open_session (session_id c) s ?w1 \<and> ss_purpose s = Some p"
  proof (cases rule: remember_cases [where env = env and c = c and w = w])
    case (completed w2 s b)
    let ?s = "s\<lparr>ss_purpose := purpose c\<rparr>"
    have ids: "ss_id s = session_id c" and l: "later env w w2" using load_or_new_ok [OF assms(1) completed(1)] by auto
    have alive: "\<forall>t \<in> range (w_clock w). t < ss_expires_at s"
    proof (cases rule: load_or_new_cases [where env = env and sid = "session_id c" and w = w])
      case (loaded w3 s')
      with completed(1) assms(5) show ?thesis by (auto simp: snd_mem_load split: option.splits if_splits)
    next
      case (fresh w3 t)
      with completed(1) assms(6) show ?thesis by auto
    qed (use completed(1) in simp)
    have "\<forall>t \<in> range (w_clock w2). t < ss_expires_at s" using alive l unfolding later_def by blast
    then have "open_session (session_id c) ?s ?w1"
      using completed(2) ids by (simp add: open_session_def world_simps mem_save_def store_save_def is_expired_def not_le)
    then show ?thesis using assms(4) by (intro exI [of _ ?s]) simp
  next
    case (looping w2 e)
    with assms(2) load_or_new_Inl show ?thesis by blast
  qed (use assms(3,4) in simp)
  then obtain s where s: "open_session (session_id c) s ?w1" "ss_purpose s = Some p" by blast
  have "open_session (session_id c) s w'" by (rule session_steps_others [OF assms(7) w1 _ s(1)]) simp
  then have "snd (mem_load (w_clock w' 0) (session_id c) (store_of w')) = Some s" by (rule open_session_load) simp
  then show ?thesis using assms(2) s(2)
    by (simp add: get_last_purpose_def run_sync_def case_prod_beta load_session_store world_simps)
qed

theorem purpose_carried_witness:
  "snd (get_last_purpose sample_context_env (lit ''a'')
     (fst (remember_purpose_stage sample_context_env (sample_ctx ''b'')
       (fst (remember_purpose_stage sample_context_env (sample_ctx ''a'') sample_world))))) = Inr (Some (lit ''code_help''))"
proof -
  let ?w1 = "fst (remember_purpose_stage sample_context_env (sample_ctx ''a'') sample_world)"
  have c: "session_id (sample_ctx n) = lit n" "direction (sample_ctx n) = lit ''input''" "purpose (sample_ctx n) = Some (lit ''code_help'')" for n
    by (simp_all add: sample_ctx_def new_ctx_def)
  have "session_step sample_context_env (- {lit ''a''}) ?w1 (fst (remember_purpose_stage sample_context_env (sample_ctx ''b'') ?w1))"
    by (rule step_remember) (simp add: c)
  then have steps: "(session_step sample_context_env (- {session_id (sample_ctx ''a'')}))\<^sup>*\<^sup>* ?w1
      (fst (remember_purpose_stage sample_context_env (sample_ctx ''b'') ?w1))" by (simp add: c)
  have "0 < fadd 0 1800" by code_simp
  then have "\<forall>t \<in> range (w_clock sample_world). \<forall>u \<in> range (w_clock sample_world). t < fadd u (default_ttl (store_of sample_world))"
    "\<forall>s. map_of (states (store_of sample_world)) (session_id (sample_ctx ''a'')) = Some s \<longrightarrow> (\<forall>t \<in> range (w_clock sample_world). t < ss_expires_at s)"
    "\<not> c_loop sample_context_env"
    by (auto simp: sample_world_def store_of_def new_store_def DEFAULT_TTL_SECONDS_def sample_context_env_def)
  from purpose_carried [OF sample_world_ok this(3) c(2) c(3) this(2,1) steps] show ?thesis by (simp add: c)
qed

text \<open>Requests of other sessions do not change what a session loads, whatever they do.\<close>

theorem sessions_isolated:
  assumes "world_ok env w" "session_id c \<noteq> sid"
  shows "snd (mem_load t sid (store_of (fst (multiturn_stage env c w)))) = snd (mem_load t sid (store_of w)) \<and>
    snd (mem_load t sid (store_of (fst (remember_purpose_stage env c w)))) = snd (mem_load t sid (store_of w)) \<and>
    snd (mem_load t sid (store_of (fst (get_last_purpose env (session_id c) w)))) = snd (mem_load t sid (store_of w))"
proof -
  have inv: "store_inv (store_of w)" using assms(1) by (simp add: world_ok_def)
  note other = own_change_other [OF inv _ assms(2) [symmetric]]
  show ?thesis
    using multiturn_ok [OF assms(1), of c] remember_ok [OF assms(1), of c] get_last_purpose_ok [OF assms(1), of "session_id c"]
    by (intro conjI other) (metis prod.collapse)+
qed

theorem sessions_isolated_witness:
  "snd (mem_load 0 (lit ''b'') (store_of (fst (multiturn_stage sample_context_env (sample_ctx ''a'') sample_world)))) = None"
proof -
  have "session_id (sample_ctx ''a'') \<noteq> lit ''b''" by (simp add: sample_ctx_def new_ctx_def)
  from sessions_isolated [OF sample_world_ok this, of 0] show ?thesis
    by (simp add: snd_mem_load sample_world_def store_of_def new_store_def)
qed

text \<open>C28: Loading a session at or after its end, with the database reachable, forgets it and revokes its
  tokens: the state is gone, the next turn starts at risk 0, and no row of the session is live.\<close>

theorem expiry_revokes:
  assumes "world_ok env w" "w_store w = Some (st, True)" "map_of (states st) sid = Some s"
    "ss_expires_at s \<le> w_clock w 0" "w_db w 0"
  shows "snd (load_session env sid w) = None \<and>
    map_of (states (store_of (fst (load_session env sid w)))) sid = None \<and>
    (\<forall>r \<in> set (vrows (w_vault (fst (load_session env sid w)))). vsession r = coerce_session_uuid (c_vault env) sid \<longrightarrow> \<not> live r)"
proof -
  have st: "store_of w = st" using assms(2) by (simp add: store_of_def)
  have l: "store_load (w_clock w 0) sid st = (st\<lparr>states := dict_del sid (states st)\<rparr>, None, [s])"
    using assms(3,4) by (simp add: store_load_def dict_get_def is_expired_def)
  have "ss_id s = sid" using assms(1,3) by (auto simp: world_ok_def store_inv_def st dest!: map_of_SomeD)
  moreover have "hooked w" "w_store (put_store x y) \<noteq> None" for x y
    using assms(2) by (simp_all add: hooked_def put_store_def)
  ultimately have "w_vault (fst (load_session env sid w)) =
      revoke_session (c_vault env) True (w_clock w 1) sid (w_vault w)"
    using assms(2,5) l by (simp add: load_session_def case_prod_beta world_simps st fire_on_expire_fold)
  then show ?thesis using l
    by (auto simp: load_session_store st mem_load_def map_of_dict_del revoke_session_def revoke_where_def live_def)
qed

theorem expiry_revokes_witness:
  "(let w = sample_world\<lparr>w_store := Some (store_save (new_session (-2000) (lit ''s'') None new_store) new_store, True),
       w_vault := fst (tokenize sample_env True 0 (lit ''s'') (lit ''RRN'') (lit ''a'') (Some open_scope) sample_vault)\<rparr>
    in (\<exists>r \<in> set (vrows (w_vault w)). vsession r = coerce_session_uuid sample_env (lit ''s'') \<and> live r) \<and>
       (\<forall>r \<in> set (vrows (w_vault (fst (load_session sample_context_env (lit ''s'') w)))).
          vsession r = coerce_session_uuid sample_env (lit ''s'') \<longrightarrow> \<not> live r))"
proof -
  let ?st = "store_save (new_session (-2000) (lit ''s'') None new_store) new_store"
  let ?v = "fst (tokenize sample_env True 0 (lit ''s'') (lit ''RRN'') (lit ''a'') (Some open_scope) sample_vault)"
  let ?w = "sample_world\<lparr>w_store := Some (?st, True), w_vault := ?v\<rparr>"
  have st: "states ?st = [(lit ''s'', new_session (-2000) (lit ''s'') None new_store)]"
    by (simp add: store_save_def new_store_def)
  have "world_ok sample_context_env ?w"
    using sample_world_ok tokenize_numbered tokenize_unique_live
    by (auto simp: world_ok_def store_of_def st store_inv_def sample_world_def)
  moreover have "fadd (-2000) 1800 \<le> 0" by code_simp
  then have "ss_expires_at (new_session (-2000) (lit ''s'') None new_store) \<le> w_clock ?w 0"
    by (simp add: sample_world_def new_store_def DEFAULT_TTL_SECONDS_def)
  ultimately have "\<forall>r \<in> set (vrows (w_vault (fst (load_session sample_context_env (lit ''s'') ?w)))).
      vsession r = coerce_session_uuid sample_env (lit ''s'') \<longrightarrow> \<not> live r"
    using expiry_revokes [of sample_context_env ?w ?st "lit ''s''" "new_session (-2000) (lit ''s'') None new_store"]
    by (simp add: st sample_world_def sample_context_env_def)
  moreover have "\<exists>r \<in> set (vrows ?v). vsession r = coerce_session_uuid sample_env (lit ''s'') \<and> live r"
  proof (cases rule: tokenize_cases [where env = sample_env and up = True and now = 0 and sid = "lit ''s''" and et = "lit ''RRN''"
      and v = "lit ''a''" and sc = "Some open_scope" and st = sample_vault])
    case (fails st' e)
    have "case snd (tokenize sample_env True 0 (lit ''s'') (lit ''RRN'') (lit ''a'') (Some open_scope) sample_vault) of
        Inl e \<Rightarrow> False | Inr l \<Rightarrow> True" by code_simp
    with fails(1) show ?thesis by simp
  qed (auto simp: sample_vault_def empty_vault_def select_live_hash_def)
  ultimately show ?thesis by (simp add: Let_def)
qed

end
