(* ===== verification/Session_Race.thy ===== *)
theory Session_Race
  imports Context_Stage
begin

text \<open>
  \<open>multiturn_stage\<close> (\<open>app/context/stage.py\<close>) as the threads of the server run it: several requests at once, each in
  steps, over one store. The dict of the store holds references: \<open>load\<close> returns the state object itself and
  \<open>accumulate\<close> (\<open>app/context/accumulator.py\<close>) changes it in place, so two requests of a session that is in the
  store work on one object, while two requests that both find no session make two objects and the later \<open>save\<close> wins.

  A step is an operation of the store (atomic by its lock), one statement of \<open>accumulate\<close> on the state object, the
  registering of one value, or the computation of the score. A schedule is the order in which the requests step.
  A single request that runs alone does what \<open>multiturn_stage\<close> does.
\<close>

section \<open>References and requests\<close>

text \<open>The objects, newest last; the dict of the store; and the rest of the process, whose field for the store is not used.\<close>

record shared =
  sh_heap :: "session_state list"
  sh_dict :: "(pystr \<times> nat) list"
  sh_ttl :: pyfloat
  sh_hook :: bool
  sh_rest :: world

text \<open>Where a request is: the next statement, with the local variables that are live there.\<close>

datatype point =
    Loading
  | Creating
  | Indexing nat
  | Starting nat int
  | Registering nat int pyfloat "span list"
  | Scoring nat int pyfloat
  | Saving nat
  | Reading nat
  | Finished pyfloat
  | Raised py_exn

record request =
  rq_sid :: pystr
  rq_spans :: "span list"
  rq_point :: point

definition deref :: "shared \<Rightarrow> nat \<Rightarrow> session_state" where
  "deref sh r = sh_heap sh ! r"

definition assign :: "nat \<Rightarrow> (session_state \<Rightarrow> session_state) \<Rightarrow> shared \<Rightarrow> shared" where
  "assign r f sh = sh\<lparr>sh_heap := (sh_heap sh)[r := f (sh_heap sh ! r)]\<rparr>"

definition alloc :: "session_state \<Rightarrow> shared \<Rightarrow> shared \<times> nat" where
  "alloc s sh = (sh\<lparr>sh_heap := sh_heap sh @ [s]\<rparr>, length (sh_heap sh))"

definition tick :: "shared \<Rightarrow> shared \<times> pyfloat" where
  "tick sh = (let (w, now) = read_clock (sh_rest sh) in (sh\<lparr>sh_rest := w\<rparr>, now))"

definition shared_load :: "context_env \<Rightarrow> pystr \<Rightarrow> shared \<Rightarrow> shared \<times> nat option" where
  "shared_load env sid sh =
     (let (sh, now) = tick sh in
      case dict_get (sh_dict sh) sid of
        None \<Rightarrow> (sh, None)
      | Some r \<Rightarrow>
          if is_expired now (deref sh r)
          then (sh\<lparr>sh_dict := dict_del sid (sh_dict sh),
                   sh_rest := (if sh_hook sh then default_on_expire env (deref sh r) (sh_rest sh) else sh_rest sh)\<rparr>, None)
          else (sh, Some r))"

definition shared_save :: "nat \<Rightarrow> shared \<Rightarrow> shared" where
  "shared_save r sh = sh\<lparr>sh_dict := dict_set (ss_id (deref sh r)) r (sh_dict sh)\<rparr>"

definition shared_new :: "pystr \<Rightarrow> shared \<Rightarrow> shared \<times> nat" where
  "shared_new sid sh = (let (sh, now) = tick sh in alloc (new_session now sid None \<lparr>states = [], default_ttl = sh_ttl sh\<rparr>) sh)"

section \<open>One statement of a request\<close>

fun step :: "context_env \<Rightarrow> acc_config \<Rightarrow> pystr \<Rightarrow> span list \<Rightarrow> point \<Rightarrow> shared \<Rightarrow> point \<times> shared" where
  "step env cfg sid spans Loading sh =
     (case shared_load env sid sh of (sh, None) \<Rightarrow> (Creating, sh) | (sh, Some r) \<Rightarrow> (Indexing r, sh))"
| "step env cfg sid spans Creating sh = (let (sh, r) = shared_new sid sh in (Indexing r, sh))"
| "step env cfg sid spans (Indexing r) sh = (Starting r (turn_count (deref sh r) + 1), sh)"
| "step env cfg sid spans (Starting r ti) sh =
     (let (sh, now) = tick sh in (Registering r ti now spans, assign r (turn_started ti now) sh))"
| "step env cfg sid spans (Registering r ti now []) sh = (Scoring r ti now, sh)"
| "step env cfg sid spans (Registering r ti now (sp # sps)) sh =
     (case hash_value (c_sha env) (svalue sp) of
        Inl e \<Rightarrow> (Raised e, sh)
      | Inr h \<Rightarrow> (Registering r ti now sps, assign r (\<lambda>s. s\<lparr>entities := register_span ti (stype sp) h (entities s)\<rparr>) sh))"
| "step env cfg sid spans (Scoring r ti now) sh = (Saving r, assign r (scored cfg ti now) sh)"
| "step env cfg sid spans (Saving r) sh = (Reading r, shared_save r sh)"
| "step env cfg sid spans (Reading r) sh = (Finished (ss_risk_score (deref sh r)), sh)"
| "step env cfg sid spans (Finished x) sh = (Finished x, sh)"
| "step env cfg sid spans (Raised e) sh = (Raised e, sh)"

definition advance :: "context_env \<Rightarrow> acc_config \<Rightarrow> request \<Rightarrow> shared \<Rightarrow> request \<times> shared" where
  "advance env cfg q sh = (let (p, sh) = step env cfg (rq_sid q) (rq_spans q) (rq_point q) sh in (q\<lparr>rq_point := p\<rparr>, sh))"

fun run_schedule :: "context_env \<Rightarrow> acc_config \<Rightarrow> nat list \<Rightarrow> request list \<times> shared \<Rightarrow> request list \<times> shared" where
  "run_schedule env cfg [] x = x"
| "run_schedule env cfg (i # sched) (qs, sh) =
     (if i < length qs then let (q, sh) = advance env cfg (qs ! i) sh in run_schedule env cfg sched (qs[i := q], sh)
      else run_schedule env cfg sched (qs, sh))"

definition requests :: "(pystr \<times> span list) list \<Rightarrow> request list" where
  "requests rs = map (\<lambda>(sid, spans). \<lparr>rq_sid = sid, rq_spans = spans, rq_point = Loading\<rparr>) rs"


section \<open>A request alone is the stage\<close>

text \<open>The store of \<open>Context_Stage\<close> that the references stand for.\<close>

definition view :: "session_state list \<Rightarrow> (pystr \<times> nat) list \<Rightarrow> (pystr \<times> session_state) list" where
  "view h d = map (\<lambda>(k, r). (k, h ! r)) d"

definition world_of :: "shared \<Rightarrow> world" where
  "world_of sh = (sh_rest sh)\<lparr>w_store := Some (\<lparr>states = view (sh_heap sh) (sh_dict sh), default_ttl = sh_ttl sh\<rparr>, sh_hook sh)\<rparr>"

text \<open>Keys are distinct, references exist, and every object is filed under its own id.\<close>

definition shared_ok :: "shared \<Rightarrow> bool" where
  "shared_ok sh \<longleftrightarrow> distinct (map fst (sh_dict sh)) \<and>
     (\<forall>(k, r) \<in> set (sh_dict sh). r < length (sh_heap sh) \<and> ss_id (sh_heap sh ! r) = k)"

lemma map_of_view: "map_of (view h d) k = map_option ((!) h) (map_of d k)"
  by (simp add: view_def map_of_map)

lemma view_dict_set: "view h (dict_set k r d) = dict_set k (h ! r) (view h d)"
  by (induction k r d rule: dict_set.induct) (auto simp: view_def)

lemma view_dict_del: "view h (dict_del k d) = dict_del k (view h d)"
  by (induction d) (auto simp: view_def dict_del_def)

lemma view_update_other: "r \<notin> snd ` set d \<Longrightarrow> view (h[r := s]) d = view h d"
  unfolding view_def by (rule map_cong [OF refl]) (auto simp: nth_list_update image_iff)

lemma view_append: "\<forall>(k, r) \<in> set d. r < length h \<Longrightarrow> view (h @ [s]) d = view h d"
  unfolding view_def by (rule map_cong [OF refl]) (auto simp: nth_append)

lemma view_update:
  assumes "distinct (map fst d)" "\<forall>(k', r') \<in> set d. ss_id (h ! r') = k'" "map_of d k = Some r" "r < length h"
  shows "view (h[r := s]) d = dict_set k s (view h d)"
  using assms
proof (induction d)
  case (Cons p d)
  obtain k' r' where p: "p = (k', r')" by (cases p)
  have id: "ss_id (h ! r) = k" using Cons.prems(2) map_of_SomeD [OF Cons.prems(3)] by auto
  show ?case
  proof (cases "k' = k")
    case True
    with Cons.prems(3) have r: "r' = r" by (simp add: p)
    have "r \<notin> snd ` set d"
    proof
      assume "r \<in> snd ` set d"
      then obtain k2 where k2: "(k2, r) \<in> set d" by auto
      then have "k2 = k" using Cons.prems(2) id by auto
      then have "k \<in> fst ` set d" using k2 by force
      then show False using Cons.prems(1) True by (simp add: p)
    qed
    from view_update_other [OF this, of h s] show ?thesis
      using True r Cons.prems(4) by (simp add: p view_def)
  next
    case False
    with Cons.prems(3) have m: "map_of d k = Some r" by (simp add: p)
    have "r' \<noteq> r" using Cons.prems(2) False id by (auto simp: p)
    moreover have "view (h[r := s]) d = dict_set k s (view h d)" using Cons.IH Cons.prems m by simp
    ultimately show ?thesis using False by (simp add: p view_def)
  qed
qed simp

lemma tick_world: "fst (read_clock (world_of sh)) = world_of (fst (tick sh))" "snd (tick sh) = w_clock (sh_rest sh) 0"
  "sh_heap (fst (tick sh)) = sh_heap sh" "sh_dict (fst (tick sh)) = sh_dict sh" "sh_ttl (fst (tick sh)) = sh_ttl sh"
  "sh_hook (fst (tick sh)) = sh_hook sh" "shared_ok (fst (tick sh)) \<longleftrightarrow> shared_ok sh"
  by (simp_all add: tick_def world_of_def read_clock_def shared_ok_def)

lemma world_of_simps: "store_of (world_of sh) = \<lparr>states = view (sh_heap sh) (sh_dict sh), default_ttl = sh_ttl sh\<rparr>"
  "hooked (world_of sh) = sh_hook sh" "w_acc (world_of sh) = w_acc (sh_rest sh)" "w_clock (world_of sh) = w_clock (sh_rest sh)"
  "get_store (world_of sh) = (world_of sh, \<lparr>states = view (sh_heap sh) (sh_dict sh), default_ttl = sh_ttl sh\<rparr>, sh_hook sh)"
  by (simp_all add: world_of_def store_of_def hooked_def get_store_def)

text \<open>Loading or creating, and saving, in both views.\<close>

lemma shared_load_cases:
  assumes "shared_load env sid sh = (sh', ro)"
  obtains (missing) "map_of (sh_dict sh) sid = None" "sh' = fst (tick sh)" "ro = None"
  | (alive) r where "map_of (sh_dict sh) sid = Some r" "\<not> is_expired (w_clock (sh_rest sh) 0) (sh_heap sh ! r)"
      "sh' = fst (tick sh)" "ro = Some r"
  | (expired) r where "map_of (sh_dict sh) sid = Some r" "is_expired (w_clock (sh_rest sh) 0) (sh_heap sh ! r)" "ro = None"
      "sh' = (fst (tick sh))\<lparr>sh_dict := dict_del sid (sh_dict sh), sh_rest := (if sh_hook sh
          then default_on_expire env (sh_heap sh ! r) (sh_rest (fst (tick sh))) else sh_rest (fst (tick sh)))\<rparr>"
proof (cases "map_of (sh_dict sh) sid")
  case None
  with assms show thesis by (intro missing) (simp_all add: shared_load_def case_prod_beta tick_world dict_get_def Let_def)
next
  case (Some r)
  show thesis
  proof (cases "is_expired (w_clock (sh_rest sh) 0) (sh_heap sh ! r)")
    case True
    with Some assms show thesis
      by (intro expired [of r]) (auto simp: shared_load_def case_prod_beta tick_world dict_get_def deref_def Let_def)
  next
    case False
    with Some assms show thesis
      by (intro alive [of r]) (simp_all add: shared_load_def case_prod_beta tick_world dict_get_def deref_def Let_def)
  qed
qed

lemma shared_ok_del: "shared_ok sh \<Longrightarrow> shared_ok (sh\<lparr>sh_dict := dict_del k (sh_dict sh), sh_rest := w\<rparr>)"
  by (auto simp: shared_ok_def dict_del_def distinct_map_filter)

lemma load_world:
  assumes "shared_ok sh" "shared_load env sid sh = (sh', ro)"
  shows "load_session env sid (world_of sh) = (world_of sh', map_option (deref sh') ro)"
    "shared_ok sh'" "ro = map_of (sh_dict sh') sid" "w_acc (sh_rest sh') = w_acc (sh_rest sh)" "sh_heap sh' = sh_heap sh"
proof -
  have fire: "fire_on_expire env [] w = w" for w by (simp add: fire_on_expire_def split: option.split bool.split)
  note unf = load_session_def store_load_def dict_get_def map_of_view get_store_def put_store_def world_of_def tick_def read_clock_def deref_def
    view_dict_del case_prod_beta Let_def
  have "load_session env sid (world_of sh) = (world_of sh', map_option (deref sh') ro) \<and> shared_ok sh' \<and> ro = map_of (sh_dict sh') sid \<and>
      w_acc (sh_rest sh') = w_acc (sh_rest sh) \<and> sh_heap sh' = sh_heap sh"
    using assms(2)
  proof (cases rule: shared_load_cases)
    case missing
    with assms(1) show ?thesis by (simp add: tick_world(7)) (simp add: unf fire)
  next
    case (alive r)
    with assms(1) show ?thesis by (simp add: tick_world(7)) (simp add: unf fire)
  next
    case (expired r)
    have "shared_ok sh'" unfolding expired(4) using shared_ok_del [of "fst (tick sh)", where k = sid] assms(1) by (simp add: tick_world(3-7))
    with expired show ?thesis
      by (cases "sh_hook sh") (simp_all add: map_of_dict_del unf fire_on_expire_def default_on_expire_def connect_def)
  qed
  then show "load_session env sid (world_of sh) = (world_of sh', map_option (deref sh') ro)" "shared_ok sh'"
    "ro = map_of (sh_dict sh') sid" "w_acc (sh_rest sh') = w_acc (sh_rest sh)" "sh_heap sh' = sh_heap sh" by blast+
qed

text \<open>Some number of steps of one request lead from one configuration to another.\<close>

definition goes :: "context_env \<Rightarrow> acc_config \<Rightarrow> pystr \<Rightarrow> span list \<Rightarrow> point \<times> shared \<Rightarrow> point \<times> shared \<Rightarrow> bool" where
  "goes env cfg sid spans x y \<longleftrightarrow> (\<exists>n. ((\<lambda>(p, sh). step env cfg sid spans p sh) ^^ n) x = y)"

lemma goes_refl [simp]: "goes env cfg sid spans x x"
  unfolding goes_def by (intro exI [of _ 0]) simp

lemma goes_step: "goes env cfg sid spans (step env cfg sid spans p sh) y \<Longrightarrow> goes env cfg sid spans (p, sh) y"
  unfolding goes_def by (elim exE, rule_tac x = "Suc n" in exI) (simp only: funpow_Suc_right o_apply prod.case)

lemma goes_trans: "goes env cfg sid spans x y \<Longrightarrow> goes env cfg sid spans y z \<Longrightarrow> goes env cfg sid spans x z"
  unfolding goes_def by (elim exE, rule_tac x = "na + n" in exI) (simp only: funpow_add o_apply)

text \<open>A burst of one request among several, and of a request alone.\<close>

lemma burst:
  assumes "i < length qs"
  shows "run_schedule env cfg (replicate n i @ rest) (qs, sh) =
     (let (p, sh') = ((\<lambda>(p, sh). step env cfg (rq_sid (qs ! i)) (rq_spans (qs ! i)) p sh) ^^ n) (rq_point (qs ! i), sh)
      in run_schedule env cfg rest (qs[i := (qs ! i)\<lparr>rq_point := p\<rparr>], sh'))"
  using assms
proof (induction n arbitrary: qs sh)
  case (Suc n)
  obtain p sh1 where s: "step env cfg (rq_sid (qs ! i)) (rq_spans (qs ! i)) (rq_point (qs ! i)) sh = (p, sh1)" by fastforce
  then have "run_schedule env cfg (replicate (Suc n) i @ rest) (qs, sh) =
      run_schedule env cfg (replicate n i @ rest) (qs[i := (qs ! i)\<lparr>rq_point := p\<rparr>], sh1)"
    using Suc.prems by (simp add: advance_def)
  with Suc.IH [of "qs[i := (qs ! i)\<lparr>rq_point := p\<rparr>]" sh1] Suc.prems s show ?case
    by (simp add: case_prod_beta Let_def funpow_Suc_right del: funpow.simps)
qed simp

lemma solo_schedule:
  "run_schedule env cfg (replicate n 0) ([q], sh) =
     (let (p, sh') = ((\<lambda>(p, sh). step env cfg (rq_sid q) (rq_spans q) p sh) ^^ n) (rq_point q, sh) in ([q\<lparr>rq_point := p\<rparr>], sh'))"
  using burst [of 0 "[q]" env cfg n "[]" sh] by simp

lemma assign_simps [simp]: "sh_dict (assign r f sh) = sh_dict sh" "sh_rest (assign r f sh) = sh_rest sh" "sh_ttl (assign r f sh) = sh_ttl sh"
  "sh_hook (assign r f sh) = sh_hook sh" "length (sh_heap (assign r f sh)) = length (sh_heap sh)"
  "r < length (sh_heap sh) \<Longrightarrow> deref (assign r f sh) r = f (deref sh r)" "r' \<noteq> r \<Longrightarrow> deref (assign r f sh) r' = deref sh r'"
  "r < length (sh_heap sh) \<Longrightarrow> assign r g (assign r f sh) = assign r (g \<circ> f) sh" "assign r (\<lambda>s. s) sh = sh"
  by (simp_all add: assign_def deref_def)

lemma assign_const: "assign r f sh = assign r (\<lambda>_. f (deref sh r)) sh"
  by (simp add: assign_def deref_def)

lemma register_run:
  assumes "r < length (sh_heap sh)" "register_spans (c_sha env) ti sps (deref sh r) = (s', e)"
  shows "goes env cfg sid spans (Registering r ti now sps, sh)
    (case e of None \<Rightarrow> Scoring r ti now | Some x \<Rightarrow> Raised x, assign r (\<lambda>_. s') sh)"
  using assms
proof (induction sps arbitrary: sh)
  case Nil
  then have "s' = deref sh r" "e = None" by simp_all
  then have "assign r (\<lambda>_. s') sh = sh" by (simp add: assign_const [of r "\<lambda>s. s", symmetric])
  then show ?case using \<open>e = None\<close> by (intro goes_step) simp
next
  case (Cons sp sps)
  show ?case
  proof (cases "hash_value (c_sha env) (svalue sp)")
    case (Inl x)
    with Cons.prems(2) have "s' = deref sh r" "e = Some x" by simp_all
    then have "assign r (\<lambda>_. s') sh = sh" by (simp add: assign_const [of r "\<lambda>s. s", symmetric])
    then show ?thesis using Inl \<open>e = Some x\<close> by (intro goes_step) simp
  next
    case (Inr h)
    let ?f = "\<lambda>s. s\<lparr>entities := register_span ti (stype sp) h (entities s)\<rparr>"
    from Cons.IH [of "assign r ?f sh"] Cons.prems Inr show ?thesis by (intro goes_step) (simp add: o_def)
  qed
qed

lemma world_assign_free: "r \<notin> snd ` set (sh_dict sh) \<Longrightarrow> world_of (assign r f sh) = world_of sh"
  by (simp add: world_of_def assign_def view_update_other)

lemma world_assign_filed:
  assumes "shared_ok sh" "map_of (sh_dict sh) sid = Some r" "ss_id s = sid"
  shows "world_of (assign r (\<lambda>_. s) sh) = fst (save_session s (world_of sh))"
proof -
  have "r < length (sh_heap sh)" using assms(1) map_of_SomeD [OF assms(2)] by (auto simp: shared_ok_def)
  moreover have "\<forall>(k, r) \<in> set (sh_dict sh). ss_id (sh_heap sh ! r) = k" "distinct (map fst (sh_dict sh))"
    using assms(1) by (auto simp: shared_ok_def)
  ultimately have "view ((sh_heap sh)[r := s]) (sh_dict sh) = dict_set sid s (view (sh_heap sh) (sh_dict sh))"
    using view_update assms(2) by blast
  with assms(3) show ?thesis
    by (simp add: world_of_def assign_def save_session_def get_store_def put_store_def store_save_def)
qed

lemma world_save: "world_of (shared_save r sh) = fst (save_session (deref sh r) (world_of sh))"
  by (simp add: world_of_def shared_save_def save_session_def get_store_def put_store_def store_save_def view_dict_set deref_def)

lemma shared_ok_assign:
  assumes "shared_ok sh" "\<And>s. ss_id (f s) = ss_id s"
  shows "shared_ok (assign r f sh)"
proof -
  have "ss_id ((sh_heap sh)[r := f (sh_heap sh ! r)] ! b) = ss_id (sh_heap sh ! b)" if "b < length (sh_heap sh)" for b
    using that assms(2) by (cases "b = r") simp_all
  with assms(1) show ?thesis by (auto simp: shared_ok_def assign_def)
qed

lemma shared_ok_alloc: "shared_ok sh \<Longrightarrow> shared_ok (fst (alloc s sh))"
  by (auto simp: shared_ok_def alloc_def nth_append less_Suc_eq)

lemma shared_ok_save: "shared_ok sh \<Longrightarrow> r < length (sh_heap sh) \<Longrightarrow> shared_ok (shared_save r sh)"
  by (auto simp: shared_ok_def shared_save_def deref_def dest!: dict_set_items)

text \<open>Loading, or creating where nothing was loaded.\<close>

lemma prepare_run:
  assumes "shared_ok sh" "\<not> c_loop env"
  obtains r sh2 b where "goes env cfg sid spans (Loading, sh) (Indexing r, sh2)"
    "load_or_new env sid (world_of sh) = (world_of sh2, Inr (deref sh2 r, b))" "r < length (sh_heap sh2)" "ss_id (deref sh2 r) = sid"
    "if b then map_of (sh_dict sh2) sid = Some r else r \<notin> snd ` set (sh_dict sh2)" "shared_ok sh2" "w_acc (sh_rest sh2) = w_acc (sh_rest sh)"
proof -
  obtain sh1 ro where l: "shared_load env sid sh = (sh1, ro)" by fastforce
  note w = load_world [OF assms(1) l]
  have ln: "load_or_new env sid (world_of sh) = (case ro of Some r \<Rightarrow> (world_of sh1, Inr (deref sh1 r, True))
      | None \<Rightarrow> let (w, s) = fresh_session sid (world_of sh1) in (w, Inr (s, False)))"
    using assms(2) by (simp add: load_or_new_def run_sync_def world_of_simps w(1) split: option.split)
  show thesis
  proof (cases ro)
    case (Some r)
    then have "r < length (sh_heap sh1) \<and> ss_id (deref sh1 r) = sid" using w(2,3) by (auto simp: shared_ok_def deref_def dest!: map_of_SomeD)
    with that [where r = r and ?sh2.0 = sh1 and b = True] Some w l ln show thesis by (simp add: goes_step)
  next
    case None
    obtain sh2 r where n: "shared_new sid sh1 = (sh2, r)" by fastforce
    let ?t = "fst (tick sh1)" and ?s = "new_session (w_clock (sh_rest sh1) 0) sid None \<lparr>states = [], default_ttl = sh_ttl sh1\<rparr>"
    have sh2: "sh2 = ?t\<lparr>sh_heap := sh_heap sh1 @ [?s]\<rparr>" "r = length (sh_heap sh1)"
      using n by (auto simp: shared_new_def alloc_def case_prod_beta tick_world)
    have ok: "shared_ok sh2" using shared_ok_alloc [of ?t ?s] w(2) by (simp add: sh2(1) alloc_def tick_world)
    have free: "r \<notin> snd ` set (sh_dict sh2)" using w(2) by (auto simp: sh2 shared_ok_def tick_world)
    have "\<forall>(k, r) \<in> set (sh_dict sh1). r < length (sh_heap sh1)" using w(2) by (auto simp: shared_ok_def)
    then have world: "world_of sh2 = fst (read_clock (world_of sh1))"
      unfolding sh2 by (simp add: world_of_def tick_def read_clock_def view_append)
    have d: "deref sh2 r = ?s" by (simp add: sh2 deref_def)
    have "load_or_new env sid (world_of sh) = (world_of sh2, Inr (deref sh2 r, False))"
      unfolding ln d world using None by (simp add: fresh_session_def world_of_simps read_clock_simps case_prod_beta new_session_def Let_def)
    moreover have "goes env cfg sid spans (Loading, sh) (Indexing r, sh2)" by (intro goes_step) (simp add: l None, intro goes_step, simp add: n)
    moreover have "w_acc (sh_rest sh2) = w_acc (sh_rest sh)" using w(4) by (simp add: sh2 tick_def read_clock_def)
    ultimately show thesis using that [where r = r and ?sh2.0 = sh2 and b = False] ok free d by (simp add: sh2 tick_world)
  qed
qed

lemma dict_set_twice: "dict_set k v (dict_set k u d) = dict_set k v d"
  by (induction k u d rule: dict_set.induct) auto

lemma save_twice: "fst (save_session s (fst (save_session s w))) = fst (save_session s w)"
  by (simp add: save_session_def get_store_def put_store_def store_save_def dict_set_twice split: option.split)

lemma multiturn_run:
  assumes "shared_ok sh" "\<not> c_loop env" "w_acc (sh_rest sh) = Some cfg"
  shows "\<exists>p sh'. goes env cfg (session_id c) (new_turn_spans c) (Loading, sh) (p, sh') \<and>
    fst (multiturn_stage env c (world_of sh)) = world_of sh' \<and>
    p = (case snd (multiturn_stage env c (world_of sh)) of Inl e \<Rightarrow> Raised e | Inr c' \<Rightarrow> Finished (risk_score c'))"
proof -
  let ?sid = "session_id c" and ?sps = "new_turn_spans c"
  obtain r sh2 b where pr: "goes env cfg ?sid ?sps (Loading, sh) (Indexing r, sh2)"
    "load_or_new env ?sid (world_of sh) = (world_of sh2, Inr (deref sh2 r, b))" "r < length (sh_heap sh2)" "ss_id (deref sh2 r) = ?sid"
    "if b then map_of (sh_dict sh2) ?sid = Some r else r \<notin> snd ` set (sh_dict sh2)" "shared_ok sh2" "w_acc (sh_rest sh2) = w_acc (sh_rest sh)"
    using assms(1,2) by (rule prepare_run)
  let ?ti = "turn_count (deref sh2 r) + 1" and ?now = "w_clock (sh_rest sh2) 0" and ?t = "fst (tick sh2)"
  let ?s1 = "turn_started ?ti ?now (deref sh2 r)" and ?sh3 = "assign r (turn_started ?ti ?now) ?t"
  have t: "r < length (sh_heap ?t)" "deref ?t r = deref sh2 r" "shared_ok ?t" "sh_dict ?t = sh_dict sh2" using pr(3,6) by (simp_all add: tick_world deref_def)
  have start: "goes env cfg ?sid ?sps (Loading, sh) (Registering r ?ti ?now ?sps, ?sh3)"
    by (rule goes_trans [OF pr(1)], intro goes_step) (simp, intro goes_step, simp add: case_prod_beta tick_world Let_def)
  obtain s2 e where reg: "register_spans (c_sha env) ?ti ?sps ?s1 = (s2, e)" by fastforce
  have "register_spans (c_sha env) ?ti ?sps (deref ?sh3 r) = (s2, e)" using reg t(1,2) by simp
  from register_run [OF _ this, where cfg = cfg and sid = ?sid and spans = ?sps and now = ?now] t(1) have
    "goes env cfg ?sid ?sps (Registering r ?ti ?now ?sps, ?sh3)
      (case e of None \<Rightarrow> Scoring r ?ti ?now | Some x \<Rightarrow> Raised x, assign r (\<lambda>_. s2) ?t)" by (simp add: o_def)
  then have run: "goes env cfg ?sid ?sps (Loading, sh) (case e of None \<Rightarrow> Scoring r ?ti ?now | Some x \<Rightarrow> Raised x, assign r (\<lambda>_. s2) ?t)"
    by (rule goes_trans [OF start])
  have id: "ss_id s2 = ?sid" using register_spans_fields [OF reg] pr(4) by simp
  have mt: "multiturn_stage env c (world_of sh) =
      (case accumulate (c_sha env) cfg ?sps ?ti ?now (deref sh2 r) of
         (s, Inl e) \<Rightarrow> (if b then fst (save_session s (world_of ?t)) else world_of ?t, Inl e)
       | (s, Inr reasons) \<Rightarrow> (fst (save_session s (world_of ?t)), Inr (c\<lparr>risk_score := ss_risk_score s, accumulated := group_by_type ?sps []\<rparr>)))"
    using assms(2,3) pr(2)
    by (simp add: multiturn_stage_def world_of_simps get_accumulator_config_def run_sync_def case_prod_beta Let_def read_clock_simps tick_world
      split: prod.split sum.split)
  show ?thesis
  proof (cases rule: accumulate_cases [where sha = "c_sha env" and cfg = cfg and sps = ?sps and ti = ?ti and now = ?now and s = "deref sh2 r"])
    case (raised s1 x)
    with reg have s: "s1 = s2" "e = Some x" by simp_all
    have "world_of (assign r (\<lambda>_. s2) ?t) = (if b then fst (save_session s2 (world_of ?t)) else world_of ?t)"
      using world_assign_filed [OF t(3) _ id, where r = r] world_assign_free [of r ?t] pr(5) t(4) by (auto split: if_splits)
    with run raised(2) s mt show ?thesis
      by (intro exI [of _ "Raised x"] exI [of _ "assign r (\<lambda>_. s2) ?t"]) simp
  next
    case (completed s1)
    with reg have s: "s1 = s2" "e = None" by simp_all
    let ?s3 = "scored cfg ?ti ?now s2" and ?sh4 = "assign r (\<lambda>_. scored cfg ?ti ?now s2) ?t"
    have "goes env cfg ?sid ?sps (Scoring r ?ti ?now, assign r (\<lambda>_. s2) ?t) (Finished (ss_risk_score ?s3), shared_save r ?sh4)"
      using t(1) by (intro goes_step) (simp add: o_def, intro goes_step, simp, intro goes_step, simp add: shared_save_def deref_def assign_def)
    with run s have "goes env cfg ?sid ?sps (Loading, sh) (Finished (ss_risk_score ?s3), shared_save r ?sh4)"
      by (auto intro: goes_trans)
    moreover have "world_of (shared_save r ?sh4) = fst (save_session ?s3 (world_of ?t))"
      unfolding world_save using t(1) id
      by (cases b) (use world_assign_filed [OF t(3), where sid = ?sid and r = r and s = ?s3] world_assign_free [of r ?t] pr(5) t(4) save_twice in auto)
    ultimately show ?thesis using completed(2) s mt
      by (intro exI [of _ "Finished (ss_risk_score ?s3)"] exI [of _ "shared_save r ?sh4"]) simp
  qed
qed


section \<open>What every schedule keeps\<close>

fun ref_of :: "point \<Rightarrow> nat option" where
  "ref_of (Indexing r) = Some r"
| "ref_of (Starting r ti) = Some r"
| "ref_of (Registering r ti now sps) = Some r"
| "ref_of (Scoring r ti now) = Some r"
| "ref_of (Saving r) = Some r"
| "ref_of (Reading r) = Some r"
| "ref_of p = None"

text \<open>The object of a request exists and has the request's session.\<close>

definition point_ok :: "pystr \<Rightarrow> shared \<Rightarrow> point \<Rightarrow> bool" where
  "point_ok sid sh p \<longleftrightarrow> (\<forall>r. ref_of p = Some r \<longrightarrow> r < length (sh_heap sh) \<and> ss_id (deref sh r) = sid)"

text \<open>Only objects of \<open>sid\<close> and its entry of the dict change; objects keep their session and expiry; entities stay.\<close>

definition only :: "pystr \<Rightarrow> shared \<Rightarrow> shared \<Rightarrow> bool" where
  "only sid sh sh' \<longleftrightarrow> length (sh_heap sh) \<le> length (sh_heap sh') \<and>
     (\<forall>r < length (sh_heap sh). ss_id (deref sh' r) = ss_id (deref sh r) \<and> ss_expires_at (deref sh' r) = ss_expires_at (deref sh r) \<and>
        fst ` set (entities (deref sh r)) \<subseteq> fst ` set (entities (deref sh' r)) \<and> (ss_id (deref sh r) \<noteq> sid \<longrightarrow> deref sh' r = deref sh r)) \<and>
     (\<forall>k. k \<noteq> sid \<longrightarrow> map_of (sh_dict sh') k = map_of (sh_dict sh) k) \<and> range (w_clock (sh_rest sh')) \<subseteq> range (w_clock (sh_rest sh))"

lemma only_refl [simp]: "only sid sh sh"
  by (simp add: only_def)

lemma only_trans:
  assumes "only sid sh sh1" "only sid sh1 sh2"
  shows "only sid sh sh2"
proof -
  have "ss_id (deref sh2 r) = ss_id (deref sh r) \<and> ss_expires_at (deref sh2 r) = ss_expires_at (deref sh r) \<and>
      fst ` set (entities (deref sh r)) \<subseteq> fst ` set (entities (deref sh2 r)) \<and> (ss_id (deref sh r) \<noteq> sid \<longrightarrow> deref sh2 r = deref sh r)"
    if "r < length (sh_heap sh)" for r
  proof -
    have "r < length (sh_heap sh1)" using that assms(1) by (simp add: only_def)
    with that assms have "ss_id (deref sh1 r) = ss_id (deref sh r)" "ss_id (deref sh2 r) = ss_id (deref sh1 r)"
      "ss_expires_at (deref sh1 r) = ss_expires_at (deref sh r)" "ss_expires_at (deref sh2 r) = ss_expires_at (deref sh1 r)"
      "fst ` set (entities (deref sh r)) \<subseteq> fst ` set (entities (deref sh1 r))"
      "fst ` set (entities (deref sh1 r)) \<subseteq> fst ` set (entities (deref sh2 r))"
      "ss_id (deref sh r) \<noteq> sid \<longrightarrow> deref sh1 r = deref sh r" "ss_id (deref sh1 r) \<noteq> sid \<longrightarrow> deref sh2 r = deref sh1 r"
      by (simp_all add: only_def)
    then show ?thesis by auto
  qed
  moreover have "range (w_clock (sh_rest sh2)) \<subseteq> range (w_clock (sh_rest sh))"
    by (rule subset_trans [of _ "range (w_clock (sh_rest sh1))"]) (use assms in \<open>simp_all add: only_def\<close>)
  moreover have "length (sh_heap sh) \<le> length (sh_heap sh2)" using assms by (simp add: only_def)
  moreover have "map_of (sh_dict sh2) k = map_of (sh_dict sh) k" if "k \<noteq> sid" for k using assms that by (simp add: only_def)
  ultimately show ?thesis unfolding only_def by simp
qed

lemma tick_only: "only sid sh (fst (tick sh))"
  by (auto simp: only_def tick_def read_clock_def deref_def)

lemma load_only: "shared_load env sid sh = (sh', ro) \<Longrightarrow> only sid sh sh'"
  by (cases rule: shared_load_cases, assumption)
    (auto simp: only_def tick_def read_clock_def deref_def map_of_dict_del default_on_expire_def connect_def Let_def)

lemma assign_only:
  assumes "r < length (sh_heap sh)" "ss_id (deref sh r) = sid" "\<And>s. ss_id (f s) = ss_id s" "\<And>s. ss_expires_at (f s) = ss_expires_at s"
    "\<And>s. fst ` set (entities s) \<subseteq> fst ` set (entities (f s))"
  shows "only sid sh (assign r f sh)"
proof -
  have d: "deref (assign r f sh) r' = (if r' = r then f (deref sh r) else deref sh r')" for r' using assms(1) by simp
  show ?thesis using assms(2-5) by (simp add: only_def d)
qed

lemma register_keys: "fst ` set d \<subseteq> fst ` set (register_span ti t h d)" "(t, h) \<in> fst ` set (register_span ti t h d)"
proof -
  have k: "fst ` set (dict_set (t, h) v d) = insert (t, h) (fst ` set d)" for v :: entity_record
    using arg_cong [OF dict_set_keys [of "(t, h)" v d], of set] by (auto split: if_splits)
  show "fst ` set d \<subseteq> fst ` set (register_span ti t h d)" "(t, h) \<in> fst ` set (register_span ti t h d)"
    by (auto simp: register_span_def k split: option.splits)
qed

lemma point_ok_ref: "point_ok sid sh p \<Longrightarrow> ref_of p = Some r \<Longrightarrow> r < length (sh_heap sh)"
  "point_ok sid sh p \<Longrightarrow> ref_of p = Some r \<Longrightarrow> ss_id (deref sh r) = sid"
  by (simp_all add: point_ok_def)

lemma point_ok_only: "point_ok sid sh p \<Longrightarrow> only k sh sh' \<Longrightarrow> point_ok sid sh' p"
  by (auto simp: point_ok_def only_def)

lemma new_facts:
  assumes "shared_new sid sh = (sh', r)" "shared_ok sh"
  shows "only sid sh sh'" "shared_ok sh'" "r = length (sh_heap sh)" "length (sh_heap sh') = Suc r" "ss_id (deref sh' r) = sid"
    "sh_dict sh' = sh_dict sh"
proof -
  let ?s = "new_session (w_clock (sh_rest sh) 0) sid None \<lparr>states = [], default_ttl = sh_ttl sh\<rparr>" and ?t = "fst (tick sh)"
  have e: "sh' = fst (alloc ?s ?t)" "r = length (sh_heap sh)"
    using assms(1) by (auto simp: shared_new_def alloc_def case_prod_beta tick_world)
  show "only sid sh sh'" "r = length (sh_heap sh)" "length (sh_heap sh') = Suc r" "ss_id (deref sh' r) = sid" "sh_dict sh' = sh_dict sh"
    using e by (auto simp: only_def alloc_def tick_def read_clock_def deref_def nth_append)
  show "shared_ok sh'" unfolding e(1) by (rule shared_ok_alloc) (simp add: tick_world assms(2))
qed

lemma step_facts:
  assumes "step env cfg sid spans p sh = (p', sh')" "shared_ok sh" "point_ok sid sh p"
  shows "shared_ok sh' \<and> only sid sh sh' \<and> point_ok sid sh' p'"
proof -
  have set: "shared_ok (assign r f sh0) \<and> only sid sh (assign r f sh0) \<and> point_ok sid (assign r f sh0) q"
    if "r < length (sh_heap sh)" "ss_id (deref sh r) = sid" "\<And>s. ss_id (f s) = ss_id s" "\<And>s. ss_expires_at (f s) = ss_expires_at s"
      "\<And>s. fst ` set (entities s) \<subseteq> fst ` set (entities (f s))" "sh0 = sh \<or> sh0 = fst (tick sh)" "ref_of q = Some r" for r f sh0 q
  proof -
    have o: "only sid sh sh0" "shared_ok sh0" "length (sh_heap sh0) = length (sh_heap sh)" "deref sh0 r = deref sh r"
      using that(6) assms(2) tick_only by (auto simp: tick_world deref_def)
    have a: "only sid sh0 (assign r f sh0)" using o(3,4) that(1-5) by (intro assign_only) simp_all
    have "only sid sh (assign r f sh0)" by (rule only_trans [OF o(1) a])
    moreover have "point_ok sid (assign r f sh0) q" using that(1-3,7) o(3,4) by (simp add: point_ok_def)
    ultimately show ?thesis using shared_ok_assign [OF o(2) that(3)] by blast
  qed
  show ?thesis
  proof (cases p)
    case Loading
    obtain sh1 ro where l: "shared_load env sid sh = (sh1, ro)" by fastforce
    note w = load_world [OF assms(2) l]
    have "point_ok sid sh1 (case ro of None \<Rightarrow> Creating | Some r \<Rightarrow> Indexing r)"
      using w(2,3) by (auto simp: point_ok_def shared_ok_def deref_def dest!: map_of_SomeD split: option.splits)
    with w(2) load_only [OF l] assms(1) Loading l show ?thesis by (auto split: option.splits)
  next
    case Creating
    obtain sh1 r where n: "shared_new sid sh = (sh1, r)" by fastforce
    from new_facts [OF this assms(2)] assms(1) Creating n show ?thesis by (auto simp: point_ok_def)
  next
    case (Indexing r)
    with assms show ?thesis by (auto simp: point_ok_def)
  next
    case (Starting r ti)
    with assms(1) set [of r "turn_started ti (snd (tick sh))" "fst (tick sh)" p'] point_ok_ref [OF assms(3)] show ?thesis
      by (auto simp: case_prod_beta)
  next
    case (Registering r ti now sps)
    then have ref: "r < length (sh_heap sh)" "ss_id (deref sh r) = sid" using point_ok_ref [OF assms(3)] by simp_all
    show ?thesis
    proof (cases sps)
      case Nil
      with assms Registering ref show ?thesis by (auto simp: point_ok_def)
    next
      case (Cons sp sps')
      show ?thesis
      proof (cases "hash_value (c_sha env) (svalue sp)")
        case (Inl e)
        with assms Registering Cons show ?thesis by (auto simp: point_ok_def)
      next
        case (Inr h)
        let ?f = "\<lambda>s. s\<lparr>entities := register_span ti (stype sp) h (entities s)\<rparr>"
        have "p' = Registering r ti now sps'" "sh' = assign r ?f sh" using assms(1) Registering Cons Inr by simp_all
        with set [of r ?f sh p'] ref register_keys(1) show ?thesis by simp
      qed
    qed
  next
    case (Scoring r ti now)
    with assms(1) set [of r "scored cfg ti now" sh p'] point_ok_ref [OF assms(3)] show ?thesis by auto
  next
    case (Saving r)
    then have "sh' = shared_save r sh" "p' = Reading r" "r < length (sh_heap sh)" "ss_id (deref sh r) = sid"
      using assms(1) point_ok_ref [OF assms(3)] by auto
    then show ?thesis using shared_ok_save [OF assms(2)]
      by (auto simp: only_def shared_save_def deref_def point_ok_def)
  next
    case (Reading r)
    with assms show ?thesis by (auto simp: point_ok_def)
  qed (use assms in auto)
qed

text \<open>An invariant of one step holds after every schedule.\<close>

lemma schedule_invariant:
  assumes "run_schedule env cfg sched (qs, sh) = (qs', sh')" "I qs sh"
    "\<And>qs sh i q' sh'. I qs sh \<Longrightarrow> i < length qs \<Longrightarrow> advance env cfg (qs ! i) sh = (q', sh') \<Longrightarrow> I (qs[i := q']) sh'"
  shows "I qs' sh'"
  using assms(1,2)
proof (induction sched arbitrary: qs sh)
  case (Cons i sched)
  show ?case
  proof (cases "i < length qs")
    case True
    obtain q1 sh1 where a: "advance env cfg (qs ! i) sh = (q1, sh1)" by fastforce
    with Cons.IH [of "qs[i := q1]" sh1] Cons.prems True assms(3) [OF Cons.prems(2) True a] show ?thesis by simp
  next
    case False
    with Cons show ?thesis by simp
  qed
qed simp

definition requests_ok :: "request list \<Rightarrow> shared \<Rightarrow> bool" where
  "requests_ok qs sh \<longleftrightarrow> shared_ok sh \<and> (\<forall>q \<in> set qs. point_ok (rq_sid q) sh (rq_point q))"

lemma requests_ok_start: "shared_ok sh \<Longrightarrow> requests_ok (requests rs) sh"
  by (auto simp: requests_ok_def requests_def point_ok_def)

lemma advance_ok:
  assumes "requests_ok qs sh" "i < length qs" "advance env cfg (qs ! i) sh = (q', sh')"
  shows "requests_ok (qs[i := q']) sh'" "only (rq_sid (qs ! i)) sh sh'" "rq_sid q' = rq_sid (qs ! i)" "rq_spans q' = rq_spans (qs ! i)"
    "step env cfg (rq_sid (qs ! i)) (rq_spans (qs ! i)) (rq_point (qs ! i)) sh = (rq_point q', sh')"
proof -
  obtain p where p: "step env cfg (rq_sid (qs ! i)) (rq_spans (qs ! i)) (rq_point (qs ! i)) sh = (p, sh')" "q' = (qs ! i)\<lparr>rq_point := p\<rparr>"
    using assms(3) by (auto simp: advance_def split: prod.splits)
  then show "step env cfg (rq_sid (qs ! i)) (rq_spans (qs ! i)) (rq_point (qs ! i)) sh = (rq_point q', sh')" by simp
  have "shared_ok sh" "point_ok (rq_sid (qs ! i)) sh (rq_point (qs ! i))" using assms(1,2) by (auto simp: requests_ok_def)
  note f = step_facts [OF p(1) this]
  show "only (rq_sid (qs ! i)) sh sh'" "rq_sid q' = rq_sid (qs ! i)" "rq_spans q' = rq_spans (qs ! i)" using f p(2) by simp_all
  show "requests_ok (qs[i := q']) sh'"
    using f p(2) assms(1) point_ok_only by (auto simp: requests_ok_def dest!: set_update_subset_insert [THEN subsetD])
qed

text \<open>What a session finds in the store, by its key.\<close>

lemma mem_load_shared: "snd (mem_load t k (store_of (world_of sh))) =
    (case map_of (sh_dict sh) k of None \<Rightarrow> None | Some r \<Rightarrow> if is_expired t (deref sh r) then None else Some (deref sh r))"
  by (simp add: snd_mem_load world_of_simps map_of_view deref_def split: option.split)

lemma only_other:
  assumes "only sid sh sh'" "shared_ok sh" "k \<noteq> sid"
  shows "snd (mem_load t k (store_of (world_of sh'))) = snd (mem_load t k (store_of (world_of sh)))"
proof -
  have m: "map_of (sh_dict sh') k = map_of (sh_dict sh) k" using assms(1,3) by (simp add: only_def)
  have "deref sh' r = deref sh r" if "map_of (sh_dict sh) k = Some r" for r
    using assms map_of_SomeD [OF that] by (auto simp: only_def shared_ok_def deref_def)
  then show ?thesis by (simp add: mem_load_shared m split: option.split)
qed

text \<open>While a session is in the store, its requests work on the object \<open>r0\<close> and what they have registered stays in it.\<close>

definition recorded :: "context_env \<Rightarrow> span list \<Rightarrow> session_state \<Rightarrow> bool" where
  "recorded env sps s \<longleftrightarrow> (\<forall>sp \<in> set sps. \<exists>h. hash_value (c_sha env) (svalue sp) = Inr h \<and> (stype sp, h) \<in> fst ` set (entities s))"

fun progress :: "context_env \<Rightarrow> span list \<Rightarrow> nat \<Rightarrow> session_state \<Rightarrow> point \<Rightarrow> bool" where
  "progress env spans r0 s Creating \<longleftrightarrow> False"
| "progress env spans r0 s (Indexing r) \<longleftrightarrow> r = r0"
| "progress env spans r0 s (Starting r ti) \<longleftrightarrow> r = r0"
| "progress env spans r0 s (Registering r ti now sps) \<longleftrightarrow> r = r0 \<and> (\<exists>done. spans = done @ sps \<and> recorded env done s)"
| "progress env spans r0 s (Scoring r ti now) \<longleftrightarrow> r = r0 \<and> recorded env spans s"
| "progress env spans r0 s (Saving r) \<longleftrightarrow> r = r0 \<and> recorded env spans s"
| "progress env spans r0 s (Reading r) \<longleftrightarrow> r = r0 \<and> recorded env spans s"
| "progress env spans r0 s (Finished x) \<longleftrightarrow> recorded env spans s"
| "progress env spans r0 s p \<longleftrightarrow> True"

lemma recorded_mono: "recorded env sps s \<Longrightarrow> fst ` set (entities s) \<subseteq> fst ` set (entities s') \<Longrightarrow> recorded env sps s'"
  unfolding recorded_def by blast

lemma progress_mono:
  assumes "progress env spans r0 s p" "fst ` set (entities s) \<subseteq> fst ` set (entities s')"
  shows "progress env spans r0 s' p"
  using assms(1) recorded_mono [OF _ assms(2)] by (cases p) auto

lemma progress_step:
  assumes "step env cfg sid spans p sh = (p', sh')" "shared_ok sh" "point_ok sid sh p" "map_of (sh_dict sh) sid = Some r0"
    "\<not> is_expired (w_clock (sh_rest sh) 0) (deref sh r0)" "progress env spans r0 (deref sh r0) p"
  shows "map_of (sh_dict sh') sid = Some r0 \<and> progress env spans r0 (deref sh' r0) p'"
proof (cases p)
  case Loading
  have "shared_load env sid sh = (fst (tick sh), Some r0)"
    using assms(4,5) by (simp add: shared_load_def case_prod_beta tick_world dict_get_def deref_def Let_def)
  then show ?thesis using assms(1,4) Loading by (auto simp: tick_world)
next
  case (Starting r ti)
  with assms(1,4,6) show ?thesis by (auto simp: case_prod_beta recorded_def tick_world)
next
  case (Registering r ti now sps)
  then have r: "r = r0" "r0 < length (sh_heap sh)" using assms(6) point_ok_ref(1) [OF assms(3)] by auto
  obtain prev where prev: "spans = prev @ sps" "recorded env prev (deref sh r0)" using assms(6) Registering by auto
  show ?thesis
  proof (cases sps)
    case Nil
    with assms(1,4) Registering r prev show ?thesis by auto
  next
    case (Cons sp sps')
    show ?thesis
    proof (cases "hash_value (c_sha env) (svalue sp)")
      case (Inl e)
      with assms(1,4) Registering Cons show ?thesis by auto
    next
      case (Inr h)
      let ?f = "\<lambda>s. s\<lparr>entities := register_span ti (stype sp) h (entities s)\<rparr>"
      have e: "p' = Registering r0 ti now sps'" "sh' = assign r0 ?f sh" using assms(1) Registering Cons Inr r(1) by simp_all
      have "recorded env prev (?f (deref sh r0))" by (rule recorded_mono [OF prev(2)]) (simp add: register_keys)
      then have "recorded env (prev @ [sp]) (?f (deref sh r0))" using Inr register_keys(2) [of "stype sp" h ti]
        by (auto simp: recorded_def)
      moreover have "deref sh' r0 = ?f (deref sh r0)" using r(2) by (simp add: e(2))
      moreover have "spans = (prev @ [sp]) @ sps'" using prev(1) Cons by simp
      ultimately show ?thesis using assms(4) by (auto simp: e intro!: exI [of _ "prev @ [sp]"])
    qed
  qed
next
  case (Scoring r ti now)
  with assms(1,4,6) point_ok_ref(1) [OF assms(3)] show ?thesis by (auto simp: recorded_def)
next
  case (Saving r)
  then have "ss_id (deref sh r0) = sid" using assms(6) point_ok_ref(2) [OF assms(3)] by auto
  with assms(1,4,6) Saving show ?thesis by (auto simp: shared_save_def deref_def)
qed (use assms in auto)

section \<open>Sample processes\<close>

text \<open>One value in a new session, and one more in the session \<open>r\<close>.\<close>

definition first_value :: "acc_config \<Rightarrow> pystr \<Rightarrow> pyfloat \<Rightarrow> pystr \<Rightarrow> pystr \<Rightarrow> session_state" where
  "first_value cfg sid ttl t h = scored cfg 1 0 ((turn_started 1 0 (new_session 0 sid None \<lparr>states = [], default_ttl = ttl\<rparr>))\<lparr>entities := register_span 1 t h []\<rparr>)"

definition next_value :: "acc_config \<Rightarrow> pystr \<Rightarrow> pystr \<Rightarrow> session_state \<Rightarrow> session_state" where
  "next_value cfg t h s = (let ti = turn_count s + 1 in scored cfg ti 0 ((turn_started ti 0 s)\<lparr>entities := register_span ti t h (entities s)\<rparr>))"

lemma create_burst:
  assumes "hash_value (c_sha env) (svalue sp) = Inr h" "w_clock (sh_rest sh) = (\<lambda>k. 0)"
  shows "((\<lambda>(p, sh). step env cfg sid [sp] p sh) ^^ 8) (Creating, sh) =
    (let s = first_value cfg sid (sh_ttl sh) (stype sp) h
     in (Finished (ss_risk_score s), sh\<lparr>sh_heap := sh_heap sh @ [s], sh_dict := dict_set sid (length (sh_heap sh)) (sh_dict sh)\<rparr>))"
proof -
  have w: "(sh_rest sh)\<lparr>w_clock := \<lambda>k. 0\<rparr> = sh_rest sh" using assms(2) by simp
  show ?thesis
    using assms by (simp add: eval_nat_numeral shared_new_def tick_def read_clock_def alloc_def deref_def assign_def shared_save_def
      first_value_def Let_def w nth_append)
qed

lemma value_simps:
  "entities (first_value cfg sid ttl t h) = register_span 1 t h []" "turn_count (first_value cfg sid ttl t h) = 1"
  "ss_expires_at (first_value cfg sid ttl t h) = fadd 0 ttl" "ss_id (first_value cfg sid ttl t h) = sid"
  "entities (next_value cfg t h s) = register_span (turn_count s + 1) t h (entities s)" "turn_count (next_value cfg t h s) = turn_count s + 1"
  "ss_expires_at (next_value cfg t h s) = ss_expires_at s" "ss_id (next_value cfg t h s) = ss_id s"
  by (simp_all add: first_value_def next_value_def new_session_def Let_def)

lemma load_burst:
  assumes "hash_value (c_sha env) (svalue sp) = Inr h" "w_clock (sh_rest sh) = (\<lambda>k. 0)" "map_of (sh_dict sh) sid = Some r"
    "r < length (sh_heap sh)" "0 < ss_expires_at (sh_heap sh ! r)" "ss_id (sh_heap sh ! r) = sid"
  shows "((\<lambda>(p, sh). step env cfg sid [sp] p sh) ^^ 8) (Loading, sh) =
    (let s = next_value cfg (stype sp) h (sh_heap sh ! r)
     in (Finished (ss_risk_score s), sh\<lparr>sh_heap := (sh_heap sh)[r := s], sh_dict := dict_set sid r (sh_dict sh)\<rparr>))"
proof -
  have w: "(sh_rest sh)\<lparr>w_clock := \<lambda>k. 0\<rparr> = sh_rest sh" using assms(2) by simp
  show ?thesis
    using assms by (simp add: eval_nat_numeral shared_load_def dict_get_def is_expired_def tick_def read_clock_def deref_def assign_def
      shared_save_def next_value_def Let_def w)
qed

definition empty_shared :: shared where
  "empty_shared = \<lparr>sh_heap = [], sh_dict = [], sh_ttl = DEFAULT_TTL_SECONDS, sh_hook = True, sh_rest = sample_world\<lparr>w_acc := Some DEFAULT_CONFIG\<rparr>\<rparr>"

text \<open>The process with one session in its store.\<close>

definition known_shared :: shared where
  "known_shared = empty_shared\<lparr>sh_heap := [new_session 0 (lit ''s'') None new_store], sh_dict := [(lit ''s'', 0)]\<rparr>"

lemma sample_shared_ok: "shared_ok empty_shared" "shared_ok known_shared"
  by (simp_all add: shared_ok_def empty_shared_def known_shared_def)

lemma known_shared_facts: "map_of (sh_dict known_shared) (lit ''s'') = Some 0" "deref known_shared 0 = new_session 0 (lit ''s'') None new_store"
  "w_clock (sh_rest known_shared) = (\<lambda>k. 0)" "0 < ss_expires_at (new_session 0 (lit ''s'') None new_store)"
proof -
  have "0 < fadd 0 DEFAULT_TTL_SECONDS" by code_simp
  then show "0 < ss_expires_at (new_session 0 (lit ''s'') None new_store)" by (simp add: new_session_def new_store_def)
qed (simp_all add: known_shared_def empty_shared_def deref_def sample_world_def)

section \<open>Properties\<close>

text \<open>C8: A request that no other request interrupts does exactly what \<open>multiturn_stage\<close> does: the same store, vault, clock
  and verdict, whether the session is new, known or expired and whether a value can be hashed or not.\<close>

theorem alone_is_multiturn_stage:
  assumes "shared_ok sh" "\<not> c_loop env" "w_acc (sh_rest sh) = Some cfg"
  shows "\<exists>n q sh'. run_schedule env cfg (replicate n 0) (requests [(session_id c, new_turn_spans c)], sh) = ([q], sh') \<and>
    fst (multiturn_stage env c (world_of sh)) = world_of sh' \<and>
    rq_point q = (case snd (multiturn_stage env c (world_of sh)) of Inl e \<Rightarrow> Raised e | Inr c' \<Rightarrow> Finished (risk_score c'))"
proof -
  from multiturn_run [OF assms, of c] obtain n p sh' where
    "((\<lambda>(p, sh). step env cfg (session_id c) (new_turn_spans c) p sh) ^^ n) (Loading, sh) = (p, sh')"
    "fst (multiturn_stage env c (world_of sh)) = world_of sh'"
    "p = (case snd (multiturn_stage env c (world_of sh)) of Inl e \<Rightarrow> Raised e | Inr c' \<Rightarrow> Finished (risk_score c'))"
    unfolding goes_def by (elim exE conjE) (rule that)
  then show ?thesis by (intro exI [of _ n] exI) (auto simp: requests_def solo_schedule)
qed

theorem alone_is_multiturn_stage_witness:
  "\<exists>n q sh'. run_schedule sample_context_env DEFAULT_CONFIG (replicate n 0) (requests [(lit ''s'', [sample_span ''RRN''])], known_shared) = ([q], sh') \<and>
    fst (multiturn_stage sample_context_env ((sample_ctx ''s'')\<lparr>new_turn_spans := [sample_span ''RRN'']\<rparr>) (world_of known_shared)) = world_of sh'"
proof -
  let ?c = "(sample_ctx ''s'')\<lparr>new_turn_spans := [sample_span ''RRN'']\<rparr>"
  have "\<not> c_loop sample_context_env" "w_acc (sh_rest known_shared) = Some DEFAULT_CONFIG" "session_id ?c = lit ''s''" "new_turn_spans ?c = [sample_span ''RRN'']"
    by (simp_all add: sample_context_env_def known_shared_def empty_shared_def sample_ctx_def new_ctx_def)
  with alone_is_multiturn_stage [OF sample_shared_ok(2), of sample_context_env DEFAULT_CONFIG ?c] show ?thesis by (simp only: not_True_eq_False simp_thms) blast
qed

text \<open>C10: Requests that run at the same time, in any order of their steps, leave what any other session loads
  unchanged, and the store keeps every session under its own id.\<close>

theorem concurrent_sessions_isolated:
  assumes "shared_ok sh" "sid \<notin> fst ` set rs" "run_schedule env cfg sched (requests rs, sh) = (qs, sh')"
  shows "snd (mem_load t sid (store_of (world_of sh'))) = snd (mem_load t sid (store_of (world_of sh))) \<and> store_inv (store_of (world_of sh'))"
proof -
  let ?I = "\<lambda>qs sh'. requests_ok qs sh' \<and> sid \<notin> rq_sid ` set qs \<and>
    snd (mem_load t sid (store_of (world_of sh'))) = snd (mem_load t sid (store_of (world_of sh)))"
  have "?I qs sh'"
  proof (rule schedule_invariant [OF assms(3), where I = ?I])
    show "?I (requests rs) sh" using assms(2) requests_ok_start [OF assms(1)] by (force simp: requests_def)
    fix qs sh1 i q' sh2
    assume I: "?I qs sh1" and i: "i < length qs" and a: "advance env cfg (qs ! i) sh1 = (q', sh2)"
    note ok = advance_ok [OF _ i a]
    have "sid \<noteq> rq_sid (qs ! i)" using I i by auto
    with only_other [OF ok(2), of sid t] ok(1,3) I show "?I (qs[i := q']) sh2"
      by (auto simp: requests_ok_def dest!: set_update_subset_insert [THEN subsetD])
  qed
  moreover have "store_inv (store_of (world_of sh'))" if "shared_ok sh'"
    using that by (auto simp: shared_ok_def store_inv_def world_of_simps view_def case_prod_beta comp_def)
  ultimately show ?thesis by (simp add: requests_ok_def)
qed

theorem concurrent_sessions_isolated_witness:
  "snd (mem_load 0 (lit ''s'') (store_of (world_of (snd (run_schedule sample_context_env DEFAULT_CONFIG [0, 1, 0, 1, 0, 1]
     (requests [(lit ''t'', []), (lit ''t'', [])], known_shared)))))) = Some (new_session 0 (lit ''s'') None new_store)"
proof -
  let ?r = "run_schedule sample_context_env DEFAULT_CONFIG [0, 1, 0, 1, 0, 1] (requests [(lit ''t'', []), (lit ''t'', [])], known_shared)"
  have "lit ''s'' \<notin> fst ` set [(lit ''t'', [] :: span list), (lit ''t'', [])]" by (simp add: lit_def)
  from concurrent_sessions_isolated [OF sample_shared_ok(2) this prod.collapse [symmetric], of 0 sample_context_env DEFAULT_CONFIG "[0, 1, 0, 1, 0, 1]"]
  have "snd (mem_load 0 (lit ''s'') (store_of (world_of (snd ?r)))) = snd (mem_load 0 (lit ''s'') (store_of (world_of known_shared)))" ..
  moreover have "snd (mem_load 0 (lit ''s'') (store_of (world_of known_shared))) = Some (new_session 0 (lit ''s'') None new_store)"
    using known_shared_facts by (simp add: mem_load_shared is_expired_def)
  ultimately show ?thesis by (rule trans)
qed

text \<open>C9: A session that is in the store and does not expire loses nothing to concurrency: in every order of the
  steps of any requests, every value of a finished request of the session is in what the session loads.\<close>

theorem stored_session_keeps_values:
  assumes "shared_ok sh" "map_of (sh_dict sh) sid = Some r0" "\<forall>t \<in> range (w_clock (sh_rest sh)). \<not> is_expired t (deref sh r0)"
    "run_schedule env cfg sched (requests rs, sh) = (qs, sh')" "q \<in> set qs" "rq_sid q = sid" "rq_point q = Finished x"
    "t \<in> range (w_clock (sh_rest sh))"
  shows "\<exists>s. snd (mem_load t sid (store_of (world_of sh'))) = Some s \<and>
    (\<forall>sp \<in> set (rq_spans q). \<exists>h. hash_value (c_sha env) (svalue sp) = Inr h \<and> (stype sp, h) \<in> fst ` set (entities s))"
proof -
  let ?I = "\<lambda>qs sh'. requests_ok qs sh' \<and> map_of (sh_dict sh') sid = Some r0 \<and> ss_expires_at (deref sh' r0) = ss_expires_at (deref sh r0) \<and>
    range (w_clock (sh_rest sh')) \<subseteq> range (w_clock (sh_rest sh)) \<and>
    (\<forall>q \<in> set qs. rq_sid q = sid \<longrightarrow> progress env (rq_spans q) r0 (deref sh' r0) (rq_point q))"
  have I: "?I qs sh'"
  proof (rule schedule_invariant [OF assms(4), where I = ?I])
    show "?I (requests rs) sh" using assms(2) requests_ok_start [OF assms(1)] by (auto simp: requests_def)
    fix qs sh1 i q' sh2
    assume I: "?I qs sh1" and i: "i < length qs" and a: "advance env cfg (qs ! i) sh1 = (q', sh2)"
    have r: "requests_ok qs sh1" and m: "map_of (sh_dict sh1) sid = Some r0"
      and old: "\<And>q. q \<in> set qs \<Longrightarrow> rq_sid q = sid \<Longrightarrow> progress env (rq_spans q) r0 (deref sh1 r0) (rq_point q)" using I by auto
    note ok = advance_ok [OF r i a]
    have r0: "r0 < length (sh_heap sh1)" using r map_of_SomeD [OF m] by (auto simp: requests_ok_def shared_ok_def)
    have exp: "ss_expires_at (deref sh2 r0) = ss_expires_at (deref sh1 r0)"
      and grow: "fst ` set (entities (deref sh1 r0)) \<subseteq> fst ` set (entities (deref sh2 r0))"
      and clk: "range (w_clock (sh_rest sh2)) \<subseteq> range (w_clock (sh_rest sh1))" using ok(2) r0 by (simp_all add: only_def)
    have own: "map_of (sh_dict sh2) sid = Some r0 \<and> (rq_sid q' = sid \<longrightarrow> progress env (rq_spans q') r0 (deref sh2 r0) (rq_point q'))"
    proof (cases "rq_sid (qs ! i) = sid")
      case True
      have "w_clock (sh_rest sh1) 0 \<in> range (w_clock (sh_rest sh))" using I by blast
      then have "\<not> is_expired (w_clock (sh_rest sh1) 0) (deref sh r0)" using assms(3) by blast
      then have "\<not> is_expired (w_clock (sh_rest sh1) 0) (deref sh1 r0)" using I by (simp add: is_expired_def)
      moreover have "shared_ok sh1" "point_ok sid sh1 (rq_point (qs ! i))" using r i True by (auto simp: requests_ok_def)
      ultimately show ?thesis
        using progress_step [OF ok(5) [unfolded True] _ _ m] old [of "qs ! i"] i True ok(4) by simp
    next
      case False
      then show ?thesis using ok(2,3) m by (simp add: only_def)
    qed
    have "progress env (rq_spans q) r0 (deref sh2 r0) (rq_point q)" if "q \<in> set (qs[i := q'])" "rq_sid q = sid" for q
      using set_update_subset_insert [THEN subsetD, OF that(1)] own that(2) progress_mono [OF old grow] by auto
    moreover have "range (w_clock (sh_rest sh2)) \<subseteq> range (w_clock (sh_rest sh))" by (rule subset_trans [OF clk]) (use I in blast)
    ultimately show "?I (qs[i := q']) sh2" using ok(1) own exp I by simp
  qed
  then have "recorded env (rq_spans q) (deref sh' r0)" using assms(5-7) by (metis progress.simps(8))
  moreover have "\<not> is_expired t (deref sh r0)" using assms(3,8) by blast
  then have "\<not> is_expired t (deref sh' r0)" using I by (simp add: is_expired_def)
  ultimately show ?thesis using I by (simp add: mem_load_shared recorded_def)
qed

theorem stored_session_keeps_values_witness:
  "\<exists>s. snd (mem_load 0 (lit ''s'') (store_of (world_of (snd (run_schedule sample_context_env DEFAULT_CONFIG (replicate 8 0)
     (requests [(lit ''s'', [sample_span ''NAME''])], known_shared)))))) = Some s \<and> (lit ''NAME'', lit ''v'') \<in> fst ` set (entities s)"
proof -
  let ?qs = "requests [(lit ''s'', [sample_span ''NAME''])]"
  let ?r = "run_schedule sample_context_env DEFAULT_CONFIG (replicate 8 0) (?qs, known_shared)"
  have h: "hash_value (c_sha sample_context_env) (lit ''v'') = Inr (lit ''v'')" by code_simp
  have v: "svalue (sample_span ''NAME'') = lit ''v''" "stype (sample_span ''NAME'') = lit ''NAME''" by (simp_all add: sample_span_def)
  have k: "sh_heap known_shared ! 0 = new_session 0 (lit ''s'') None new_store" "0 < length (sh_heap known_shared)"
    by (simp_all add: known_shared_def)
  obtain q sh' x where r: "?r = ([q], sh')" "rq_sid q = lit ''s''" "rq_spans q = [sample_span ''NAME'']" "rq_point q = Finished x"
    using load_burst [of sample_context_env "sample_span ''NAME''" "lit ''v''" known_shared "lit ''s''" 0 DEFAULT_CONFIG] h v k known_shared_facts
    by (simp add: requests_def solo_schedule Let_def)
  have "\<forall>t \<in> range (w_clock (sh_rest known_shared)). \<not> is_expired t (deref known_shared 0)"
    using known_shared_facts by (simp add: is_expired_def)
  from stored_session_keeps_values [OF sample_shared_ok(2) known_shared_facts(1) this r(1) _ r(2,4), of 0] show ?thesis
    using r h v known_shared_facts(3) by auto
qed

text \<open>A name, a resident number and an account, each in a request of its own.\<close>

definition split_requests :: "request list" where
  "split_requests = requests [(lit ''s'', [sample_span ''NAME'']), (lit ''s'', [sample_span ''RRN'']), (lit ''s'', [sample_span ''ACCOUNT''])]"


text \<open>Nothing of the sort holds for the first requests of a session. A name, a resident number and an account number
  sent in three requests one after the other reach the hard block at the third; sent at the same time, so that
  each finds no session, each of the three has risk 0.\<close>

theorem first_requests_race:
  "map rq_point (fst (run_schedule sample_context_env DEFAULT_CONFIG ([0, 1, 2] @ replicate 8 0 @ replicate 8 1 @ replicate 8 2)
      (split_requests, empty_shared))) = [Finished 0, Finished 0, Finished 0] \<and>
   (\<exists>x y z. map rq_point (fst (run_schedule sample_context_env DEFAULT_CONFIG (replicate 9 0 @ replicate 8 1 @ replicate 8 2)
      (split_requests, empty_shared))) = [Finished x, Finished y, Finished z] \<and> fl (8 / 10) \<le> z)"
proof -
  have h: "hash_value (c_sha sample_context_env) (lit ''v'') = Inr (lit ''v'')" by code_simp
  have clock: "w_clock (sample_world\<lparr>w_acc := Some DEFAULT_CONFIG\<rparr>) = (\<lambda>k. 0)" by (simp add: sample_world_def)
  let ?sid = "lit ''s''" and ?v = "lit ''v''"
  let ?first = "\<lambda>t. first_value DEFAULT_CONFIG ?sid DEFAULT_TTL_SECONDS (lit t) ?v"
  let ?next = "\<lambda>t. next_value DEFAULT_CONFIG (lit t) ?v"
  have zero: "ss_risk_score (?first ''NAME'') = 0" "ss_risk_score (?first ''RRN'') = 0" "ss_risk_score (?first ''ACCOUNT'') = 0"
    by code_simp+
  have last: "ss_risk_score (?next ''ACCOUNT'' (?next ''RRN'' (?first ''NAME''))) = fst (risk_of DEFAULT_CONFIG 3 0
      (turn_started 3 0 (?next ''RRN'' (?first ''NAME''))\<lparr>entities := register_span 3 (lit ''ACCOUNT'') ?v (entities (?next ''RRN'' (?first ''NAME'')))\<rparr>))"
    by (simp add: value_simps next_value_def [of _ "lit ''ACCOUNT''"] Let_def)
  have "{lit ''NAME'', lit ''RRN'', lit ''ACCOUNT''} \<subseteq> set (map etype (filter (\<lambda>r. last_turn r \<ge> 3 - window_size_turns DEFAULT_CONFIG + 1)
      (map snd (register_span 3 (lit ''ACCOUNT'') ?v (register_span 2 (lit ''RRN'') ?v (register_span 1 (lit ''NAME'') ?v []))))))" by code_simp
  then have high: "fl (8 / 10) \<le> ss_risk_score (?next ''ACCOUNT'' (?next ''RRN'' (?first ''NAME'')))"
    unfolding last by (intro combination_score) (simp add: active_nodes_def value_simps)
  have "0 < fadd 0 DEFAULT_TTL_SECONDS" by code_simp
  then have alive: "0 < ss_expires_at (?first ''NAME'')" "0 < ss_expires_at (?next ''RRN'' (?first ''NAME''))"
    "ss_id (?first ''NAME'') = ?sid" "ss_id (?next ''RRN'' (?first ''NAME'')) = ?sid" by (simp_all add: value_simps)
  let ?run = "run_schedule sample_context_env DEFAULT_CONFIG"
  let ?q = "\<lambda>t p. \<lparr>rq_sid = ?sid, rq_spans = [sample_span t], rq_point = p\<rparr>"
  have clock0: "(sample_world\<lparr>w_acc := Some DEFAULT_CONFIG\<rparr>)\<lparr>w_clock := \<lambda>k. 0\<rparr> = sample_world\<lparr>w_acc := Some DEFAULT_CONFIG\<rparr>"
    by (simp add: sample_world_def)
  have span: "svalue (sample_span t) = ?v" "stype (sample_span t) = lit t" for t by (simp_all add: sample_span_def)
  have load: "shared_load sample_context_env ?sid empty_shared = (empty_shared, None)"
    using clock0 by (simp add: empty_shared_def shared_load_def dict_get_def tick_def read_clock_def clock)
  have "?run ([0, 1, 2] @ rest) (split_requests, empty_shared) =
      ?run rest ([?q ''NAME'' Creating, ?q ''RRN'' Creating, ?q ''ACCOUNT'' Creating], empty_shared)" for rest
    by (simp add: split_requests_def requests_def advance_def load)
  then have "map rq_point (fst (?run ([0, 1, 2] @ replicate 8 0 @ replicate 8 1 @ replicate 8 2 @ []) (split_requests, empty_shared))) =
      [Finished 0, Finished 0, Finished 0]"
    by (simp add: burst create_burst span h clock empty_shared_def zero Let_def del: append_Nil2)
  moreover have "?run (0 # rest) (split_requests, empty_shared) =
      ?run rest ([?q ''NAME'' Creating, ?q ''RRN'' Loading, ?q ''ACCOUNT'' Loading], empty_shared)" for rest
    by (simp add: split_requests_def requests_def advance_def load)
  then have "map rq_point (fst (?run (0 # replicate 8 0 @ replicate 8 1 @ replicate 8 2 @ []) (split_requests, empty_shared))) =
      [Finished (ss_risk_score (?first ''NAME'')), Finished (ss_risk_score (?next ''RRN'' (?first ''NAME''))),
       Finished (ss_risk_score (?next ''ACCOUNT'' (?next ''RRN'' (?first ''NAME''))))]"
    by (simp add: burst create_burst load_burst span h clock alive empty_shared_def Let_def del: append_Nil2)
  moreover have "(0 :: nat) # replicate 8 0 @ x = replicate 9 0 @ x" for x by (simp add: eval_nat_numeral)
  ultimately show ?thesis using high by auto
qed

end
