(* ===== verification/Sweeper.thy ===== *)
theory Sweeper
  imports Store
begin

text \<open>
  The background thread of \<open>app/context/store.py\<close>: \<open>start_sweeper\<close>, \<open>stop_sweeper\<close> and \<open>_sweep_loop\<close> as steps of one controlling
  thread and of the threads it has started. \<open>stop_sweeper\<close> waits at most the interval plus a second: the join
  ends when the thread has ended, or by its timeout. A step that is not possible is \<open>None\<close>.
\<close>

definition DEFAULT_SWEEP_INTERVAL_SECONDS :: pyfloat where "DEFAULT_SWEEP_INTERVAL_SECONDS = 300"

text \<open>A thread in its loop waits for the event or sweeps.\<close>

datatype loop_point = Waiting | Sweeping

record sweeper =
  sw_store :: mem_store
  sw_thread :: "nat option"
  sw_stop :: bool
  sw_alive :: "(nat \<times> loop_point) list"
  sw_next :: nat
  sw_joining :: "nat option"
  sw_expired :: "session_state list"

definition new_sweeper :: "mem_store \<Rightarrow> sweeper" where
  "new_sweeper st = \<lparr>sw_store = st, sw_thread = None, sw_stop = False, sw_alive = [], sw_next = 0, sw_joining = None, sw_expired = []\<rparr>"

definition start_sweeper :: "sweeper \<Rightarrow> sweeper" where
  "start_sweeper s =
     (if sw_thread s \<noteq> None then s
      else s\<lparr>sw_stop := False, sw_thread := Some (sw_next s), sw_alive := sw_alive s @ [(sw_next s, Waiting)], sw_next := Suc (sw_next s)\<rparr>)"

text \<open>\<open>stop_sweeper\<close> up to the join, and from its return.\<close>

definition stop_sweeper :: "sweeper \<Rightarrow> sweeper" where
  "stop_sweeper s = s\<lparr>sw_stop := True, sw_joining := sw_thread s\<rparr>"

definition stop_joined :: "sweeper \<Rightarrow> sweeper" where
  "stop_joined s = s\<lparr>sw_thread := None, sw_joining := None\<rparr>"

text \<open>\<open>_sweep_loop\<close>: the wait returns, by the timeout or by the event; then one pass.\<close>

definition wait_returns :: "nat \<Rightarrow> sweeper \<Rightarrow> sweeper" where
  "wait_returns n s =
     (if sw_stop s then s\<lparr>sw_alive := filter (\<lambda>(m, p). m \<noteq> n) (sw_alive s)\<rparr>
      else s\<lparr>sw_alive := map (\<lambda>(m, p). (m, if m = n then Sweeping else p)) (sw_alive s)\<rparr>)"

definition sweep_pass :: "nat \<Rightarrow> pyfloat \<Rightarrow> sweeper \<Rightarrow> sweeper" where
  "sweep_pass n now s =
     (let (st, expired) = sweep_once now (sw_store s)
      in s\<lparr>sw_store := st, sw_expired := sw_expired s @ expired,
           sw_alive := map (\<lambda>(m, p). (m, if m = n then Waiting else p)) (sw_alive s)\<rparr>)"

datatype sweeper_event =
    Start
  | Stop
  | Joined bool
  | Wait_returns nat
  | Sweep nat pyfloat

fun sweeper_step :: "sweeper_event \<Rightarrow> sweeper \<Rightarrow> sweeper option" where
  "sweeper_step Start s = (if sw_joining s = None then Some (start_sweeper s) else None)"
| "sweeper_step Stop s = (if sw_joining s = None then Some (stop_sweeper s) else None)"
| "sweeper_step (Joined timed_out) s =
     (case sw_joining s of
        None \<Rightarrow> None
      | Some n \<Rightarrow> if timed_out \<or> n \<notin> fst ` set (sw_alive s) then Some (stop_joined s) else None)"
| "sweeper_step (Wait_returns n) s = (if (n, Waiting) \<in> set (sw_alive s) then Some (wait_returns n s) else None)"
| "sweeper_step (Sweep n now) s = (if (n, Sweeping) \<in> set (sw_alive s) then Some (sweep_pass n now s) else None)"

fun sweeper_run :: "sweeper_event list \<Rightarrow> sweeper \<Rightarrow> sweeper option" where
  "sweeper_run [] s = Some s"
| "sweeper_run (e # es) s = (case sweeper_step e s of None \<Rightarrow> None | Some s \<Rightarrow> sweeper_run es s)"

section \<open>One thread at a time\<close>

definition single :: "sweeper \<Rightarrow> bool" where
  "single s \<longleftrightarrow> (sw_alive s = [] \<or> (\<exists>n p. sw_alive s = [(n, p)] \<and> sw_thread s = Some n)) \<and> (\<forall>n. sw_joining s = Some n \<longrightarrow> sw_thread s = Some n)"

lemma single_step: "single s \<Longrightarrow> sweeper_step e s = Some s' \<Longrightarrow> e \<noteq> Joined True \<Longrightarrow> single s'"
  by (cases e) (auto simp: single_def start_sweeper_def stop_sweeper_def stop_joined_def wait_returns_def sweep_pass_def case_prod_beta Let_def
    split: if_splits option.splits)

lemma single_run: "single s \<Longrightarrow> sweeper_run es s = Some s' \<Longrightarrow> Joined True \<notin> set es \<Longrightarrow> single s'"
  by (induction es arbitrary: s) (auto split: option.splits dest: single_step)

section \<open>What sweeping keeps\<close>

lemma sweep_once_inv: "store_inv st \<Longrightarrow> store_inv (fst (sweep_once now st))"
  unfolding sweep_once_def by (simp add: store_inv_filter)

lemma sweep_once_later:
  assumes "store_inv st" "snd (mem_load t sid st) = Some s" "now < ss_expires_at s"
  shows "snd (mem_load t sid (fst (sweep_once now st))) = Some s"
proof -
  have m: "map_of (states st) sid = Some s" "\<not> is_expired t s" using assms(2) by (auto simp: snd_mem_load split: option.splits if_splits)
  then have "snd (mem_load now sid st) = Some s" using assms(3) by (simp add: snd_mem_load is_expired_def)
  then have "snd (mem_load now sid (fst (sweep_once now st))) = Some s" using sweep_keeps [OF assms(1)] by simp
  then have "map_of (states (fst (sweep_once now st))) sid = Some s" by (auto simp: snd_mem_load split: option.splits if_splits)
  with m(2) show ?thesis by (simp add: snd_mem_load)
qed

text \<open>The passes of a run.\<close>

definition passes :: "sweeper_event list \<Rightarrow> pyfloat set" where
  "passes es = {now. \<exists>n. Sweep n now \<in> set es}"

lemma sweeper_step_store:
  assumes "sweeper_step e s = Some s'" "store_inv (sw_store s)" "snd (mem_load t sid (sw_store s)) = Some x" "\<forall>now \<in> passes [e]. now < ss_expires_at x"
  shows "store_inv (sw_store s') \<and> snd (mem_load t sid (sw_store s')) = Some x"
proof (cases e)
  case (Sweep n now)
  have "now < ss_expires_at x" using assms(4) Sweep by (simp add: passes_def)
  moreover have "sw_store s' = fst (sweep_once now (sw_store s))"
    using assms(1) Sweep by (auto simp: sweep_pass_def case_prod_beta split: if_splits)
  ultimately show ?thesis using sweep_once_inv [OF assms(2)] sweep_once_later [OF assms(2,3)] by simp
qed (use assms in \<open>auto simp: start_sweeper_def stop_sweeper_def stop_joined_def wait_returns_def split: if_splits option.splits\<close>)

lemma sweeper_run_store:
  assumes "sweeper_run es s = Some s'" "store_inv (sw_store s)" "snd (mem_load t sid (sw_store s)) = Some x" "\<forall>now \<in> passes es. now < ss_expires_at x"
  shows "store_inv (sw_store s') \<and> snd (mem_load t sid (sw_store s')) = Some x"
  using assms
proof (induction es arbitrary: s)
  case (Cons e es)
  then obtain s1 where s1: "sweeper_step e s = Some s1" "sweeper_run es s1 = Some s'" by (auto split: option.splits)
  have "\<forall>now \<in> passes [e]. now < ss_expires_at x" "\<forall>now \<in> passes es. now < ss_expires_at x" using Cons.prems(4) by (auto simp: passes_def)
  with sweeper_step_store [OF s1(1) Cons.prems(2,3)] Cons.IH [OF s1(2)] show ?case by blast
qed simp

text \<open>A pass leaves no session that has expired at its time.\<close>

lemma sweep_pass_clean: "sweeper_step (Sweep n now) s = Some s' \<Longrightarrow> (k, x) \<in> set (states (sw_store s')) \<Longrightarrow> \<not> is_expired now x"
  by (auto simp: sweep_pass_def sweep_once_def case_prod_beta split: if_splits)

text \<open>A join that times out leaves the thread running; a new start clears the event it should have seen.\<close>

lemma two_sweepers:
  "map_option (\<lambda>s. map fst (sw_alive s)) (sweeper_run [Start, Wait_returns 0, Stop, Joined True, Start] (new_sweeper new_store)) = Some [0, 1]"
  by (simp add: new_sweeper_def start_sweeper_def stop_sweeper_def stop_joined_def wait_returns_def)

section \<open>Properties\<close>

text \<open>C29: As long as no join times out, at most one sweeper thread runs, and it is the one the store knows, so that stopping ends it;
  and whatever starts, stops and passes happen, a session that has not expired at a pass stays as it is.\<close>

theorem sweeper_safe:
  assumes "sweeper_run es (new_sweeper st) = Some s'" "store_inv st"
  shows "(Joined True \<notin> set es \<longrightarrow> length (sw_alive s') \<le> 1 \<and> (\<forall>n p. (n, p) \<in> set (sw_alive s') \<longrightarrow> sw_thread s' = Some n)) \<and>
    (\<forall>t sid x. snd (mem_load t sid st) = Some x \<longrightarrow> (\<forall>now \<in> passes es. now < ss_expires_at x) \<longrightarrow> snd (mem_load t sid (sw_store s')) = Some x)"
proof (intro conjI impI allI ballI)
  have "single s'" if "Joined True \<notin> set es" by (rule single_run [OF _ assms(1) that]) (simp add: single_def new_sweeper_def)
  then show "Joined True \<notin> set es \<Longrightarrow> length (sw_alive s') \<le> 1"
    "\<And>n p. Joined True \<notin> set es \<Longrightarrow> (n, p) \<in> set (sw_alive s') \<Longrightarrow> sw_thread s' = Some n" by (auto simp: single_def)
  fix t sid x
  assume "snd (mem_load t sid st) = Some x" "\<forall>now \<in> passes es. now < ss_expires_at x"
  with sweeper_run_store [OF assms(1)] assms(2) show "snd (mem_load t sid (sw_store s')) = Some x" by (simp add: new_sweeper_def)
qed

theorem sweeper_safe_witness:
  "\<exists>s'. sweeper_run [Start, Wait_returns 0, Sweep 0 10, Stop, Wait_returns 0, Joined False, Start] (new_sweeper (store_save (new_session 0 (lit ''s'') None new_store) new_store)) = Some s' \<and>
    length (sw_alive s') \<le> 1 \<and> snd (mem_load 0 (lit ''s'') (sw_store s')) = Some (new_session 0 (lit ''s'') None new_store)"
proof -
  let ?s = "new_session 0 (lit ''s'') None new_store"
  let ?es = "[Start, Wait_returns 0, Sweep 0 10, Stop, Wait_returns 0, Joined False, Start]" and ?st = "store_save ?s new_store"
  have inv: "store_inv ?st" by (rule store_inv_save) (simp add: store_inv_def new_store_def)
  have late: "10 < ss_expires_at ?s" by code_simp
  obtain s' where run: "sweeper_run ?es (new_sweeper ?st) = Some s'"
    by (simp add: new_sweeper_def start_sweeper_def stop_sweeper_def stop_joined_def wait_returns_def sweep_pass_def case_prod_beta)
  have "snd (mem_load 0 (lit ''s'') ?st) = Some ?s" using late by (simp add: snd_mem_load store_save_def is_expired_def new_session_def Let_def)
  moreover have "passes ?es = {10}" by (auto simp: passes_def)
  ultimately show ?thesis using sweeper_safe [OF run inv] run late by auto
qed

end
