(* ===== verification/Mask.thy ===== *)
theory Mask
  imports Models Py_Regex
begin

text \<open>
  The value rewriting of \<open>app/transform/apply.py\<close>: masking by type, generalisation of resident
  numbers, amounts and their summary, synthetic values. These functions see one span at a time
  and touch no store; the current year and the random draws are arguments
  (\<open>rng\<close> is the sequence of draws to come, as a function of their index).
\<close>

section \<open>Masking\<close>

definition REDACT_TEXT :: pystr where
  "REDACT_TEXT = [91, 49325, 51228, 46120, 93]"

definition MASK_KEEP_LAST_N :: nat where "MASK_KEEP_LAST_N = 4"

definition star :: pychar where "star = 42"

text \<open>\<open>re.sub(r"\D", "", v)\<close>.\<close>

definition only_digits :: "pystr \<Rightarrow> pystr" where
  "only_digits v = re_sub (Cls True [Dig]) False (\<lambda>_. []) v"

definition mask_middle :: "pystr \<Rightarrow> pystr" where
  "mask_middle v =
     (if length v \<le> 1 then replicate (length v) star
      else if length v = 2 then [hd v] @ [star]
      else [hd v] @ replicate (length v - 2) star @ [last v])"

definition mask_generic :: "pystr \<Rightarrow> pystr" where
  "mask_generic v = mask_middle v"

definition mask_rrn :: "pystr \<Rightarrow> pystr" where
  "mask_rrn v = (let digits = only_digits v in
     if length digits \<noteq> 13 then mask_generic v
     else take 6 digits @ lit ''-'' @ replicate 7 star)"

definition digit_positions :: "pystr \<Rightarrow> nat list" where
  "digit_positions v = filter (\<lambda>i. is_digit (v ! i)) [0..<length v]"

definition mask_keep_last_digits :: "nat \<Rightarrow> pystr \<Rightarrow> pystr" where
  "mask_keep_last_digits keep v =
     (let positions = digit_positions v in
      if length positions \<le> keep then v
      else let keep_set = drop (length positions - keep) positions
           in map (\<lambda>(i, c). if \<not> is_digit c \<or> i \<in> set keep_set then c else star) (enumerate 0 v))"

definition mask_email :: "pystr \<Rightarrow> pystr" where
  "mask_email v =
     (if 64 \<notin> set v then mask_generic v
      else mask_middle (takeWhile (\<lambda>c. c \<noteq> 64) v) @ [64] @ tl (dropWhile (\<lambda>c. c \<noteq> 64) v))"

definition mask :: "pystr \<Rightarrow> pystr \<Rightarrow> pystr" where
  "mask t v =
     (if t = lit ''RRN'' then mask_rrn v
      else if t = lit ''CARD'' \<or> t = lit ''PHONE'' \<or> t = lit ''ACCOUNT''
        then mask_keep_last_digits MASK_KEEP_LAST_N v
      else if t = lit ''EMAIL'' then mask_email v
      else if t = lit ''NAME'' then mask_middle v
      else mask_generic v)"

definition mask_preview :: "span \<Rightarrow> pystr" where
  "mask_preview s = mask (stype s) (svalue s)"

section \<open>Generalisation\<close>

definition GENDER_DIGIT_CENTURY :: "(pychar \<times> int \<times> pystr) list" where
  "GENDER_DIGIT_CENTURY =
     [(49, 1900, [45224]), (50, 1900, [50668]), (51, 2000, [45224]),
      (52, 2000, [50668]), (53, 1800, [45224]), (54, 1800, [50668])]"

text \<open>\<open>int(s)\<close> of a string of decimal digits, of any script.\<close>

definition int_of_decimals :: "pystr \<Rightarrow> int" where
  "int_of_decimals s = foldl (\<lambda>a c. 10 * a + digit_of c) 0 s"

definition generalize_rrn :: "int \<Rightarrow> pystr \<Rightarrow> pystr option" where
  "generalize_rrn now_year v =
     (let digits = only_digits v in
      if length digits \<noteq> 13 then None
      else case map_of GENDER_DIGIT_CENTURY (digits ! 6) of
        None \<Rightarrow> None
      | Some (century, sex) \<Rightarrow>
          let birth_year = century + int_of_decimals (take 2 digits);
              age = now_year - birth_year;
              bracket = max ((age div 10) * 10) 0
          in Some (lit ''<AGE:'' @ py_str_nat (nat bracket) @ [45824] @ lit ''><SEX:'' @ sex @ lit ''>''))"

definition generalize :: "int \<Rightarrow> pystr \<Rightarrow> pystr \<Rightarrow> pystr" where
  "generalize now_year t v =
     (case (if t = lit ''RRN'' then generalize_rrn now_year v else None) of
        Some r \<Rightarrow> r
      | None \<Rightarrow> mask t v)"

section \<open>Amounts\<close>

text \<open>
  \<open>float(s)\<close> of a string of decimal digits and dots: at most one dot, at least one digit; the
  number it denotes is rounded once.
\<close>

definition parse_float :: "pystr \<Rightarrow> pyfloat result" where
  "parse_float s =
     (let whole = takeWhile (\<lambda>c. c \<noteq> 46) s; rest = dropWhile (\<lambda>c. c \<noteq> 46) s; frac = tl rest in
      if 46 \<in> set frac \<or> whole @ frac = [] then Inl ValueError
      else Inr (fl (of_int (int_of_decimals (whole @ frac)) / 10 ^ length frac)))"

definition parse_amount :: "pystr \<Rightarrow> pyfloat option" where
  "parse_amount v =
     (let cleaned = re_sub (Cls True [Dig, Lit 46]) False (\<lambda>_. []) v in
      if cleaned = [] then None
      else case parse_float cleaned of Inl _ \<Rightarrow> None | Inr x \<Rightarrow> Some x)"

text \<open>\<open>f"{x:,.0f}"\<close> of a non-negative number: rounded half to even, grouped by thousands.\<close>

fun group_thousands :: "pystr \<Rightarrow> pystr" where
  "group_thousands (a # b # c # d # s) = a # b # c # 44 # group_thousands (d # s)"
| "group_thousands s = s"

definition format_amount :: "pyfloat \<Rightarrow> pystr" where
  "format_amount x = rev (group_thousands (rev (py_str_nat (nat (rhe x)))))"

definition append_aggregate_summary :: "pystr \<Rightarrow> pystr list \<Rightarrow> pystr" where
  "append_aggregate_summary text values =
     (let amounts = List.map_filter parse_amount values in
      if amounts = [] then text
      else let total = foldl fadd 0 amounts;
               avg = fdiv total (of_nat (length amounts))
           in rstrip text @ [32, 91, 51665, 44228, 58, 32, 54633, 44228, 32] @ format_amount total @
              [32, 47, 32, 54217, 44512, 32] @ format_amount avg @
              [32, 47, 32, 44148, 49688, 32] @ py_str_nat (length amounts) @ [93])"

section \<open>Synthetic values\<close>

definition FAKE_NAMES :: "pystr list" where
  "FAKE_NAMES = [[44608, 46020, 50980], [51060, 54616, 51008], [48149, 49436, 51456],
     [52572, 51648, 50864], [51221, 48124, 51116], [54620, 49548, 50984], [50980, 51648, 54840],
     [51076, 49436, 50500]]"

type_synonym rng = "nat \<Rightarrow> nat"

text \<open>A draw below \<open>n\<close>, and the draws that remain.\<close>

definition draw :: "nat \<Rightarrow> rng \<Rightarrow> nat \<times> rng" where
  "draw n g = (g 0 mod n, \<lambda>k. g (Suc k))"

fun synthetic_chars :: "pystr \<Rightarrow> rng \<Rightarrow> pystr \<times> rng" where
  "synthetic_chars [] g = ([], g)"
| "synthetic_chars (c # cs) g =
     (if is_digit c
      then let (d, g) = draw 10 g; (ds, g) = synthetic_chars cs g in ((48 + int d) # ds, g)
      else let (ds, g) = synthetic_chars cs g in (c # ds, g))"

definition synthetic :: "pystr \<Rightarrow> pystr \<Rightarrow> rng \<Rightarrow> pystr \<times> rng" where
  "synthetic t v g =
     (if t = lit ''NAME'' then let (i, g) = draw (length FAKE_NAMES) g in (FAKE_NAMES ! i, g)
      else if \<not> (\<exists>c \<in> set v. is_digit c) then (mask t v, g)
      else synthetic_chars v g)"

section \<open>What masking hides\<close>

lemma only_digits_filter: "only_digits v = filter is_decimal v"
  by (simp add: only_digits_def re_sub_delete in_cls_def)

lemma length_mask_middle [simp]: "length (mask_middle v) = length v"
  by (auto simp: mask_middle_def)

lemma mask_middle_inner:
  "0 < i \<Longrightarrow> Suc i < length v \<Longrightarrow> mask_middle v ! i = star"
  by (auto simp: mask_middle_def nth_append nth_Cons')

lemma mask_keep_nth:
  assumes "i < length v" "keep < length (digit_positions v)"
  shows "mask_keep_last_digits keep v ! i =
    (if \<not> is_digit (v ! i) \<or> i \<in> set (drop (length (digit_positions v) - keep) (digit_positions v))
     then v ! i else star)"
  using assms by (simp add: mask_keep_last_digits_def Let_def nth_enumerate_eq)

lemma length_mask_keep [simp]: "length (mask_keep_last_digits keep v) = length v"
  by (simp add: mask_keep_last_digits_def Let_def)

lemma digit_positions_sorted: "sorted_wrt (<) (digit_positions v)"
  unfolding digit_positions_def by (intro sorted_wrt_filter) simp

lemma digit_positions_set: "set (digit_positions v) = {i. i < length v \<and> is_digit (v ! i)}"
  by (auto simp: digit_positions_def)

lemma distinct_digit_positions: "distinct (digit_positions v)"
  by (simp add: digit_positions_def)

lemma star_no_digit [simp]: "\<not> is_digit star"
  by (simp add: star_def is_digit_def not_decimal_below other_digit_ranges_def)

text \<open>The digits that survive are the last ones.\<close>

lemma mask_keep_digit_positions:
  assumes "keep < length (digit_positions v)"
  shows "digit_positions (mask_keep_last_digits keep v) =
    drop (length (digit_positions v) - keep) (digit_positions v)" (is "?l = ?r")
proof (rule sorted_distinct_set_unique)
  have sub: "set ?r \<subseteq> set (digit_positions v)" by (rule set_drop_subset)
  show "set ?l = set ?r"
    using sub mask_keep_nth [OF _ assms] by (auto simp: digit_positions_set split: if_splits)
  show "sorted ?l" "sorted ?r" "distinct ?l" "distinct ?r"
    by (auto intro!: strict_sorted_imp_sorted digit_positions_sorted distinct_digit_positions distinct_drop sorted_wrt_drop)
qed

lemma group_thousands_commas: "44 \<notin> set s \<Longrightarrow> filter (\<lambda>c. c \<noteq> 44) (group_thousands s) = s"
  by (induction s rule: group_thousands.induct) (auto intro!: filter_True)

lemma no_comma: "44 \<notin> set (py_str_nat n)"
  using py_str_nat_digits [of 44 n] by auto

lemma synthetic_chars_shape:
  "list_all2 (\<lambda>c d. if is_digit c then 48 \<le> d \<and> d < 58 else d = c) v (fst (synthetic_chars v g))"
  by (induction v g rule: synthetic_chars.induct)
    (auto simp: draw_def Let_def case_prod_beta)

lemma rrn_types [simp]: "lit ''RRN'' \<noteq> lit ''CARD''" "lit ''RRN'' \<noteq> lit ''PHONE''"
  by simp_all

section \<open>Properties\<close>

text \<open>of a card, phone or account value with more than four digits the mask keeps the length and
  every character that is no digit, and of the digits exactly the last four.\<close>

theorem mask_keeps_last_four:
  assumes "t \<in> {lit ''CARD'', lit ''PHONE'', lit ''ACCOUNT''}" "4 < length (digit_positions v)"
  shows "length (mask t v) = length v \<and>
    digit_positions (mask t v) = drop (length (digit_positions v) - 4) (digit_positions v) \<and>
    (\<forall>i < length v. mask t v ! i =
       (if i \<in> set (take (length (digit_positions v) - 4) (digit_positions v)) then star else v ! i))"
proof -
  let ?n = "length (digit_positions v) - 4"
  have m: "mask t v = mask_keep_last_digits 4 v"
    using assms(1) by (auto simp: mask_def MASK_KEEP_LAST_N_def)
  have "set (take ?n (digit_positions v)) \<inter> set (drop ?n (digit_positions v)) = {}"
    by (simp add: set_take_disj_set_drop_if_distinct distinct_digit_positions)
  moreover have "set (digit_positions v) = set (take ?n (digit_positions v)) \<union> set (drop ?n (digit_positions v))"
    by (metis append_take_drop_id set_append)
  ultimately have "mask t v ! i = (if i \<in> set (take ?n (digit_positions v)) then star else v ! i)"
    if "i < length v" for i
    unfolding m mask_keep_nth [OF that assms(2)] using that digit_positions_set [of v] by auto
  then show ?thesis using mask_keep_digit_positions [OF assms(2)] by (simp add: m)
qed

theorem mask_keeps_last_four_witness:
  "length (mask (lit ''CARD'') (lit ''4111-1111-1111-1111'')) = 19 \<and>
   mask (lit ''CARD'') (lit ''4111-1111-1111-1111'') = lit ''****-****-****-1111''"
proof -
  have "4 < length (digit_positions (lit ''4111-1111-1111-1111''))" by code_simp
  moreover have "mask (lit ''CARD'') (lit ''4111-1111-1111-1111'') = lit ''****-****-****-1111''" by code_simp
  ultimately show ?thesis
    using mask_keeps_last_four [of "lit ''CARD''" "lit ''4111-1111-1111-1111''"] by simp
qed

text \<open>the mask of a resident number shows the six digits of the birth date and nothing of the
  other seven: values that agree in those six have the same mask.\<close>

theorem mask_rrn_hides_rest:
  assumes "length (only_digits v) = 13" "length (only_digits w) = 13" "take 6 (only_digits v) = take 6 (only_digits w)"
  shows "mask (lit ''RRN'') v = mask (lit ''RRN'') w \<and>
    mask (lit ''RRN'') v = take 6 (only_digits v) @ lit ''-*******''"
proof -
  have "lit ''-'' @ replicate 7 star = lit ''-*******''" by code_simp
  then show ?thesis using assms by (simp add: mask_def mask_rrn_def)
qed

theorem mask_rrn_hides_rest_witness:
  "mask (lit ''RRN'') (lit ''880101-1234568'') = mask (lit ''RRN'') (lit ''8801014999999'')"
  by (rule conjunct1 [OF mask_rrn_hides_rest]) code_simp+

text \<open>an e-mail address keeps its domain, and of the local part at most the first and the last
  character are shown.\<close>

theorem mask_email_keeps_domain:
  assumes "64 \<notin> set lp"
  shows "mask (lit ''EMAIL'') (lp @ 64 # d) = mask_middle lp @ 64 # d \<and>
    length (mask_middle lp) = length lp \<and> (\<forall>i. 0 < i \<and> Suc i < length lp \<longrightarrow> mask_middle lp ! i = star)"
proof -
  have "takeWhile (\<lambda>c. c \<noteq> 64) (lp @ 64 # d) = lp" "dropWhile (\<lambda>c. c \<noteq> 64) (lp @ 64 # d) = 64 # d"
    using assms by (auto simp: takeWhile_append dropWhile_append)
  then show ?thesis by (simp add: mask_def mask_email_def mask_middle_inner)
qed

theorem mask_email_keeps_domain_witness:
  "mask (lit ''EMAIL'') (lit ''alice'' @ 64 # lit ''x.kr'') = mask_middle (lit ''alice'') @ 64 # lit ''x.kr''"
  by (rule conjunct1 [OF mask_email_keeps_domain]) code_simp

text \<open>Age and sex as the generalisation reads them off a 13-digit number.\<close>

definition rrn_age :: "int \<Rightarrow> pystr \<Rightarrow> int" where
  "rrn_age now_year v = now_year - (fst (the (map_of GENDER_DIGIT_CENTURY (only_digits v ! 6))) +
     int_of_decimals (take 2 (only_digits v)))"

definition rrn_sex :: "pystr \<Rightarrow> pystr" where
  "rrn_sex v = snd (the (map_of GENDER_DIGIT_CENTURY (only_digits v ! 6)))"

text \<open>the generalised resident number tells the decade of the age and the sex only: numbers that
  agree in both are rewritten to the same text.\<close>

theorem generalize_rrn_decade:
  assumes "length (only_digits v) = 13" "length (only_digits w) = 13"
    "only_digits v ! 6 \<in> {49..54}" "only_digits w ! 6 \<in> {49..54}"
    "rrn_age y v div 10 = rrn_age y w div 10" "rrn_sex v = rrn_sex w"
  shows "generalize y (lit ''RRN'') v = generalize y (lit ''RRN'') w \<and>
    generalize y (lit ''RRN'') v = lit ''<AGE:'' @ py_str_nat (nat (rrn_age y v div 10 * 10)) @ [45824] @
      lit ''><SEX:'' @ rrn_sex v @ lit ''>''"
proof -
  have some: "\<exists>p. map_of GENDER_DIGIT_CENTURY c = Some p" if "c \<in> {49..54}" for c
  proof -
    have "c = 49 \<or> c = 50 \<or> c = 51 \<or> c = 52 \<or> c = 53 \<or> c = 54" using that by auto
    then show ?thesis by (auto simp: GENDER_DIGIT_CENTURY_def)
  qed
  have mx: "nat (max (x * 10) 0) = nat (x * 10)" for x :: int by simp
  have "generalize y (lit ''RRN'') u = lit ''<AGE:'' @ py_str_nat (nat (rrn_age y u div 10 * 10)) @ [45824] @
      lit ''><SEX:'' @ rrn_sex u @ lit ''>''"
    if l: "length (only_digits u) = 13" and c: "only_digits u ! 6 \<in> {49..54}" for u
    using some [OF c] l
    by (auto simp: generalize_def generalize_rrn_def rrn_age_def rrn_sex_def Let_def)
  from this [OF assms(1,3)] this [OF assms(2,4)] assms(5,6) show ?thesis by simp
qed

theorem generalize_rrn_decade_witness:
  "generalize 2025 (lit ''RRN'') (lit ''880101-1234568'') = generalize 2025 (lit ''RRN'') (lit ''911231-1999999'')"
  by (rule conjunct1 [OF generalize_rrn_decade]) code_simp+

text \<open>a synthetic value keeps the length and every character that is no digit, and puts an ASCII
  digit in the place of each digit.\<close>

theorem synthetic_shape:
  assumes "t \<noteq> lit ''NAME''" "\<exists>c \<in> set v. is_digit c"
  shows "list_all2 (\<lambda>c d. if is_digit c then 48 \<le> d \<and> d < 58 else d = c) v (fst (synthetic t v g))"
  using assms synthetic_chars_shape by (simp add: synthetic_def)

theorem synthetic_shape_witness:
  "list_all2 (\<lambda>c d. if is_digit c then 48 \<le> d \<and> d < 58 else d = c) (lit ''02-12'')
    (fst (synthetic (lit ''PHONE'') (lit ''02-12'') (\<lambda>k. k)))"
  by (rule synthetic_shape) code_simp+

text \<open>an amount is printed so that it can be read back: without the thousands separators the text
  is the decimal numeral of the amount rounded half to even.\<close>

theorem format_amount_reads_back:
  "nat_of_digits (filter (\<lambda>c. c \<noteq> 44) (format_amount x)) = nat (rhe x)"
proof -
  have "filter (\<lambda>c. c \<noteq> 44) (format_amount x) = rev (filter (\<lambda>c. c \<noteq> 44) (group_thousands (rev (py_str_nat (nat (rhe x))))))"
    by (simp add: format_amount_def rev_filter)
  then show ?thesis using no_comma [of "nat (rhe x)"] by (simp add: group_thousands_commas)
qed

end
