(* ===== verification/Transform.thy ===== *)
theory Transform
  imports Context_Stage Mask
begin

text \<open>
  The stages of \<open>app/transform/apply.py\<close>: \<open>transform_stage\<close> carries out the actions the policy chose
  for the spans of the latest turn, \<open>detokenize_stage\<close> restores the labels in a response. The
  values are rendered in the order of \<open>span_actions\<close>, and the text is rewritten from its last
  span to its first. The current year is an argument (\<open>t_year\<close>).
\<close>

section \<open>Rendering\<close>

record transform_env =
  t_ctx :: context_env
  t_year :: int

abbreviation "t_vault env \<equiv> c_vault (t_ctx env)"

definition access_scope_of :: "ctx \<Rightarrow> scope" where
  "access_scope_of c =
     \<lparr>roles = (case role c of None \<Rightarrow> [lit ''*''] | Some r \<Rightarrow> if r = [] then [lit ''*''] else [r]),
      purposes = (case purpose c of None \<Rightarrow> [lit ''*''] | Some p \<Rightarrow> if p = [] then [lit ''*''] else [p])\<rparr>"

definition tokenize_span :: "transform_env \<Rightarrow> ctx \<Rightarrow> span \<Rightarrow> pystr effect" where
  "tokenize_span env c s w =
     (let (w, up) = connect w; (w, now) = read_clock w;
          (st, r) = tokenize (t_vault env) up now (session_id c) (stype s) (svalue s) (Some (access_scope_of c)) (w_vault w)
      in (w\<lparr>w_vault := st\<rparr>, case r of Inr l \<Rightarrow> l | Inl e \<Rightarrow> REDACT_TEXT))"

definition synthetic_span :: "span \<Rightarrow> pystr effect" where
  "synthetic_span s w = (let (v, g) = synthetic (stype s) (svalue s) (w_rng w) in (w\<lparr>w_rng := g\<rparr>, v))"

definition render :: "transform_env \<Rightarrow> ctx \<Rightarrow> pystr \<Rightarrow> span \<Rightarrow> pystr effect" where
  "render env c act s w =
     (if act = lit ''keep'' then (w, svalue s)
      else if act = lit ''mask'' then (w, mask (stype s) (svalue s))
      else if act = lit ''generalize'' then (w, generalize (t_year env) (stype s) (svalue s))
      else if act = lit ''tokenize'' then tokenize_span env c s w
      else if act = lit ''synthetic'' then synthetic_span s w
      else if act = lit ''redact'' then (w, REDACT_TEXT)
      else (w, svalue s))"

fun render_all :: "transform_env \<Rightarrow> ctx \<Rightarrow> (span \<times> pystr) list \<Rightarrow> (nat \<times> nat \<times> pystr) list effect" where
  "render_all env c [] w = (w, [])"
| "render_all env c ((s, act) # sas) w =
     (let (w, v) = render env c act s w; (w, rs) = render_all env c sas w
      in (w, (sstart s, send s, v) # rs))"

section \<open>The stages\<close>

text \<open>\<open>text = text[:start] + new_value + text[end:]\<close> over a list of replacements.\<close>

definition replace_in_order :: "(nat \<times> nat \<times> pystr) list \<Rightarrow> pystr \<Rightarrow> pystr" where
  "replace_in_order rs t = foldl (\<lambda>t (a, b, v). splice a b v t) t rs"

definition set_last_text :: "pystr \<Rightarrow> turn list \<Rightarrow> turn list" where
  "set_last_text t ts = butlast ts @ [(last ts)\<lparr>ttext := t\<rparr>]"

definition transform_stage :: "transform_env \<Rightarrow> stage" where
  "transform_stage env c w =
     (if span_actions c = [] \<or> turns c = [] then (w, Inr c)
      else
        let text = ttext (last (turns c));
            per_span = filter (\<lambda>(s, a). a \<noteq> lit ''aggregate'') (span_actions c);
            aggregate_group = filter (\<lambda>(s, a). a = lit ''aggregate'') (span_actions c);
            (w, rs) = render_all env c per_span w;
            replacements = rs @ map (\<lambda>(s, a). (sstart s, send s, [])) aggregate_group;
            text = replace_in_order (sort_desc fst replacements) text;
            text = (if aggregate_group \<noteq> []
                    then append_aggregate_summary text (map (\<lambda>(s, a). svalue s) aggregate_group) else text)
        in (w, Inr (c\<lparr>turns := set_last_text text (turns c)\<rparr>)))"

definition apply_transforms :: "transform_env \<Rightarrow> stage" where
  "apply_transforms env c w = transform_stage env c w"

text \<open>The look-ups of \<open>detokenize_text\<close> take the next connections and times.\<close>

definition detokenize_stage :: "transform_env \<Rightarrow> stage" where
  "detokenize_stage env c w =
     (if direction c \<noteq> lit ''output'' then (w, Inr c)
      else case turns c of [] \<Rightarrow> (w, Inr c)
      | t # ts \<Rightarrow>
          (case get_last_purpose (t_ctx env) (session_id c) w of
             (w, Inl e) \<Rightarrow> (w, Inl e)
           | (w, Inr pu) \<Rightarrow>
               let ((k, st), text) = detokenize_text (t_vault env) (w_db w) (w_clock w) (session_id c) (ttext t) (role c) pu (w_vault w)
               in (w\<lparr>w_vault := st, w_db := (\<lambda>i. w_db w (k + i)), w_clock := (\<lambda>i. w_clock w (k + i))\<rparr>,
                   Inr (c\<lparr>turns := t\<lparr>ttext := text\<rparr> # ts\<rparr>))))"

section \<open>Replacing from the right is replacing all at once\<close>

text \<open>
  The reference: the pieces between the ranges are copied from the original text, each range is
  exchanged for its value. \<open>render_values\<close> gives the values of all spans in their order; the
  spans of an aggregate are emptied.
\<close>

fun weave :: "'a list \<Rightarrow> nat \<Rightarrow> (nat \<times> nat \<times> 'a list) list \<Rightarrow> 'a list" where
  "weave t i [] = drop i t"
| "weave t i ((a, b, v) # rs) = slice i a t @ v @ weave t b rs"

fun render_values :: "transform_env \<Rightarrow> ctx \<Rightarrow> (span \<times> pystr) list \<Rightarrow> pystr list effect" where
  "render_values env c [] w = (w, [])"
| "render_values env c ((s, act) # sas) w =
     (let (w, v) = (if act = lit ''aggregate'' then (w, []) else render env c act s w);
          (w, vs) = render_values env c sas w in (w, v # vs))"

definition ranges :: "(span \<times> pystr) list \<Rightarrow> pystr list \<Rightarrow> (nat \<times> nat \<times> pystr) list" where
  "ranges sas vs = map (\<lambda>((s, a), v). (sstart s, send s, v)) (zip sas vs)"

definition in_order :: "'a list \<Rightarrow> (nat \<times> nat \<times> 'a list) list \<Rightarrow> bool" where
  "in_order t rs \<longleftrightarrow> sorted_wrt (\<lambda>x y. fst (snd x) \<le> fst y) rs \<and>
     (\<forall>(a, b, v) \<in> set rs. a < b \<and> b \<le> length t)"

lemma in_order_Cons: "in_order t ((a, b, v) # rs) \<longleftrightarrow>
    a < b \<and> b \<le> length t \<and> (\<forall>x \<in> set rs. b \<le> fst x) \<and> in_order t rs"
  by (auto simp: in_order_def)

lemma replace_rev_weave:
  "in_order t rs \<Longrightarrow> \<forall>x \<in> set rs. i \<le> fst x \<Longrightarrow> replace_in_order (rev rs) t = take i t @ weave t i rs"
proof (induction rs arbitrary: i)
  case Nil
  then show ?case by (simp add: replace_in_order_def)
next
  case (Cons x rs)
  obtain a b v where x: "x = (a, b, v)" by (cases x)
  have o: "a < b" "b \<le> length t" "\<forall>x \<in> set rs. b \<le> fst x" "in_order t rs" "i \<le> a"
    using Cons.prems by (auto simp: x in_order_Cons)
  have "replace_in_order (rev (x # rs)) t = splice a b v (replace_in_order (rev rs) t)"
    by (simp add: replace_in_order_def x)
  also have "\<dots> = splice a b v (take b t @ weave t b rs)" using Cons.IH [OF o(4,3)] by simp
  also have "\<dots> = take a t @ v @ weave t b rs" using o by (simp add: splice_def min_def)
  also have "take a t = take i t @ slice i a t"
    using o(5) by (metis append_Nil2 drop0 le0 slice_append_slice slice_def diff_zero)
  finally show ?case by (simp add: x)
qed

lemma in_order_starts: "in_order t rs \<Longrightarrow> sorted (map fst rs) \<and> distinct (map fst rs)"
proof (induction rs)
  case (Cons x rs)
  obtain a b v where x: "x = (a, b, v)" by (cases x)
  with Cons have "sorted (map fst rs) \<and> distinct (map fst rs)" "\<forall>y \<in> set rs. a < fst y"
    by (fastforce simp: in_order_Cons)+
  then show ?case by (auto simp: x)
qed simp

lemma replace_sorted_weave:
  assumes "in_order t rs" "mset xs = mset rs"
  shows "replace_in_order (sort_desc fst xs) t = weave t 0 rs"
proof -
  have d: "sorted (map fst rs)" "distinct (map fst rs)" using in_order_starts [OF assms(1)] by auto
  have m: "mset (sort_key fst (rev xs)) = mset rs" using assms(2) by simp
  then have "mset (map fst (sort_key fst (rev xs))) = mset (map fst rs)" by (simp only: mset_map)
  then have "distinct (map fst (sort_key fst (rev xs)))" using d(2) by (metis mset_eq_imp_distinct_iff)
  moreover have "set (sort_key fst (rev xs)) = set rs" using m by (metis mset_eq_setD)
  moreover have "inj_on fst (set rs)" using d(2) by (simp add: distinct_map)
  ultimately have "sort_key fst (rev xs) = rs"
    using d by (intro map_sorted_distinct_set_unique [where f = fst]) simp_all
  then show ?thesis using replace_rev_weave [OF assms(1), of 0] by (simp add: sort_desc_def)
qed

lemma render_all_values:
  fixes env c sas w
  defines "v \<equiv> render_values env c sas w"
    and "r \<equiv> render_all env c (filter (\<lambda>(s, a). a \<noteq> lit ''aggregate'') sas) w"
  shows "fst r = fst v \<and> length (snd v) = length sas \<and>
    mset (snd r @ map (\<lambda>(s, a). (sstart s, send s, [])) (filter (\<lambda>(s, a). a = lit ''aggregate'') sas)) = mset (ranges sas (snd v))"
  unfolding v_def r_def
proof (induction sas arbitrary: w)
  case (Cons x sas)
  obtain s a where "x = (s, a)" by (cases x)
  with Cons.IH show ?case by (auto simp: ranges_def case_prod_beta Let_def)
qed (simp add: ranges_def)

lemma in_order_ranges:
  "disjoint_spans (map fst sas) \<Longrightarrow> \<forall>(s, a) \<in> set sas. span_of t s \<Longrightarrow> length vs = length sas \<Longrightarrow> in_order t (ranges sas vs)"
proof (induction sas arbitrary: vs)
  case (Cons x sas)
  obtain s a where "x = (s, a)" by (cases x)
  moreover obtain v vs' where "vs = v # vs'" using Cons.prems(3) by (cases vs) auto
  ultimately show ?case using Cons.IH [of vs'] Cons.prems
    by (fastforce simp: ranges_def in_order_Cons disjoint_spans_def span_of_def dest: set_zip_leftD)
qed (simp add: ranges_def in_order_def)

section \<open>What the stages leave alone\<close>

lemma tokenize_span_ok: "later (t_ctx env) w (fst (tokenize_span env c s w)) \<and>
    w_store (fst (tokenize_span env c s w)) = w_store w \<and> w_acc (fst (tokenize_span env c s w)) = w_acc w"
  by (auto simp: tokenize_span_def later_def store_of_def hooked_def read_clock_def connect_def case_prod_beta Let_def
      intro: step_tokenize)

lemma synthetic_span_ok: "later env w (fst (synthetic_span s w)) \<and>
    w_store (fst (synthetic_span s w)) = w_store w \<and> w_acc (fst (synthetic_span s w)) = w_acc w"
  by (simp add: synthetic_span_def later_def store_of_def hooked_def case_prod_beta Let_def)

lemma render_ok: "later (t_ctx env) w (fst (render env c act s w)) \<and>
    w_store (fst (render env c act s w)) = w_store w \<and> w_acc (fst (render env c act s w)) = w_acc w"
  by (simp add: render_def tokenize_span_ok synthetic_span_ok)

lemma render_all_ok: "later (t_ctx env) w (fst (render_all env c sas w)) \<and>
    w_store (fst (render_all env c sas w)) = w_store w \<and> w_acc (fst (render_all env c sas w)) = w_acc w"
proof (induction sas arbitrary: w)
  case (Cons x sas)
  obtain s a where x: "x = (s, a)" by (cases x)
  have "fst (render_all env c (x # sas) w) = fst (render_all env c sas (fst (render env c a s w)))"
    by (simp add: x case_prod_beta Let_def)
  with Cons.IH [of "fst (render env c a s w)"] render_ok [of env w c a s] show ?case by (auto intro: later_trans)
qed simp

lemma transform_ok:
  assumes "transform_stage env c w = (w', r)"
  shows "later (t_ctx env) w w' \<and> w_store w' = w_store w \<and> w_acc w' = w_acc w \<and> (\<exists>ts. r = Inr (c\<lparr>turns := ts\<rparr>))"
proof (cases "span_actions c = [] \<or> turns c = []")
  case True
  then have "w' = w" "r = Inr c" using assms by (auto simp: transform_stage_def)
  then show ?thesis by (intro conjI exI [of _ "turns c"]) simp_all
next
  case False
  let ?per = "filter (\<lambda>(s, a). a \<noteq> lit ''aggregate'') (span_actions c)"
  have "w' = fst (render_all env c ?per w)" "\<exists>ts. r = Inr (c\<lparr>turns := ts\<rparr>)"
    using assms False by (auto simp: transform_stage_def case_prod_beta Let_def)
  with render_all_ok [of env w c ?per] show ?thesis by simp
qed

lemma sub_state_rtrancl:
  "(\<And>x m. R\<^sup>*\<^sup>* (snd x) (snd (fst (f x m)))) \<Longrightarrow> R\<^sup>*\<^sup>* (snd x) (snd (fst (sub_state f t i ms x)))"
proof (induction ms arbitrary: i x)
  case (Cons m ms)
  have "fst (sub_state f t i (m # ms) x) = fst (sub_state f t (mend m) ms (fst (f x m)))"
    by (simp add: case_prod_beta Let_def)
  with Cons.IH [OF Cons.prems, of "fst (f x m)" "mend m"] Cons.prems [of x m] show ?case by (metis rtranclp_trans)
qed simp

lemma detokenize_text_steps:
  "(vault_step env False)\<^sup>*\<^sup>* st (snd (fst (detokenize_text env up now sid body rl pu st)))"
proof -
  let ?f = "\<lambda>(k, st) m. let (st', original) = detokenize env (up k) (now k) sid (group0 body m) rl pu st
    in ((Suc k, st'), case original of None \<Rightarrow> group0 body m | Some v \<Rightarrow> v)"
  have "(vault_step env False)\<^sup>*\<^sup>* (snd x) (snd (fst (?f x m)))" for x m
    by (cases x) (simp add: case_prod_beta Let_def r_into_rtranclp step_detokenize)
  from sub_state_rtrancl [of "vault_step env False" ?f, OF this, of "(0, st)"]
  show ?thesis unfolding detokenize_text_def snd_conv .
qed

lemma detokenize_ok:
  assumes "world_ok (t_ctx env) w" "detokenize_stage env c w = (w', r)"
  shows "world_ok (t_ctx env) w' \<and> later (t_ctx env) w w' \<and> own_change (session_id c) (store_of w) (store_of w') \<and>
    (\<forall>c'. r = Inr c' \<longrightarrow> c' = c\<lparr>turns := turns c'\<rparr>)"
proof (cases "direction c \<noteq> lit ''output'' \<or> turns c = []")
  case True
  with assms show ?thesis by (auto simp: detokenize_stage_def own_change_def split: list.splits)
next
  case False
  then obtain t ts where t: "turns c = t # ts" "direction c = lit ''output''" by (cases "turns c") auto
  obtain w1 x where g: "get_last_purpose (t_ctx env) (session_id c) w = (w1, x)" by fastforce
  from get_last_purpose_ok [OF assms(1) g]
  have w1: "world_ok (t_ctx env) w1" "later (t_ctx env) w w1" "own_change (session_id c) (store_of w) (store_of w1)" by auto
  show ?thesis
  proof (cases x)
    case (Inl e)
    with assms(2) g t w1 show ?thesis by (auto simp: detokenize_stage_def)
  next
    case (Inr pu)
    let ?d = "detokenize_text (t_vault env) (w_db w1) (w_clock w1) (session_id c) (ttext t) (role c) pu (w_vault w1)"
    have w': "w' = w1\<lparr>w_vault := snd (fst ?d), w_db := (\<lambda>i. w_db w1 (fst (fst ?d) + i)), w_clock := (\<lambda>i. w_clock w1 (fst (fst ?d) + i))\<rparr>"
      "r = Inr (c\<lparr>turns := t\<lparr>ttext := snd ?d\<rparr> # ts\<rparr>)"
      using assms(2) g t Inr by (auto simp: detokenize_stage_def case_prod_beta Let_def)
    have s: "store_of w' = store_of w1" "w_acc w' = w_acc w1" "hooked w' = hooked w1"
      by (simp_all add: w' store_of_def hooked_def)
    have l: "later (t_ctx env) w1 w'"
      using detokenize_text_steps [of "t_vault env" "w_vault w1"] by (auto simp: later_def s) (auto simp: w')
    have "world_ok (t_ctx env) w'"
      using w1(1) by (intro world_okI [OF w1(1) l]) (auto simp: s world_ok_def)
    with l w1 s w'(2) later_trans [OF w1(2) l] show ?thesis by simp
  qed
qed

section \<open>Properties\<close>

lemma transform_weave:
  assumes "turns c \<noteq> []" "t = ttext (last (turns c))" "disjoint_spans (map fst (span_actions c))"
    "\<forall>(s, a) \<in> set (span_actions c). span_of t s" "transform_stage env c w = (w', Inr c')"
  shows "let vs = snd (render_values env c (span_actions c) w);
             agg = filter (\<lambda>(s, a). a = lit ''aggregate'') (span_actions c);
             text = weave t 0 (ranges (span_actions c) vs)
         in w' = fst (render_values env c (span_actions c) w) \<and> butlast (turns c') = butlast (turns c) \<and>
            ttext (last (turns c')) = (if agg = [] then text else append_aggregate_summary text (map (\<lambda>(s, a). svalue s) agg))"
proof (cases "span_actions c = []")
  case True
  with assms(2,5) show ?thesis by (simp add: transform_stage_def ranges_def)
next
  case False
  let ?sas = "span_actions c"
  let ?r = "render_all env c (filter (\<lambda>(s, a). a \<noteq> lit ''aggregate'') ?sas) w"
  let ?agg = "map (\<lambda>(s, a). (sstart s, send s, [])) (filter (\<lambda>(s, a). a = lit ''aggregate'') ?sas)"
  note v = render_all_values [where env = env and c = c and sas = ?sas and w = w]
  have "in_order t (ranges ?sas (snd (render_values env c ?sas w)))"
    using v by (intro in_order_ranges assms(3,4)) blast
  from replace_sorted_weave [OF this, of "snd ?r @ ?agg"] v
  have "replace_in_order (sort_desc fst (snd ?r @ ?agg)) t = weave t 0 (ranges ?sas (snd (render_values env c ?sas w)))"
    by blast
  then show ?thesis
    using assms(1,2,5) False v by (auto simp: transform_stage_def set_last_text_def case_prod_beta Let_def)
qed

text \<open>C21: When the spans are disjoint ranges of the text, the stage exchanges every range for the value its
  action gives and copies everything else, aggregates being emptied and summed up at the end; so the
  order of the replacements does not matter and no offset is off.\<close>

theorem transform_simultaneous:
  assumes "turns c \<noteq> []" "t = ttext (last (turns c))" "disjoint_spans (map fst (span_actions c))"
    "\<forall>(s, a) \<in> set (span_actions c). span_of t s" "transform_stage env c w = (w', Inr c')"
  shows "let vs = snd (render_values env c (span_actions c) w);
             agg = filter (\<lambda>(s, a). a = lit ''aggregate'') (span_actions c);
             text = weave t 0 (ranges (span_actions c) vs)
         in w' = fst (render_values env c (span_actions c) w) \<and> butlast (turns c') = butlast (turns c) \<and>
            ttext (last (turns c')) = (if agg = [] then text else append_aggregate_summary text (map (\<lambda>(s, a). svalue s) agg))"
  using assms by (rule transform_weave)

definition card_ctx :: ctx where
  "card_ctx = (new_ctx (lit ''s'') (lit ''input'') (lit ''gateway'') None [\<lparr>trole = lit ''user'', ttext = lit ''no 1234-5678 of Kim''\<rparr>])
     \<lparr>span_actions := [(\<lparr>stype = lit ''CARD'', svalue = lit ''1234-5678'', sstart = 3, send = 12, sconfidence = 1, ssource = lit ''regex''\<rparr>, lit ''mask''),
       (\<lparr>stype = lit ''NAME'', svalue = lit ''Kim'', sstart = 16, send = 19, sconfidence = 1, ssource = lit ''dict''\<rparr>, lit ''redact'')]\<rparr>"

theorem transform_simultaneous_witness:
  "ttext (last (turns (projr (snd (transform_stage \<lparr>t_ctx = sample_context_env, t_year = 2026\<rparr> card_ctx sample_world))))) =
    lit ''no ****-5678 of '' @ REDACT_TEXT"
proof -
  let ?env = "\<lparr>t_ctx = sample_context_env, t_year = 2026\<rparr>"
  let ?w = "fst (transform_stage ?env card_ctx sample_world)" and ?c = "projr (snd (transform_stage ?env card_ctx sample_world))"
  have "\<exists>c'. snd (transform_stage ?env card_ctx sample_world) = Inr c'"
    using transform_ok [of ?env card_ctx sample_world ?w] by (metis prod.collapse)
  then have r: "transform_stage ?env card_ctx sample_world = (?w, Inr ?c)" by (metis prod.collapse sum.sel(2))
  have c: "turns card_ctx \<noteq> []" "lit ''no 1234-5678 of Kim'' = ttext (last (turns card_ctx))" "disjoint_spans (map fst (span_actions card_ctx))"
    "\<forall>(s, a) \<in> set (span_actions card_ctx). span_of (lit ''no 1234-5678 of Kim'') s" by code_simp+
  have "filter (\<lambda>(s, a). a = lit ''aggregate'') (span_actions card_ctx) = []" by code_simp
  moreover have "weave (lit ''no 1234-5678 of Kim'') 0 (ranges (span_actions card_ctx)
      (snd (render_values ?env card_ctx (span_actions card_ctx) sample_world))) = lit ''no ****-5678 of '' @ REDACT_TEXT"
    by code_simp
  ultimately show ?thesis using transform_simultaneous [OF c r] by (simp add: Let_def)
qed

end
