(* ===== verification/Policy.thy ===== *)
theory Policy
  imports Context_Stage Mask
begin

text \<open>
  The purpose classifier (\<open>app/purpose/classifier.py\<close>), the role of a request
  (\<open>app/purpose/role_resolver.py\<close>), the policy engine (\<open>app/policy/engine.py\<close>) with its tables in
  the database, and their seeding (\<open>scripts/seed_policy.py\<close>, \<open>app/policy/policy.yaml\<close>). Rows are in
  the order of insertion, which is the order a query returns them. Parsing YAML and the command
  line of the seeding script are left out.
\<close>

section \<open>The purpose of a request\<close>

text \<open>The first rule whose pattern occurs in the text decides; the patterns ignore case.\<close>

definition CLASSIFIER_RULES :: "(pystr \<times> re) list" where
  "CLASSIFIER_RULES = [
      (lit ''fraud_investigation'', alts [text_re [49324, 44592], seqs [text_re [51060, 49345], Ws01, text_re
      [44144, 47000]], seqs [text_re [48512, 51221], Ws01, text_re [49324, 50857]], seqs [text_re [51088,
      44552], Ws01, text_re [49464, 53441]], seqs [text_re [51312, 49324], Ws01, text_re [51032, 47280]], word
      ''fraud'', seqs [word ''money'', Ws01, word ''launder'']]),
      (lit ''data_analysis'', alts [seqs [text_re [47751], Ws01, text_re [47749]], text_re [44148, 49688],
      text_re [54217, 44512], text_re [54633, 44228], text_re [53685, 44228], text_re [48516, 54252], text_re
      [51665, 44228], text_re [48708, 50984], text_re [52628, 51060], word ''aggregate'', word ''average'',
      seqs [word ''how'', Ws1, word ''many'']]),
      (lit ''code_help'', alts [text_re [53076, 46300], text_re [54632, 49688], text_re [47700, 49436, 46300],
      text_re [50640, 47084], text_re [48260, 44536], text_re [46356, 48260, 44536], seqs [text_re [49828,
      53469], Ws01, text_re [53944, 47112, 51060, 49828]], word ''traceback'', word ''exception'', seqs [word
      ''stack'', Ws01, word ''trace'']]),
      (lit ''doc_summarize'', alts [text_re [50836, 50557], text_re [48264, 50669], text_re [51221, 47532],
      text_re [52488, 47197], text_re [44060, 51312, 49885], word ''bullet'', seqs [word ''summari'', Cls False
      [Lit 115, Lit 122], word ''e''], word ''translate'', word ''tl;dr'']),
      (lit ''customer_support'', alts [text_re [44256, 44061], text_re [48124, 50896], text_re [47928, 51032],
      text_re [49345, 45812], text_re [51217, 49688], text_re [51025, 45824], text_re [53364, 47112, 51076],
      word ''inquiry'', word ''complaint'', word ''ticket''])]"

definition RULE_CONFIDENCE :: pyfloat where "RULE_CONFIDENCE = fl (8 / 10)"
definition UNKNOWN_CONFIDENCE :: pyfloat where "UNKNOWN_CONFIDENCE = 0"

definition rule_classify :: "(pystr \<times> re) list \<Rightarrow> pystr \<Rightarrow> pystr \<times> pyfloat" where
  "rule_classify rules t =
     (case List.find (\<lambda>(p, r). re_search r True t \<noteq> None) rules of
        Some (p, r) \<Rightarrow> (p, RULE_CONFIDENCE)
      | None \<Rightarrow> (lit ''unknown'', UNKNOWN_CONFIDENCE))"

definition classify :: "pystr \<Rightarrow> pystr \<times> pyfloat" where
  "classify t = rule_classify CLASSIFIER_RULES t"

section \<open>The role of the requester\<close>

text \<open>
  \<open>k.lower()\<close>: of the characters outside ASCII only two have ASCII letters in their lower case,
  and only keys that are equal to an ASCII name afterwards matter here.
\<close>

definition lower_char :: "pychar \<Rightarrow> pystr" where
  "lower_char c = (if 65 \<le> c \<and> c \<le> 90 then [c + 32] else if c = 8490 then [107] else if c = 304 then [105, 775] else [c])"

definition lower :: "pystr \<Rightarrow> pystr" where
  "lower s = concat (map lower_char s)"

definition ROLE_HEADER :: pystr where "ROLE_HEADER = lit ''x-corp-user-role''"
definition USER_ID_HEADER :: pystr where "USER_ID_HEADER = lit ''x-corp-user-id''"
definition ROLE_MAP :: "(pystr \<times> pystr) list" where "ROLE_MAP = []"

definition resolve_role :: "(pystr \<times> pystr) list option \<Rightarrow> pystr option" where
  "resolve_role headers =
     (case headers of None \<Rightarrow> None | Some [] \<Rightarrow> None
      | Some hs \<Rightarrow>
          let low = dict_update [] (map (\<lambda>(k, v). (lower k, v)) hs);
              rl = strip (case dict_get low ROLE_HEADER of None \<Rightarrow> [] | Some v \<Rightarrow> v)
          in if rl \<noteq> [] then Some rl
             else
               let user_id = strip (case dict_get low USER_ID_HEADER of None \<Rightarrow> [] | Some v \<Rightarrow> v)
               in if user_id \<noteq> [] then dict_get ROLE_MAP user_id else None)"

section \<open>Rules\<close>

record policy_rule =
  r_purpose :: "pystr option"
  r_role :: "pystr option"
  r_entity :: "pystr option"
  r_action :: pystr
  r_priority :: int

record override =
  condition_expr :: pystr
  o_action :: pystr
  o_priority :: int

record ruleset =
  rs_rules :: "policy_rule list"
  rs_overrides :: "override list"

definition FALLBACK_ACTION :: pystr where "FALLBACK_ACTION = lit ''tokenize''"

definition RISK_SCORE_RE :: re where
  "RISK_SCORE_RE = seqs [word ''risk_score'', Ws, word ''>='', Ws,
     Grp 1 (alts [seqs [word ''0'', Opt (seqs [word ''.'', Plus Digit])],
                  seqs [word ''1'', Opt (seqs [word ''.'', Plus (word ''0'')])]])]"

definition eval_condition :: "pystr \<Rightarrow> pyfloat \<Rightarrow> bool \<Rightarrow> bool result" where
  "eval_condition expr risk hit =
     (let expr = strip expr in
      if expr = lit ''injection.hit'' then Inr hit
      else case re_fullmatch RISK_SCORE_RE False expr of
        Some m \<Rightarrow> (case group expr m 1 of
            None \<Rightarrow> Inl TypeError
          | Some n \<Rightarrow> bind_result (parse_float n) (\<lambda>x. Inr (x \<le> risk)))
      | None \<Rightarrow> Inr False)"

definition rule_matches :: "pystr \<Rightarrow> pystr option \<Rightarrow> pystr \<Rightarrow> policy_rule \<Rightarrow> bool" where
  "rule_matches pu rl et r \<longleftrightarrow>
     (r_purpose r = None \<or> r_purpose r = Some pu) \<and> (r_role r = None \<or> r_role r = rl) \<and>
     (r_entity r = None \<or> r_entity r = Some et)"

definition specificity :: "policy_rule \<Rightarrow> nat" where
  "specificity r = (if r_purpose r \<noteq> None then 1 else 0) + (if r_role r \<noteq> None then 1 else 0) +
     (if r_entity r \<noteq> None then 1 else 0)"

text \<open>\<open>[o for o in os if f(o)]\<close> where \<open>f\<close> may raise.\<close>

fun filter_result :: "('a \<Rightarrow> bool result) \<Rightarrow> 'a list \<Rightarrow> 'a list result" where
  "filter_result f [] = Inr []"
| "filter_result f (x # xs) =
     bind_result (f x) (\<lambda>b. bind_result (filter_result f xs) (\<lambda>ys. Inr (if b then x # ys else ys)))"

definition pick_action :: "ruleset \<Rightarrow> pystr \<Rightarrow> pystr option \<Rightarrow> pystr \<Rightarrow> pyfloat \<Rightarrow> bool \<Rightarrow> pystr result" where
  "pick_action rs pu rl et risk hit =
     bind_result (filter_result (\<lambda>ov. eval_condition (condition_expr ov) risk hit) (rs_overrides rs)) (\<lambda>fired.
       case fired of f # fs \<Rightarrow> Inr (o_action (max_by o_priority f fs))
       | [] \<Rightarrow>
           (case filter (rule_matches pu rl et) (rs_rules rs) of
              c # cs \<Rightarrow> Inr (r_action (max_by (\<lambda>r. (specificity r, r_priority r)) c cs))
            | [] \<Rightarrow> Inr FALLBACK_ACTION))"

section \<open>The tables\<close>

record policy_db =
  versions :: "(nat \<times> bool) list"
  rule_rows :: "(nat \<times> policy_rule) list"
  override_rows :: "(nat \<times> override) list"
  next_version :: nat

definition load_ruleset :: "policy_db \<Rightarrow> bool \<Rightarrow> ruleset result" where
  "load_ruleset db up =
     (if \<not> up then Inl DbError
      else case List.find snd (versions db) of
        None \<Rightarrow> Inr \<lparr>rs_rules = [], rs_overrides = []\<rparr>
      | Some (vid, _) \<Rightarrow>
          Inr \<lparr>rs_rules = map snd (filter (\<lambda>(v, r). v = vid) (rule_rows db)),
               rs_overrides = map snd (filter (\<lambda>(v, r). v = vid) (override_rows db))\<rparr>)"

text \<open>The global \<open>_cache\<close> is filled by the first successful load and never read again from the tables.\<close>

type_synonym policy_state = "ruleset option \<times> world"

definition get_ruleset :: "policy_db \<Rightarrow> policy_state \<Rightarrow> policy_state \<times> ruleset result" where
  "get_ruleset db = (\<lambda>(cache, w).
     case cache of
       Some rs \<Rightarrow> ((cache, w), Inr rs)
     | None \<Rightarrow>
         let (w, up) = connect w in
         (case load_ruleset db up of
            Inl e \<Rightarrow> ((None, w), Inl e)
          | Inr rs \<Rightarrow> ((Some rs, w), Inr rs)))"

definition policy_reset :: "policy_state \<Rightarrow> policy_state" where
  "policy_reset = (\<lambda>(cache, w). (None, w))"

definition decide :: "policy_db \<Rightarrow> pystr \<Rightarrow> pystr option \<Rightarrow> pystr \<Rightarrow> pyfloat \<Rightarrow> bool \<Rightarrow> policy_state \<Rightarrow> policy_state \<times> pystr result" where
  "decide db pu rl et risk hit st =
     (case get_ruleset db st of
        (st, Inl e) \<Rightarrow> (st, Inl e)
      | (st, Inr rs) \<Rightarrow> (st, pick_action rs pu rl et risk hit))"

section \<open>The stage\<close>

definition last_user_text :: "turn list \<Rightarrow> pystr option" where
  "last_user_text ts = (case List.find (\<lambda>t. trole t = lit ''user'') (rev ts) of None \<Rightarrow> None | Some t \<Rightarrow> Some (ttext t))"

text \<open>One span: its action is noted, and \<open>block\<close> blocks the request with the reason of the last such span.\<close>

definition note_action :: "pystr \<Rightarrow> span \<Rightarrow> pystr \<Rightarrow> ctx \<Rightarrow> ctx" where
  "note_action pu s act c =
     (let c = c\<lparr>span_actions := span_actions c @ [(s, act)]\<rparr> in
      if act = lit ''block''
      then c\<lparr>blocked := True, block_reason := Some [(lit ''type'', PStr (lit ''policy'')), (lit ''entity'', PStr (stype s)),
                (lit ''purpose'', PStr pu)]\<rparr>
      else c)"

fun decide_spans :: "policy_db \<Rightarrow> pystr \<Rightarrow> span list \<Rightarrow> ctx \<Rightarrow> policy_state \<Rightarrow> policy_state \<times> ctx \<times> py_exn option" where
  "decide_spans db pu [] c st = (st, c, None)"
| "decide_spans db pu (s # ss) c st =
     (case decide db pu (role c) (stype s) (risk_score c) (ihit (injection c)) st of
        (st, Inl e) \<Rightarrow> (st, c, Some e)
      | (st, Inr act) \<Rightarrow> decide_spans db pu ss (note_action pu s act c) st)"

definition policy_error :: "ctx \<Rightarrow> ctx" where
  "policy_error c = c\<lparr>blocked := True, block_reason :=
     Some [(lit ''type'', PStr (lit ''policy'')), (lit ''note'', PStr (lit ''stage_error''))]\<rparr>"

definition purpose_policy_stage :: "policy_db \<Rightarrow> ctx \<Rightarrow> policy_state \<Rightarrow> policy_state \<times> ctx" where
  "purpose_policy_stage db c st =
     (if direction c \<noteq> lit ''input'' then (st, c)
      else
        let (p, conf) = classify (case last_user_text (turns c) of None \<Rightarrow> [] | Some t \<Rightarrow> t);
            c = c\<lparr>purpose := Some p, purpose_confidence := Some conf\<rparr>
        in case decide_spans db p (new_turn_spans c) c st of
             (st, c, None) \<Rightarrow> (st, c)
           | (st, c, Some e) \<Rightarrow> (st, policy_error c))"

section \<open>Seeding\<close>

text \<open>A rule as the YAML file has it, missing keys as \<open>None\<close>.\<close>

record seed_rule =
  sr_purpose :: "pystr option"
  sr_role :: "pystr option"
  sr_entity :: "pystr option"
  sr_action :: pystr
  sr_priority :: "int option"

record policy_spec =
  sp_rules :: "seed_rule list"
  sp_default :: "pystr option"
  sp_overrides :: "(pystr \<times> pystr \<times> int option) list"

definition norm :: "pystr option \<Rightarrow> pystr option" where
  "norm v = (if v = None \<or> v = Some [] \<or> v = Some (lit ''*'') then None else v)"

definition seed :: "policy_spec \<Rightarrow> policy_db \<Rightarrow> policy_db \<times> nat" where
  "seed spec db =
     (let vid = next_version db;
          rules = map (\<lambda>r. \<lparr>r_purpose = norm (sr_purpose r), r_role = norm (sr_role r), r_entity = norm (sr_entity r),
                   r_action = sr_action r, r_priority = (case sr_priority r of None \<Rightarrow> 0 | Some p \<Rightarrow> p)\<rparr>) (sp_rules spec);
          default = (case sp_default spec of None \<Rightarrow> [] | Some a \<Rightarrow> if a = [] then []
                     else [\<lparr>r_purpose = None, r_role = None, r_entity = None, r_action = a, r_priority = -1\<rparr>]);
          overrides = map (\<lambda>(w, a, p). \<lparr>condition_expr = w, o_action = a, o_priority = (case p of None \<Rightarrow> 100 | Some n \<Rightarrow> n)\<rparr>)
                        (sp_overrides spec)
      in (\<lparr>versions = map (\<lambda>(v, a). (v, False)) (versions db) @ [(vid, True)],
           rule_rows = rule_rows db @ map (Pair vid) (rules @ default),
           override_rows = override_rows db @ map (Pair vid) overrides,
           next_version = Suc vid\<rparr>, vid))"

definition empty_policy_db :: policy_db where
  "empty_policy_db = \<lparr>versions = [], rule_rows = [], override_rows = [], next_version = 1\<rparr>"

text \<open>\<open>None\<close> when an active version exists and \<open>--reset\<close> is not given.\<close>

definition seed_main :: "bool \<Rightarrow> policy_spec \<Rightarrow> policy_db \<Rightarrow> policy_db option" where
  "seed_main do_reset spec db =
     (if do_reset then Some (fst (seed spec empty_policy_db))
      else if \<exists>v \<in> set (versions db). snd v then None
      else Some (fst (seed spec db)))"

text \<open>The shipped \<open>policy.yaml\<close>.\<close>

definition yaml_rule :: "string \<Rightarrow> string \<Rightarrow> string \<Rightarrow> string \<Rightarrow> seed_rule" where
  "yaml_rule p r e a = \<lparr>sr_purpose = Some (lit p), sr_role = Some (lit r), sr_entity = Some (lit e), sr_action = lit a, sr_priority = None\<rparr>"

definition POLICY_YAML :: policy_spec where
  "POLICY_YAML =
     \<lparr>sp_rules =
        [yaml_rule ''doc_summarize'' ''*'' ''*'' ''tokenize'', yaml_rule ''doc_summarize'' ''*'' ''CARD'' ''block'',
         yaml_rule ''data_analysis'' ''*'' ''RRN'' ''generalize'', yaml_rule ''data_analysis'' ''*'' ''AMOUNT'' ''aggregate'',
         yaml_rule ''code_help'' ''*'' ''*'' ''block'', yaml_rule ''customer_support'' ''agent_l1'' ''PHONE'' ''mask'',
         yaml_rule ''fraud_investigation'' ''agent_l2'' ''PHONE'' ''keep'', yaml_rule ''unknown'' ''*'' ''*'' ''tokenize''],
      sp_default = Some (lit ''tokenize''),
      sp_overrides = [(lit ''injection.hit'', lit ''block'', None), (lit ''risk_score >= 0.8'', lit ''block'', None)]\<rparr>"

definition shipped_ruleset :: ruleset where
  "shipped_ruleset = (case load_ruleset (fst (seed POLICY_YAML empty_policy_db)) True of
     Inr rs \<Rightarrow> rs | Inl e \<Rightarrow> \<lparr>rs_rules = [], rs_overrides = []\<rparr>)"

section \<open>Conditions\<close>

text \<open>The number of a condition that the pattern accepts can be read, so evaluation never raises.\<close>

lemma parse_float_ok:
  assumes "c \<noteq> 46" "46 \<notin> set ds"
  shows "\<exists>x. parse_float [c] = Inr x" "\<exists>x. parse_float (c # 46 # ds) = Inr x"
  using assms by (auto simp: parse_float_def)

lemma fraction_part:
  assumes "(j, d) \<in> set (rm (Opt (seqs [word ''.'', Plus (Cls False cs)])) False t i c)"
  shows "j = i \<or> (\<exists>l. drop i t = 46 # l @ drop j t \<and> j = Suc (i + length l) \<and> (\<forall>x \<in> set l. in_cls False False cs x))"
proof -
  have "(j, d) = (i, c) \<or> (\<exists>k e. (k, e) \<in> set (rm (text_re (lit ''.'')) False t i c) \<and>
      (j, d) \<in> set (rm (Rep (Cls False cs) (Suc 0) None) False t k e))"
    using assms unfolding One_nat_def rm_Opt seqs.simps rm_Seq word_def by blast
  then show ?thesis by (auto simp: rm_Plus_drop rm_text_re lit_def simp del: rm.simps)
qed

lemma risk_number:
  assumes "(b, d) \<in> set (rm (alts [seqs [word ''0'', Opt (seqs [word ''.'', Plus Digit])],
      seqs [word ''1'', Opt (seqs [word ''.'', Plus (word ''0'')])]]) False t a c)"
  shows "\<exists>x. parse_float (slice a b t) = Inr x"
proof -
  have dot: "\<not> in_cls False False [Dig] 46" "\<not> in_cls False False [Lit 48] 46"
    using not_decimal_below [of 46] by (auto simp: in_cls_def)
  have zero: "word ''0'' = Cls False [Lit 48]" by (simp add: word_def text_re_def lit_def)
  have first: "k \<noteq> 46 \<and> drop a t = k # drop (Suc a) t \<and> e = Suc a"
    if "(e, f) \<in> set (rm (Cls False [Lit k]) False t a c)" "k \<noteq> 46" for e f k
    using that by (auto simp: in_cls_def Cons_nth_drop_Suc split: if_splits)
  have one: "word ''1'' = Cls False [Lit 49]" by (simp add: word_def text_re_def lit_def)
  have "(\<exists>e f. (e, f) \<in> set (rm (Cls False [Lit 48]) False t a c) \<and>
        (b, d) \<in> set (rm (Opt (seqs [word ''.'', Plus Digit])) False t e f)) \<or>
      (\<exists>e f. (e, f) \<in> set (rm (Cls False [Lit 49]) False t a c) \<and>
        (b, d) \<in> set (rm (Opt (seqs [word ''.'', Plus (Cls False [Lit 48])])) False t e f))"
    using assms unfolding alts.simps seqs.simps rm_Alt rm_Seq zero one by blast
  then obtain k e f cs where k: "k \<noteq> 46" "drop a t = k # drop (Suc a) t" "e = Suc a" "\<not> in_cls False False cs 46"
    and r: "(b, d) \<in> set (rm (Opt (seqs [word ''.'', Plus (Cls False cs)])) False t e f)"
    using dot first [of _ _ 48] first [of _ _ 49] by (elim disjE exE conjE) (metis numeral_eq_iff semiring_norm(85,87,89))+
  from fraction_part [OF r] have "slice a b t = [k] \<or> (\<exists>l. slice a b t = k # 46 # l \<and> 46 \<notin> set l)"
    using k by (auto simp: slice_def)
  with parse_float_ok(1) [of k "[]"] parse_float_ok(2) [of k] k(1) show ?thesis by auto
qed

lemma eval_condition_total: "\<exists>b. eval_condition expr risk hit = Inr b"
proof (cases "strip expr = lit ''injection.hit''")
  case True
  then show ?thesis by (simp add: eval_condition_def Let_def)
next
  case False
  let ?e = "strip expr"
  show ?thesis
  proof (cases "re_fullmatch RISK_SCORE_RE False ?e")
    case None
    with False show ?thesis by (intro exI [of _ False]) (simp add: eval_condition_def Let_def)
  next
    case (Some m)
    have "(mend m, mcaps m) \<in> set (rm RISK_SCORE_RE False ?e 0 [])" using re_fullmatch_Some [OF Some] by (rule conjunct2)
    moreover have "must 1 RISK_SCORE_RE" by code_simp
    ultimately obtain a b r c0 d0 where g: "group ?e m 1 = Some (slice a b ?e)" "(1, r) \<in> set (subgroups RISK_SCORE_RE)"
      "(b, d0) \<in> set (rm r False ?e a c0)"
      by (rule rm_group [of m RISK_SCORE_RE False ?e 0 1, OF _ le0]) blast+
    have "r = alts [seqs [word ''0'', Opt (seqs [word ''.'', Plus Digit])], seqs [word ''1'', Opt (seqs [word ''.'', Plus (word ''0'')])]]"
    proof -
      have "subgroups (word w) = []" for w
        by (induction w rule: induct_list012) (simp_all add: word_def text_re_def lit_def)
      with g(2) show ?thesis by (auto simp: RISK_SCORE_RE_def)
    qed
    with risk_number g(3) obtain x where "parse_float (slice a b ?e) = Inr x" by blast
    with False Some g(1) show ?thesis by (simp add: eval_condition_def Let_def)
  qed
qed

definition fires :: "pyfloat \<Rightarrow> bool \<Rightarrow> override \<Rightarrow> bool" where
  "fires risk hit ov \<longleftrightarrow> eval_condition (condition_expr ov) risk hit = Inr True"

lemma filter_result_Inr: "\<forall>x \<in> set xs. f x = Inr (P x) \<Longrightarrow> filter_result f xs = Inr (filter P xs)"
  by (induction xs) auto

lemma fired_overrides:
  "filter_result (\<lambda>ov. eval_condition (condition_expr ov) risk hit) (os :: override list) = Inr (filter (fires risk hit) os)"
proof (rule filter_result_Inr, intro ballI)
  fix ov :: override
  obtain b where "eval_condition (condition_expr ov) risk hit = Inr b" using eval_condition_total by blast
  then show "eval_condition (condition_expr ov) risk hit = Inr (fires risk hit ov)" by (simp add: fires_def)
qed

lemma max_by_filter:
  assumes "filter P xs = y # ys"
  shows "max_by k y ys \<in> set xs \<and> P (max_by k y ys) \<and> (\<forall>x \<in> set xs. P x \<longrightarrow> k x \<le> k (max_by k y ys))"
proof -
  have s: "insert y (set ys) = {x \<in> set xs. P x}" using arg_cong [OF assms, of set] by auto
  with max_by_in [of k y ys] max_by_ge [of _ y ys k] show ?thesis by auto
qed

lemma pick_action_total: "\<exists>a. pick_action rs pu rl et risk hit = Inr a"
  by (auto simp: pick_action_def fired_overrides split: list.splits)

text \<open>The action of the rules for one span, and the stage once the rules are in the cache.\<close>

definition action_for :: "ruleset \<Rightarrow> pystr \<Rightarrow> ctx \<Rightarrow> span \<Rightarrow> pystr" where
  "action_for rs pu c s = (case pick_action rs pu (role c) (stype s) (risk_score c) (ihit (injection c)) of Inr a \<Rightarrow> a | Inl e \<Rightarrow> [])"

lemma action_for_Inr: "pick_action rs pu (role c) (stype s) (risk_score c) (ihit (injection c)) = Inr (action_for rs pu c s)"
  using pick_action_total [of rs pu "role c" "stype s" "risk_score c" "ihit (injection c)"] by (auto simp: action_for_def)

lemma note_action_simps [stage_simps]:
  "span_actions (note_action pu s a c) = span_actions c @ [(s, a)]" "blocked (note_action pu s a c) \<longleftrightarrow> blocked c \<or> a = lit ''block''"
  "role (note_action pu s a c) = role c" "risk_score (note_action pu s a c) = risk_score c"
  "injection (note_action pu s a c) = injection c" "purpose (note_action pu s a c) = purpose c"
  "turns (note_action pu s a c) = turns c" "new_turn_spans (note_action pu s a c) = new_turn_spans c"
  "session_id (note_action pu s a c) = session_id c" "direction (note_action pu s a c) = direction c"
  "provider (note_action pu s a c) = provider c"
  by (simp_all add: note_action_def Let_def)

definition noted :: "ruleset \<Rightarrow> pystr \<Rightarrow> span list \<Rightarrow> ctx \<Rightarrow> ctx" where
  "noted rs pu ss c = foldl (\<lambda>c s. note_action pu s (action_for rs pu c s) c) c ss"

lemma noted_simps [stage_simps]:
  "span_actions (noted rs pu ss c) = span_actions c @ map (\<lambda>s. (s, action_for rs pu c s)) ss"
  "blocked (noted rs pu ss c) \<longleftrightarrow> blocked c \<or> (\<exists>s \<in> set ss. action_for rs pu c s = lit ''block'')"
  "purpose (noted rs pu ss c) = purpose c" "turns (noted rs pu ss c) = turns c"
  "session_id (noted rs pu ss c) = session_id c" "direction (noted rs pu ss c) = direction c"
  "risk_score (noted rs pu ss c) = risk_score c" "role (noted rs pu ss c) = role c" "provider (noted rs pu ss c) = provider c"
  "new_turn_spans (noted rs pu ss c) = new_turn_spans c" "injection (noted rs pu ss c) = injection c"
proof -
  have eq: "action_for rs pu (note_action pu s' a c) s = action_for rs pu c s" for s s' a c
    by (simp add: action_for_def stage_simps)
  show "span_actions (noted rs pu ss c) = span_actions c @ map (\<lambda>s. (s, action_for rs pu c s)) ss"
    "blocked (noted rs pu ss c) \<longleftrightarrow> blocked c \<or> (\<exists>s \<in> set ss. action_for rs pu c s = lit ''block'')"
    "purpose (noted rs pu ss c) = purpose c" "turns (noted rs pu ss c) = turns c"
    "session_id (noted rs pu ss c) = session_id c" "direction (noted rs pu ss c) = direction c"
    "risk_score (noted rs pu ss c) = risk_score c" "role (noted rs pu ss c) = role c" "provider (noted rs pu ss c) = provider c"
    "new_turn_spans (noted rs pu ss c) = new_turn_spans c" "injection (noted rs pu ss c) = injection c"
    by (induction ss arbitrary: c; simp add: noted_def stage_simps eq)+
qed

lemma decide_spans_cached: "decide_spans db pu ss c (Some rs, w) = ((Some rs, w), noted rs pu ss c, None)"
  by (induction ss arbitrary: c) (simp_all add: noted_def decide_def get_ruleset_def action_for_Inr)

lemma decide_spans_cases:
  obtains (error) "ss \<noteq> []" "cache = None" "\<not> w_db w 0"
      "decide_spans db pu ss c (cache, w) = ((None, fst (connect w)), c, Some DbError)"
  | (decided) cache' w' rs where "decide_spans db pu ss c (cache, w) = ((cache', w'), noted rs pu ss c, None)"
      "ss = [] \<or> cache' = Some rs" "w' = w \<or> w' = fst (connect w)"
proof (cases "ss = [] \<or> cache \<noteq> None")
  case True
  then show ?thesis
  proof
    assume "ss = []"
    then show ?thesis by (intro decided [of cache w undefined]) (simp_all add: noted_def)
  next
    assume "cache \<noteq> None"
    then obtain rs where "cache = Some rs" by blast
    then show ?thesis by (intro decided [of cache w rs]) (simp_all add: decide_spans_cached)
  qed
next
  case False
  then obtain s ss' where ss: "ss = s # ss'" "cache = None" by (cases ss) auto
  show ?thesis
  proof (cases "w_db w 0")
    case True
    have "\<exists>rs. load_ruleset db True = Inr rs" by (simp add: load_ruleset_def split: option.split)
    then obtain rs where rs: "load_ruleset db True = Inr rs" by blast
    have "decide_spans db pu ss c (cache, w) = decide_spans db pu ss c (Some rs, fst (connect w))"
      using True by (simp add: ss decide_def get_ruleset_def case_prod_beta world_simps rs action_for_Inr)
    then show ?thesis by (intro decided [of "Some rs" "fst (connect w)" rs]) (simp_all add: decide_spans_cached)
  next
    case down: False
    then have "load_ruleset db (w_db w 0) = Inl DbError" by (simp add: load_ruleset_def)
    then show ?thesis using ss down
      by (intro error) (simp_all add: decide_def get_ruleset_def case_prod_beta world_simps)
  qed
qed

section \<open>Properties\<close>

text \<open>C26: Choosing an action never fails. If an override fires, the action is that of a firing override of
  greatest priority; otherwise it is that of a matching rule that no matching rule exceeds in
  (specificity, priority); with no matching rule it is tokenize.\<close>

theorem pick_action_decides:
  "\<exists>a. pick_action rs pu rl et risk hit = Inr a \<and>
    (if \<exists>ov \<in> set (rs_overrides rs). fires risk hit ov
     then \<exists>ov \<in> set (rs_overrides rs). fires risk hit ov \<and> a = o_action ov \<and>
       (\<forall>ov' \<in> set (rs_overrides rs). fires risk hit ov' \<longrightarrow> o_priority ov' \<le> o_priority ov)
     else if \<exists>r \<in> set (rs_rules rs). rule_matches pu rl et r
     then \<exists>r \<in> set (rs_rules rs). rule_matches pu rl et r \<and> a = r_action r \<and>
       (\<forall>r' \<in> set (rs_rules rs). rule_matches pu rl et r' \<longrightarrow>
          (specificity r', r_priority r') \<le> (specificity r, r_priority r))
     else a = lit ''tokenize'')"
proof (cases "filter (fires risk hit) (rs_overrides rs)")
  case (Cons f fs)
  let ?m = "max_by o_priority f fs"
  have a: "pick_action rs pu rl et risk hit = Inr (o_action ?m)" by (simp add: pick_action_def fired_overrides Cons)
  from max_by_filter [OF Cons, of o_priority] show ?thesis unfolding a by (auto simp del: max_by.simps)
next
  case Nil
  then have none: "\<not> (\<exists>ov \<in> set (rs_overrides rs). fires risk hit ov)" by (simp add: filter_empty_conv)
  show ?thesis
  proof (cases "filter (rule_matches pu rl et) (rs_rules rs)")
    case Nil2: Nil
    then have "\<not> (\<exists>r \<in> set (rs_rules rs). rule_matches pu rl et r)" by (simp add: filter_empty_conv)
    with none show ?thesis by (simp add: pick_action_def fired_overrides Nil Nil2 FALLBACK_ACTION_def)
  next
    case (Cons c cs)
    let ?m = "max_by (\<lambda>r. (specificity r, r_priority r)) c cs"
    have a: "pick_action rs pu rl et risk hit = Inr (r_action ?m)" by (simp add: pick_action_def fired_overrides Nil Cons)
    from max_by_filter [OF Cons, of "\<lambda>r. (specificity r, r_priority r)"] none show ?thesis
      unfolding a by (auto simp del: max_by.simps less_eq_prod_simp)
  qed
qed

theorem pick_action_decides_witness:
  "\<exists>r \<in> set (rs_rules shipped_ruleset). rule_matches (lit ''code_help'') None (lit ''RRN'') r \<and>
    pick_action shipped_ruleset (lit ''code_help'') None (lit ''RRN'') 0 False = Inr (r_action r)"
proof -
  have "\<not> (\<exists>ov \<in> set (rs_overrides shipped_ruleset). fires 0 False ov)"
    "\<exists>r \<in> set (rs_rules shipped_ruleset). rule_matches (lit ''code_help'') None (lit ''RRN'') r"
    by code_simp+
  with pick_action_decides [of shipped_ruleset "lit ''code_help''" None "lit ''RRN''" 0 False] show ?thesis by auto
qed

text \<open>The shipped policy as a table: high risk and injections block, so do code requests and cards in
  summaries; a phone number is kept only for second-level agents who investigate fraud.\<close>

theorem shipped_policy_table:
  "pick_action shipped_ruleset pu rl et risk hit = Inr
    (if hit \<or> fl (8 / 10) \<le> risk then lit ''block''
     else if pu = lit ''code_help'' \<or> pu = lit ''doc_summarize'' \<and> et = lit ''CARD'' then lit ''block''
     else if pu = lit ''data_analysis'' \<and> et = lit ''RRN'' then lit ''generalize''
     else if pu = lit ''data_analysis'' \<and> et = lit ''AMOUNT'' then lit ''aggregate''
     else if pu = lit ''customer_support'' \<and> rl = Some (lit ''agent_l1'') \<and> et = lit ''PHONE'' then lit ''mask''
     else if pu = lit ''fraud_investigation'' \<and> rl = Some (lit ''agent_l2'') \<and> et = lit ''PHONE'' then lit ''keep''
     else lit ''tokenize'')"
proof -
  have ev: "eval_condition (lit ''injection.hit'') risk h = Inr h" for h
  proof -
    have "strip (lit ''injection.hit'') = lit ''injection.hit''" by code_simp
    then show ?thesis by (simp add: eval_condition_def)
  qed
  have er: "eval_condition (lit ''risk_score >= 0.8'') risk h = Inr (fl (8 / 10) \<le> risk)" for h
  proof -
    let ?e = "lit ''risk_score >= 0.8''"
    have "strip ?e = ?e" by code_simp
    moreover have "map_option (\<lambda>m. group ?e m 1) (re_fullmatch RISK_SCORE_RE False ?e) = Some (Some (lit ''0.8''))" by code_simp
    moreover have "parse_float (lit ''0.8'') = Inr (fl (8 / 10))" by code_simp
    ultimately show ?thesis by (auto simp: eval_condition_def)
  qed
  have rules: "rs_rules shipped_ruleset =
      [\<lparr>r_purpose = Some (lit ''doc_summarize''), r_role = None, r_entity = None, r_action = lit ''tokenize'', r_priority = 0\<rparr>,
       \<lparr>r_purpose = Some (lit ''doc_summarize''), r_role = None, r_entity = Some (lit ''CARD''), r_action = lit ''block'', r_priority = 0\<rparr>,
       \<lparr>r_purpose = Some (lit ''data_analysis''), r_role = None, r_entity = Some (lit ''RRN''), r_action = lit ''generalize'', r_priority = 0\<rparr>,
       \<lparr>r_purpose = Some (lit ''data_analysis''), r_role = None, r_entity = Some (lit ''AMOUNT''), r_action = lit ''aggregate'', r_priority = 0\<rparr>,
       \<lparr>r_purpose = Some (lit ''code_help''), r_role = None, r_entity = None, r_action = lit ''block'', r_priority = 0\<rparr>,
       \<lparr>r_purpose = Some (lit ''customer_support''), r_role = Some (lit ''agent_l1''), r_entity = Some (lit ''PHONE''), r_action = lit ''mask'', r_priority = 0\<rparr>,
       \<lparr>r_purpose = Some (lit ''fraud_investigation''), r_role = Some (lit ''agent_l2''), r_entity = Some (lit ''PHONE''), r_action = lit ''keep'', r_priority = 0\<rparr>,
       \<lparr>r_purpose = Some (lit ''unknown''), r_role = None, r_entity = None, r_action = lit ''tokenize'', r_priority = 0\<rparr>,
       \<lparr>r_purpose = None, r_role = None, r_entity = None, r_action = lit ''tokenize'', r_priority = -1\<rparr>]"
    and overrides: "rs_overrides shipped_ruleset =
      [\<lparr>condition_expr = lit ''injection.hit'', o_action = lit ''block'', o_priority = 100\<rparr>,
       \<lparr>condition_expr = lit ''risk_score >= 0.8'', o_action = lit ''block'', o_priority = 100\<rparr>]"
    by code_simp+
  have fired: "filter (fires risk hit) (rs_overrides shipped_ruleset) = [] \<longleftrightarrow> \<not> (hit \<or> fl (8 / 10) \<le> risk)"
    "\<forall>ov \<in> set (rs_overrides shipped_ruleset). o_action ov = lit ''block''"
    by (simp_all add: overrides fires_def ev er)
  show ?thesis
  proof (cases "hit \<or> fl (8 / 10) \<le> risk")
    case True
    then obtain f fs where f: "filter (fires risk hit) (rs_overrides shipped_ruleset) = f # fs" using fired(1) by (cases "filter (fires risk hit) (rs_overrides shipped_ruleset)") auto
    have "max_by o_priority f fs \<in> set (rs_overrides shipped_ruleset)" using max_by_filter [OF f] by blast
    with fired(2) True show ?thesis by (simp add: pick_action_def fired_overrides f)
  next
    case False
    with fired(1) have "filter (fires risk hit) (rs_overrides shipped_ruleset) = []" by blast
    with False show ?thesis
      by (auto simp: pick_action_def fired_overrides rules rule_matches_def specificity_def less_prod_simp)
  qed
qed

text \<open>The purpose of a request, and the rules it is judged by: those in the cache, else those the database gives.\<close>

definition request_purpose :: "turn list \<Rightarrow> pystr" where
  "request_purpose ts = fst (classify (case last_user_text ts of None \<Rightarrow> [] | Some t \<Rightarrow> t))"

definition rules_in_force :: "policy_db \<Rightarrow> ruleset option \<Rightarrow> bool \<Rightarrow> ruleset result" where
  "rules_in_force db cache up = (case cache of Some rs \<Rightarrow> Inr rs | None \<Rightarrow> load_ruleset db up)"

lemma load_ruleset_cases: "(\<exists>rs. load_ruleset db up = Inr rs) = up" "\<not> up \<Longrightarrow> load_ruleset db up = Inl DbError"
  by (auto simp: load_ruleset_def split: option.split)

lemma decide_spans_uncached:
  assumes "load_ruleset db True = Inr rs" "w_db w 0" "ss \<noteq> []"
  shows "decide_spans db pu ss c (None, w) = ((Some rs, fst (connect w)), noted rs pu ss c, None)"
proof -
  obtain s ss' where ss: "ss = s # ss'" using assms(3) by (cases ss) auto
  have "decide_spans db pu ss c (None, w) = decide_spans db pu ss c (Some rs, fst (connect w))"
    using assms(1,2) by (simp add: ss decide_def get_ruleset_def case_prod_beta world_simps action_for_Inr)
  then show ?thesis by (simp add: decide_spans_cached)
qed

text \<open>The stage in full, by the rules in force.\<close>

lemma policy_stage_spec:
  assumes "direction c = lit ''input''" "\<not> blocked c" "span_actions c = []" "purpose_policy_stage db c (cache, w) = ((cache', w'), c')"
  shows "purpose c' = Some (request_purpose (turns c)) \<and>
    (case rules_in_force db cache (w_db w 0) of
       Inr rs \<Rightarrow> span_actions c' = map (\<lambda>s. (s, action_for rs (request_purpose (turns c)) c s)) (new_turn_spans c) \<and>
         (blocked c' \<longleftrightarrow> (\<exists>s \<in> set (new_turn_spans c). action_for rs (request_purpose (turns c)) c s = lit ''block'')) \<and>
         (new_turn_spans c \<noteq> [] \<longrightarrow> cache' = Some rs)
     | Inl e \<Rightarrow> span_actions c' = [] \<and> (blocked c' \<longleftrightarrow> new_turn_spans c \<noteq> []))"
proof -
  obtain p conf where cl: "classify (case last_user_text (turns c) of None \<Rightarrow> [] | Some t \<Rightarrow> t) = (p, conf)" by fastforce
  then have p: "request_purpose (turns c) = p" by (simp add: request_purpose_def)
  let ?c = "c\<lparr>purpose := Some p, purpose_confidence := Some conf\<rparr>" and ?ss = "new_turn_spans c"
  have af: "action_for rs p ?c s = action_for rs p c s" for rs s by (simp add: action_for_def)
  have stage: "purpose_policy_stage db c (cache, w) = (case decide_spans db p ?ss ?c (cache, w) of (st, c, None) \<Rightarrow> (st, c) | (st, c, Some e) \<Rightarrow> (st, policy_error c))"
    using assms(1) by (simp add: purpose_policy_stage_def cl)
  show ?thesis
  proof (cases "rules_in_force db cache (w_db w 0)")
    case (Inr rs)
    have "\<exists>st. decide_spans db p ?ss ?c (cache, w) = (st, noted rs p ?ss ?c, None) \<and> (?ss \<noteq> [] \<longrightarrow> fst st = Some rs)"
    proof (cases cache)
      case None
      then have "load_ruleset db (w_db w 0) = Inr rs" "w_db w 0" using Inr load_ruleset_cases(1) [of db "w_db w 0"] by (auto simp: rules_in_force_def)
      with None decide_spans_uncached [of db rs w ?ss p ?c] show ?thesis by (cases "?ss = []") (simp_all add: noted_def)
    next
      case (Some rs')
      with Inr show ?thesis by (simp add: rules_in_force_def decide_spans_cached)
    qed
    then obtain st where "decide_spans db p ?ss ?c (cache, w) = (st, noted rs p ?ss ?c, None)" "?ss \<noteq> [] \<longrightarrow> fst st = Some rs" by blast
    with assms(2-4) show ?thesis by (auto simp: stage Inr p stage_simps af)
  next
    case (Inl e)
    then have n: "cache = None" "\<not> w_db w 0" using load_ruleset_cases(1) [of db "w_db w 0"] by (auto simp: rules_in_force_def split: option.splits)
    show ?thesis
    proof (cases ?ss)
      case Nil
      then have "c' = ?c" using stage assms(4) by simp
      with Nil Inl assms(2,3) show ?thesis by (simp add: p)
    next
      case (Cons s ss)
      with n load_ruleset_cases(2) [of "w_db w 0" db] have "decide_spans db p ?ss ?c (cache, w) = ((None, fst (connect w)), ?c, Some DbError)"
        by (simp add: decide_def get_ruleset_def case_prod_beta world_simps)
      with Cons assms(2-4) show ?thesis by (auto simp: stage Inl p policy_error_def)
    qed
  qed
qed

text \<open>C25: The policy stage decides a request by the class of its last user turn and by the rules in force, which are those
  in the cache, else those of the database: every span gets the action of these rules, and the request is
  blocked exactly when one of them is block. When no rules are cached and the database is down, exactly the requests
  with a span are blocked.\<close>

theorem policy_stage_complete:
  assumes "direction c = lit ''input''" "\<not> blocked c" "span_actions c = []" "purpose_policy_stage db c (cache, w) = ((cache', w'), c')"
  shows "purpose c' = Some (request_purpose (turns c)) \<and>
    (case rules_in_force db cache (w_db w 0) of
       Inr rs \<Rightarrow> span_actions c' = map (\<lambda>s. (s, action_for rs (request_purpose (turns c)) c s)) (new_turn_spans c) \<and>
         (blocked c' \<longleftrightarrow> (\<exists>s \<in> set (new_turn_spans c). action_for rs (request_purpose (turns c)) c s = lit ''block'')) \<and>
         (new_turn_spans c \<noteq> [] \<longrightarrow> cache' = Some rs)
     | Inl e \<Rightarrow> span_actions c' = [] \<and> (blocked c' \<longleftrightarrow> new_turn_spans c \<noteq> []))"
  using assms by (rule policy_stage_spec)

definition policy_ctx :: ctx where
  "policy_ctx = (new_ctx (lit ''s'') (lit ''input'') (lit ''gateway'') None [\<lparr>trole = lit ''user'', ttext = lit ''hi''\<rparr>])
     \<lparr>new_turn_spans := [\<lparr>stype = lit ''RRN'', svalue = lit ''hi'', sstart = 0, send = 2, sconfidence = 1, ssource = lit ''dict''\<rparr>]\<rparr>"

theorem policy_stage_complete_witness:
  "\<not> blocked (snd (purpose_policy_stage (fst (seed POLICY_YAML empty_policy_db)) policy_ctx (None, sample_world))) \<and>
   blocked (snd (purpose_policy_stage empty_policy_db policy_ctx (None, sample_world\<lparr>w_db := (\<lambda>k. False)\<rparr>)))"
proof -
  let ?r = "purpose_policy_stage (fst (seed POLICY_YAML empty_policy_db)) policy_ctx (None, sample_world)"
  let ?d = "purpose_policy_stage empty_policy_db policy_ctx (None, sample_world\<lparr>w_db := (\<lambda>k. False)\<rparr>)"
  have r: "?r = ((fst (fst ?r), snd (fst ?r)), snd ?r)" and d: "?d = ((fst (fst ?d), snd (fst ?d)), snd ?d)" by simp_all
  have c: "direction policy_ctx = lit ''input''" "\<not> blocked policy_ctx" "span_actions policy_ctx = []" "new_turn_spans policy_ctx \<noteq> []"
    by (simp_all add: policy_ctx_def new_ctx_def)
  have "rules_in_force empty_policy_db None False = Inl DbError" by code_simp
  with policy_stage_complete [OF c(1-3) d] c(4) have "blocked (snd ?d)" by simp
  moreover have "case rules_in_force (fst (seed POLICY_YAML empty_policy_db)) None True of
      Inr rs \<Rightarrow> \<not> (\<exists>s \<in> set (new_turn_spans policy_ctx). action_for rs (request_purpose (turns policy_ctx)) policy_ctx s = lit ''block'') | Inl e \<Rightarrow> False"
    by code_simp
  then have "\<not> blocked (snd ?r)" using policy_stage_complete [OF c(1-3) r] by (auto simp: sample_world_def split: sum.splits)
  ultimately show ?thesis by blast
qed

end
