(* ===== verification/Regex_Rules.thy ===== *)
theory Regex_Rules
  imports Models Py_Regex
begin

text \<open>
  \<open>app/detect/regex_rules.py\<close>: detection of structured identifiers by pattern and checksum.
  The six patterns are written out as \<open>re\<close> terms; \<open>detect\<close> of the source is \<open>regex_detect\<close>.
  The functions return a \<open>result\<close> because \<open>int(ch)\<close> raises on a character that \<open>isdigit()\<close>
  accepts but that is no decimal digit; \<open>regex_detect_total\<close> shows that no text makes the
  layer raise.
\<close>

section \<open>Patterns\<close>

definition not_after_digit :: re where "not_after_digit = Behind True [Dig]"
definition not_before_digit :: re where "not_before_digit = Ahead True [Dig]"

definition RRN_PATTERN :: re where
  "RRN_PATTERN = seqs [not_after_digit, Grp 1 (Times Digit 6), Opt (Cls False [Lit 45, Spc]),
     Grp 2 (Seq (Cls False [Rng 49 52]) (Times Digit 6)), not_before_digit]"

definition CARD_PATTERN :: re where
  "CARD_PATTERN = seqs [not_after_digit,
     Rep (Seq Digit (Opt (Cls False [Lit 32, Lit 45]))) 13 (Some 19),
     Behind False [Dig], not_before_digit]"

definition BIZNO_PATTERN :: re where
  "BIZNO_PATTERN = seqs [not_after_digit, Grp 1 (Times Digit 3), Opt (Cls False [Lit 45, Spc]),
     Grp 2 (Times Digit 2), Opt (Cls False [Lit 45, Spc]), Grp 3 (Times Digit 5), not_before_digit]"

definition PHONE_PATTERN :: re where
  "PHONE_PATTERN = seqs [not_after_digit,
     Grp 1 (alts [Seq (word ''01'') (Cls False [Lit 48, Lit 49, Lit 54, Lit 55, Lit 56, Lit 57]),
       word ''02'', seqs [word ''0'', Cls False [Rng 51 54], Digit]]),
     Opt (Cls False [Lit 45, Spc]), Rep Digit 3 (Some 4), Opt (Cls False [Lit 45, Spc]),
     Times Digit 4, not_before_digit]"

definition EMAIL_PATTERN :: re where
  "EMAIL_PATTERN = seqs [Wb, Plus (Cls False [Wrd, Lit 46, Lit 43, Lit 45]), word ''@'',
     Plus (Cls False [Wrd, Lit 45]), word ''.'', Plus (Cls False [Wrd, Lit 46, Lit 45]), Wb]"

definition ACCOUNT_PATTERN :: re where
  "ACCOUNT_PATTERN = seqs [not_after_digit, Rep Digit 2 (Some 6), word ''-'',
     Rep Digit 2 (Some 6), word ''-'', Rep Digit 2 (Some 6), not_before_digit]"

definition CHECKSUM_PASS_CONFIDENCE :: pyfloat where
  "CHECKSUM_PASS_CONFIDENCE = fl (97 / 100)"

definition CHECKSUM_FAIL_CONFIDENCE :: pyfloat where
  "CHECKSUM_FAIL_CONFIDENCE = fl (4 / 10)"

definition NO_CHECKSUM_CONFIDENCE :: pyfloat where
  "NO_CHECKSUM_CONFIDENCE = fl (65 / 100)"

definition EMAIL_CONFIDENCE :: pyfloat where
  "EMAIL_CONFIDENCE = fl (9 / 10)"

section \<open>Checksums\<close>

definition rrn_weights :: "int list" where
  "rrn_weights = [2, 3, 4, 5, 6, 7, 8, 9, 2, 3, 4, 5]"

definition rrn_check_digit :: "int list \<Rightarrow> int" where
  "rrn_check_digit ns =
     (let tot = sum_list (map2 (*) (take 12 ns) rrn_weights) in (11 - tot mod 11) mod 10)"

definition verify_rrn_checksum :: "pystr \<Rightarrow> bool result" where
  "verify_rrn_checksum digits =
     (if length digits \<noteq> 13 \<or> \<not> py_isdigit digits then Inr False
      else bind_result (py_ints digits) (\<lambda>ns. Inr (rrn_check_digit ns = ns ! 12)))"

definition luhn_double :: "int \<Rightarrow> int" where
  "luhn_double n = (let n = n * 2 in if n > 9 then n - 9 else n)"

fun luhn_total :: "nat \<Rightarrow> int list \<Rightarrow> int \<Rightarrow> int" where
  "luhn_total i [] acc = acc"
| "luhn_total i (n # ns) acc =
     luhn_total (Suc i) ns (acc + (if i mod 2 = 1 then luhn_double n else n))"

definition verify_luhn :: "pystr \<Rightarrow> bool result" where
  "verify_luhn digits =
     (if \<not> py_isdigit digits \<or> \<not> (13 \<le> length digits \<and> length digits \<le> 19) then Inr False
      else bind_result (py_ints (rev digits)) (\<lambda>ns. Inr (luhn_total 0 ns 0 mod 10 = 0)))"

definition bizno_weights :: "int list" where
  "bizno_weights = [1, 3, 7, 1, 3, 7, 1, 3, 5]"

definition bizno_check_digit :: "int list \<Rightarrow> int" where
  "bizno_check_digit ns =
     (let tot = sum_list (map2 (*) (take 9 ns) bizno_weights) + (ns ! 8 * 5) div 10
      in (10 - tot mod 10) mod 10)"

definition verify_bizno_checksum :: "pystr \<Rightarrow> bool result" where
  "verify_bizno_checksum digits =
     (if length digits \<noteq> 10 \<or> \<not> py_isdigit digits then Inr False
      else bind_result (py_ints digits) (\<lambda>ns. Inr (bizno_check_digit ns = ns ! 9)))"

section \<open>Detection\<close>

definition regex_span :: "pystr \<Rightarrow> pystr \<Rightarrow> pyfloat \<Rightarrow> match \<Rightarrow> span" where
  "regex_span t ty conf m = \<lparr>stype = ty, svalue = group0 t m, sstart = mstart m, send = mend m,
     sconfidence = conf, ssource = lit ''regex''\<rparr>"

definition checksum_confidence :: "bool \<Rightarrow> pyfloat" where
  "checksum_confidence passed = (if passed then CHECKSUM_PASS_CONFIDENCE else CHECKSUM_FAIL_CONFIDENCE)"

text \<open>\<open>m.group(1) + m.group(2) + ...\<close>; adding an unset group (\<open>None\<close>) raises.\<close>

definition groups_text :: "pystr \<Rightarrow> match \<Rightarrow> nat list \<Rightarrow> pystr result" where
  "groups_text t m ks =
     bind_result (map_result (\<lambda>k. the_result TypeError (group t m k)) ks) (\<lambda>gs. Inr (concat gs))"

definition detect_rrn :: "pystr \<Rightarrow> span list result" where
  "detect_rrn t = map_result (\<lambda>m.
     bind_result (groups_text t m [1, 2]) (\<lambda>digits.
     bind_result (verify_rrn_checksum digits) (\<lambda>passed.
       Inr (regex_span t (lit ''RRN'') (checksum_confidence passed) m))))
     (re_finditer RRN_PATTERN False t)"

definition card_digits :: "pystr \<Rightarrow> pystr" where
  "card_digits raw = re_sub (Cls False [Lit 32, Lit 45]) False (\<lambda>_. []) raw"

definition detect_card :: "pystr \<Rightarrow> span list result" where
  "detect_card t = map_result (\<lambda>m.
     bind_result (verify_luhn (card_digits (group0 t m))) (\<lambda>passed.
       Inr (regex_span t (lit ''CARD'') (checksum_confidence passed) m)))
     (re_finditer CARD_PATTERN False t)"

definition detect_bizno :: "pystr \<Rightarrow> span list result" where
  "detect_bizno t = map_result (\<lambda>m.
     bind_result (groups_text t m [1, 2, 3]) (\<lambda>digits.
     bind_result (verify_bizno_checksum digits) (\<lambda>passed.
       Inr (regex_span t (lit ''BIZNO'') (checksum_confidence passed) m))))
     (re_finditer BIZNO_PATTERN False t)"

definition detect_phone :: "pystr \<Rightarrow> span list" where
  "detect_phone t =
     map (regex_span t (lit ''PHONE'') NO_CHECKSUM_CONFIDENCE) (re_finditer PHONE_PATTERN False t)"

definition detect_email :: "pystr \<Rightarrow> span list" where
  "detect_email t =
     map (regex_span t (lit ''EMAIL'') EMAIL_CONFIDENCE) (re_finditer EMAIL_PATTERN False t)"

definition detect_account :: "pystr \<Rightarrow> span list" where
  "detect_account t =
     map (regex_span t (lit ''ACCOUNT'') NO_CHECKSUM_CONFIDENCE) (re_finditer ACCOUNT_PATTERN False t)"

definition spans_overlap :: "span \<Rightarrow> span \<Rightarrow> bool" where
  "spans_overlap a b = (sstart a < send b \<and> sstart b < send a)"

text \<open>CARD and PHONE win over ACCOUNT: an account candidate that overlaps one is dropped.\<close>

definition regex_detect :: "pystr \<Rightarrow> span list result" where
  "regex_detect t =
     bind_result (detect_rrn t) (\<lambda>rrn_spans.
     bind_result (detect_card t) (\<lambda>card_spans.
     bind_result (detect_bizno t) (\<lambda>bizno_spans.
       let phone_spans = detect_phone t;
           email_spans = detect_email t;
           higher_priority = card_spans @ phone_spans;
           account_spans = filter (\<lambda>s. \<not> (\<exists>hp \<in> set higher_priority. spans_overlap s hp))
             (detect_account t)
       in Inr (rrn_spans @ card_spans @ bizno_spans @ phone_spans @ email_spans @ account_spans))))"

section \<open>What the patterns match\<close>

text \<open>
  The pieces of the digit patterns: exactly \<open>n\<close> decimal digits, an optional separator, and no
  decimal digit on either side. \<open>piece_iff\<close> takes a pattern apart into these.
\<close>

definition decimals :: "pystr \<Rightarrow> bool" where
  "decimals s \<longleftrightarrow> (\<forall>c \<in> set s. is_decimal c)"

definition ndigits :: "nat \<Rightarrow> pystr \<Rightarrow> nat \<Rightarrow> nat \<Rightarrow> bool" where
  "ndigits n t i j \<longleftrightarrow> j = i + n \<and> j \<le> length t \<and> decimals (slice i j t)"

definition opt_sep :: "pystr \<Rightarrow> nat \<Rightarrow> nat \<Rightarrow> bool" where
  "opt_sep t i k \<longleftrightarrow> k = i \<or> k = Suc i \<and> i < length t \<and> (t ! i = 45 \<or> is_space (t ! i))"

definition no_digit_around :: "pystr \<Rightarrow> nat \<Rightarrow> nat \<Rightarrow> bool" where
  "no_digit_around t i j \<longleftrightarrow>
     \<not> (0 < i \<and> i \<le> length t \<and> is_decimal (t ! (i - 1))) \<and> \<not> (j < length t \<and> is_decimal (t ! j))"

lemma in_cls_Dig [simp]: "in_cls ic False [Dig] c = is_decimal c"
  by (simp add: in_cls_def)

lemma in_cls_sep: "in_cls ic False [Lit 45, Spc] c \<longleftrightarrow> c = 45 \<or> is_space c"
  by (cases ic) (auto simp: in_cls_def ci_fold_def)

lemma in_cls_1to4: "in_cls False False [Rng 49 52] c \<longleftrightarrow> 49 \<le> c \<and> c \<le> 52"
  by (simp add: in_cls_def)

lemma rm_not_after_digit: "(j, d) \<in> set (rm not_after_digit ic t i c) \<longleftrightarrow>
   j = i \<and> d = c \<and> \<not> (0 < i \<and> i \<le> length t \<and> is_decimal (t ! (i - 1)))"
  by (auto simp: not_after_digit_def)

lemma rm_not_before_digit: "(j, d) \<in> set (rm not_before_digit ic t i c) \<longleftrightarrow>
   j = i \<and> d = c \<and> \<not> (i < length t \<and> is_decimal (t ! i))"
  by (auto simp: not_before_digit_def)

lemma rm_opt_sep: "(j, d) \<in> set (rm (Opt (Cls False [Lit 45, Spc])) ic t i c) \<longleftrightarrow> d = c \<and> opt_sep t i j"
  by (simp only: rm_Opt_cls in_cls_sep opt_sep_def)

lemma rm_ndigits: "0 < n \<Longrightarrow> (j, d) \<in> set (rm (Times Digit n) ic t i c) \<longleftrightarrow> d = c \<and> ndigits n t i j"
  by (simp only: rm_Times_cls ndigits_def decimals_def in_cls_Dig) blast

lemmas piece_iff = rm_Seq rm_not_after_digit rm_not_before_digit rm_Grp rm_ndigits rm_opt_sep
  rm_Cls in_cls_1to4 zero_less_numeral simp_thms ex_simps

text \<open>
  An RRN match is six digits, an optional separator and seven digits, the first of them 1 to 4;
  a BIZNO match is three, two and five digits with optional separators.
\<close>

definition rrn_shape :: "pystr \<Rightarrow> nat \<Rightarrow> nat \<Rightarrow> nat \<Rightarrow> bool" where
  "rrn_shape t i k j \<longleftrightarrow> ndigits 6 t i (i + 6) \<and> opt_sep t (i + 6) k \<and>
     k < length t \<and> 49 \<le> t ! k \<and> t ! k \<le> 52 \<and> ndigits 6 t (Suc k) j \<and> no_digit_around t i j"

lemma rrn_match_iff:
  "(j, d) \<in> set (rm RRN_PATTERN False t i c) \<longleftrightarrow>
    (\<exists>k. rrn_shape t i k j \<and> d = (2, k, j) # (1, i, i + 6) # c)"
  unfolding RRN_PATTERN_def seqs.simps no_digit_around_def rrn_shape_def
  by (simp only: piece_iff) (auto simp: ndigits_def)

definition bizno_shape :: "pystr \<Rightarrow> nat \<Rightarrow> nat \<Rightarrow> nat \<Rightarrow> nat \<Rightarrow> bool" where
  "bizno_shape t i k l j \<longleftrightarrow> ndigits 3 t i (i + 3) \<and> opt_sep t (i + 3) k \<and> ndigits 2 t k (k + 2) \<and>
     opt_sep t (k + 2) l \<and> ndigits 5 t l j \<and> no_digit_around t i j"

lemma bizno_match_iff:
  "(j, d) \<in> set (rm BIZNO_PATTERN False t i c) \<longleftrightarrow>
    (\<exists>k l. bizno_shape t i k l j \<and> d = (3, l, j) # (2, k, k + 2) # (1, i, i + 3) # c)"
  unfolding BIZNO_PATTERN_def seqs.simps no_digit_around_def bizno_shape_def
  by (simp only: piece_iff) (auto simp: ndigits_def)

section \<open>Checksums of decimal strings\<close>

lemma decimals_append [simp]: "decimals (s @ u) \<longleftrightarrow> decimals s \<and> decimals u"
  by (auto simp: decimals_def)

lemma decimals_isdigit: "decimals s \<Longrightarrow> py_isdigit s \<longleftrightarrow> s \<noteq> []"
  by (auto simp: decimals_def py_isdigit_def is_decimal_is_digit)

lemma decimals_update: "decimals s \<Longrightarrow> is_decimal c \<Longrightarrow> decimals (s[i := c])"
  unfolding decimals_def using set_update_subset_insert [of s i c] by blast

lemma ndigits_decimals: "ndigits n t i j \<Longrightarrow> decimals (slice i j t) \<and> length (slice i j t) = n"
  by (auto simp: ndigits_def)

definition rrn_valid :: "pystr \<Rightarrow> bool" where
  "rrn_valid s \<longleftrightarrow> length s = 13 \<and> rrn_check_digit (map digit_of s) = digit_of (s ! 12)"

definition bizno_valid :: "pystr \<Rightarrow> bool" where
  "bizno_valid s \<longleftrightarrow> length s = 10 \<and> bizno_check_digit (map digit_of s) = digit_of (s ! 9)"

definition luhn_valid :: "pystr \<Rightarrow> bool" where
  "luhn_valid s \<longleftrightarrow> 13 \<le> length s \<and> length s \<le> 19 \<and> luhn_total 0 (map digit_of (rev s)) 0 mod 10 = 0"

lemma decimals_ints: "decimals s \<Longrightarrow> py_ints s = Inr (map digit_of s)"
  by (rule py_ints_decimal) (simp add: decimals_def)

lemma verify_rrn_decimals: "decimals s \<Longrightarrow> verify_rrn_checksum s = Inr (rrn_valid s)"
  by (auto simp: verify_rrn_checksum_def rrn_valid_def decimals_isdigit decimals_ints)

lemma verify_bizno_decimals: "decimals s \<Longrightarrow> verify_bizno_checksum s = Inr (bizno_valid s)"
  by (auto simp: verify_bizno_checksum_def bizno_valid_def decimals_isdigit decimals_ints)

lemma verify_luhn_decimals: "decimals s \<Longrightarrow> verify_luhn s = Inr (luhn_valid s)"
  using decimals_ints [of "rev s"]
  by (auto simp: verify_luhn_def luhn_valid_def decimals_isdigit decimals_def)

text \<open>The Luhn sum by position, and the effect of one changed digit.\<close>

definition luhn_term :: "nat \<Rightarrow> int \<Rightarrow> int" where
  "luhn_term p n = (if odd p then luhn_double n else n)"

lemma luhn_total_sum: "luhn_total i ns acc = acc + (\<Sum>p<length ns. luhn_term (i + p) (ns ! p))"
proof (induction i ns acc rule: luhn_total.induct)
  case (2 i n ns acc)
  have "(if i mod 2 = 1 then luhn_double n else n) = luhn_term i n"
    by (simp add: luhn_term_def odd_iff_mod_2_eq_one)
  with 2 show ?case
    by (simp add: sum.lessThan_Suc_shift del: sum.lessThan_Suc)
qed simp

lemma sum_one_changed:
  fixes f :: "nat \<Rightarrow> 'a \<Rightarrow> int"
  assumes "i < n" "n \<le> length ns"
  shows "(\<Sum>p<n. f p (ns[i := x] ! p)) = (\<Sum>p<n. f p (ns ! p)) - f i (ns ! i) + f i x"
proof -
  have "(\<Sum>p\<in>{..<n} - {i}. f p (ns[i := x] ! p)) = (\<Sum>p\<in>{..<n} - {i}. f p (ns ! p))"
    by (rule sum.cong) auto
  then show ?thesis
    using assms by (simp add: sum.remove [of "{..<n}" i])
qed

text \<open>A statement about two digits is decided by evaluating it on all of them.\<close>

definition ten :: "int list" where
  "ten = [0, 1, 2, 3, 4, 5, 6, 7, 8, 9]"

lemma digit_in_ten: "0 \<le> d \<Longrightarrow> d < 10 \<Longrightarrow> d \<in> set ten"
  unfolding ten_def by simp presburger

lemma two_digits:
  "list_all (\<lambda>a. list_all (P a) ten) ten \<Longrightarrow> 0 \<le> a \<Longrightarrow> a < 10 \<Longrightarrow> 0 \<le> b \<Longrightarrow> b < 10 \<Longrightarrow> P a b"
  using digit_in_ten [of a] digit_in_ten [of b] by (simp add: list_all_iff)

lemma luhn_term_inj:
  assumes "0 \<le> a" "a < 10" "0 \<le> b" "b < 10" "(luhn_term p a - luhn_term p b) mod 10 = 0"
  shows "a = b"
proof -
  have "list_all (\<lambda>a. list_all (\<lambda>b. (luhn_double a - luhn_double b) mod 10 = 0 \<or> (a - b) mod 10 = 0 \<longrightarrow> a = b) ten) ten"
    by code_simp
  from two_digits [OF this assms(1-4)] assms(5) show ?thesis by (auto simp: luhn_term_def split: if_splits)
qed

lemma residue_change: "x mod m = y mod m \<Longrightarrow> x = y - a + b \<Longrightarrow> (b - a) mod m = (0::int)"
  by (metis add.commute add_diff_cancel_left' diff_add_eq mod_eq_dvd_iff dvd_imp_mod_0)

lemma luhn_one_changed:
  assumes "i < length s" "digit_of c \<noteq> digit_of (s ! i)" "luhn_valid s"
  shows "\<not> luhn_valid (s[i := c])"
proof
  let ?ns = "map digit_of (rev s)" and ?i = "length s - 1 - i"
  let ?S = "\<lambda>ns. \<Sum>p<length ns. luhn_term p (ns ! p)"
  assume "luhn_valid (s[i := c])"
  moreover have "map digit_of (rev (s[i := c])) = ?ns[?i := digit_of c]"
    using assms(1) by (simp add: rev_update map_update)
  ultimately have "?S (?ns[?i := digit_of c]) mod 10 = ?S ?ns mod 10"
    using assms(3) by (simp add: luhn_valid_def luhn_total_sum)
  moreover have "?S (?ns[?i := digit_of c]) = ?S ?ns - luhn_term ?i (digit_of (s ! i)) + luhn_term ?i (digit_of c)"
    using sum_one_changed [of ?i "length ?ns" ?ns luhn_term "digit_of c"] assms(1)
    by (simp add: rev_nth)
  ultimately have "digit_of c = digit_of (s ! i)"
    by (intro luhn_term_inj [OF digit_of_bounds digit_of_bounds] residue_change)
  with assms(2) show False by simp
qed

text \<open>The business number: nine weighted digits and the check digit sum to a multiple of ten.\<close>

lemma weighted_sum:
  fixes ns ws :: "int list"
  assumes "length ws \<le> length ns"
  shows "sum_list (map2 (*) (take (length ws) ns) ws) = (\<Sum>p<length ws. ns ! p * ws ! p)"
  using assms by (simp add: sum_list_sum_nth min_absorb2 atLeast0LessThan)

definition bizno_term :: "nat \<Rightarrow> int \<Rightarrow> int" where
  "bizno_term p n = (if p = 9 then n else if p = 8 then n * 5 + n * 5 div 10 else n * bizno_weights ! p)"

lemma check_digit_10:
  assumes "0 \<le> d" "d < 10"
  shows "(10 - x mod 10) mod 10 = d \<longleftrightarrow> (x + d) mod (10::int) = 0"
proof -
  have "list_all (\<lambda>r. list_all (\<lambda>d. ((10 - r) mod 10 = d) = ((r + d) mod 10 = 0)) ten) ten"
    by code_simp
  from two_digits [OF this, of "x mod 10" d] assms show ?thesis by (simp add: mod_simps)
qed

lemma bizno_valid_sum:
  assumes "length s = 10"
  shows "bizno_valid s \<longleftrightarrow> (\<Sum>p<10. bizno_term p (digit_of (s ! p))) mod 10 = 0"
proof -
  let ?ns = "map digit_of s" and ?g = "\<lambda>p. bizno_term p (digit_of (s ! p))"
  let ?h = "\<lambda>p. ?ns ! p * bizno_weights ! p"
  let ?t = "sum_list (map2 (*) (take 9 ?ns) bizno_weights) + (?ns ! 8 * 5) div 10"
  have w: "length bizno_weights = 9" "bizno_weights ! 8 = 5" by (simp_all add: bizno_weights_def)
  have "?t = (\<Sum>p<9. ?h p) + (?ns ! 8 * 5) div 10"
    using weighted_sum [of bizno_weights ?ns] assms w by simp
  also have "\<dots> = (\<Sum>p<8. ?h p) + ?g 8"
    using sum.lessThan_Suc [of ?h 8] assms w by (simp add: bizno_term_def)
  also have "(\<Sum>p<8. ?h p) = (\<Sum>p<8. ?g p)"
    using assms by (intro sum.cong) (auto simp: bizno_term_def)
  finally have t: "?t = (\<Sum>p<8. ?g p) + ?g 8" .
  have "(\<Sum>p<10. ?g p) = ?t + digit_of (s ! 9)"
    using sum.lessThan_Suc [of ?g 8] sum.lessThan_Suc [of ?g 9] t by (simp add: bizno_term_def)
  moreover have "bizno_valid s \<longleftrightarrow> (10 - ?t mod 10) mod 10 = digit_of (s ! 9)"
    using assms by (simp add: bizno_valid_def bizno_check_digit_def Let_def)
  ultimately show ?thesis using check_digit_10 [of "digit_of (s ! 9)" ?t] digit_of_bounds [of "s ! 9"] by simp
qed

lemma bizno_weight_cases: "p < 8 \<Longrightarrow> bizno_weights ! p = 1 \<or> bizno_weights ! p = 3 \<or> bizno_weights ! p = 7"
proof -
  assume "p < 8"
  then have "p \<in> {0, 1, 2, 3, 4, 5, 6, 7}" by auto
  then show ?thesis by (elim insertE) (simp_all add: bizno_weights_def)
qed

lemma bizno_term_inj:
  assumes "p < 10" "0 \<le> a" "a < 10" "0 \<le> b" "b < 10" "(bizno_term p a - bizno_term p b) mod 10 = 0"
  shows "a = b"
proof -
  have c: "list_all (\<lambda>a. list_all (\<lambda>b. (a - b) mod 10 = 0 \<or> (a * 3 - b * 3) mod 10 = 0 \<or> (a * 7 - b * 7) mod 10 = 0 \<or>
      (a * 5 + a * 5 div 10 - (b * 5 + b * 5 div 10)) mod 10 = 0 \<longrightarrow> a = b) ten) ten"
    by code_simp
  consider "p < 8" | "p = 8" | "p = 9" using assms(1) by linarith
  then have "(a - b) mod 10 = 0 \<or> (a * 3 - b * 3) mod 10 = 0 \<or> (a * 7 - b * 7) mod 10 = 0 \<or>
      (a * 5 + a * 5 div 10 - (b * 5 + b * 5 div 10)) mod 10 = 0"
    by cases (use assms(6) bizno_weight_cases [of p] in \<open>auto simp: bizno_term_def\<close>)
  then show ?thesis using two_digits [OF c assms(2-5)] by auto
qed

lemma bizno_one_changed:
  assumes "i < length s" "digit_of c \<noteq> digit_of (s ! i)" "bizno_valid s"
  shows "\<not> bizno_valid (s[i := c])"
proof
  let ?f = "\<lambda>p d. bizno_term p (digit_of d)"
  have len: "length s = 10" using assms(3) by (simp add: bizno_valid_def)
  assume "bizno_valid (s[i := c])"
  then have "(\<Sum>p<10. ?f p (s[i := c] ! p)) mod 10 = (\<Sum>p<10. ?f p (s ! p)) mod 10"
    using assms(3) len by (simp add: bizno_valid_sum)
  moreover have "(\<Sum>p<10. ?f p (s[i := c] ! p)) = (\<Sum>p<10. ?f p (s ! p)) - ?f i (s ! i) + ?f i c"
    by (rule sum_one_changed [of i 10 s ?f c]) (simp_all add: len assms(1) [unfolded len])
  ultimately have "(?f i c - ?f i (s ! i)) mod 10 = 0" by (rule residue_change)
  then have "digit_of c = digit_of (s ! i)"
    by (rule bizno_term_inj [OF assms(1) [unfolded len] digit_of_bounds digit_of_bounds])
  with assms(2) show False by simp
qed

text \<open>The resident number: a changed digit changes the residue mod 11.\<close>

lemma rrn_valid_residue:
  assumes "length s = 13"
  shows "rrn_valid s \<longleftrightarrow>
    (11 - (\<Sum>p<12. digit_of (s ! p) * rrn_weights ! p) mod 11) mod 10 = digit_of (s ! 12)"
proof -
  have "length rrn_weights = 12" by (simp add: rrn_weights_def)
  moreover have "(\<Sum>p<12. map digit_of s ! p * rrn_weights ! p) = (\<Sum>p<12. digit_of (s ! p) * rrn_weights ! p)"
    using assms by (intro sum.cong) auto
  ultimately show ?thesis
    using assms weighted_sum [of rrn_weights "map digit_of s"]
    by (simp add: rrn_valid_def rrn_check_digit_def Let_def)
qed

lemma rrn_term_inj:
  assumes "p < 12" "0 \<le> a" "a < 10" "0 \<le> b" "b < 10"
    "(a * rrn_weights ! p - b * rrn_weights ! p) mod 11 = 0"
  shows "a = b"
proof -
  have "list_all (\<lambda>a. list_all (\<lambda>b. list_all (\<lambda>w. (a * w - b * w) mod 11 = 0 \<longrightarrow> a = b) rrn_weights) ten) ten"
    by code_simp
  from two_digits [OF this assms(2-5)]
  have w: "\<forall>w \<in> set rrn_weights. (a * w - b * w) mod 11 = 0 \<longrightarrow> a = b"
    by (simp only: list_all_iff)
  have "rrn_weights ! p \<in> set rrn_weights"
    using assms(1) by (intro nth_mem) (simp add: rrn_weights_def)
  from mp [OF bspec [OF w this] assms(6)] show ?thesis .
qed

text \<open>Distinct residues mod 11 have distinct check digits, 0 and 10 (check digit 1) apart.\<close>

lemma rrn_check_inj:
  assumes "(11 - x mod 11) mod 10 = (11 - y mod 11) mod (10::int)" "(11 - x mod 11) mod 10 \<noteq> 1"
  shows "x mod 11 = y mod 11"
proof -
  have "list_all (\<lambda>r. list_all (\<lambda>q. (11 - r) mod 10 = (11 - q) mod 10 \<longrightarrow> (11 - r) mod 10 \<noteq> 1 \<longrightarrow> r = q) (10 # ten)) (10 # ten)"
    by code_simp
  then have inj: "\<And>r q. r \<in> set (10 # ten) \<Longrightarrow> q \<in> set (10 # ten) \<Longrightarrow> (11 - r) mod 10 = (11 - q) mod 10 \<Longrightarrow>
      (11 - r) mod 10 \<noteq> 1 \<Longrightarrow> r = q"
    unfolding list_all_iff by blast
  have "z mod 11 \<in> set (10 # ten)" for z :: int
  proof (cases "z mod 11 = 10")
    case False
    then have "z mod 11 < 10" using pos_mod_bound [of 11 z] by linarith
    then show ?thesis using digit_in_ten [of "z mod 11"] by simp
  qed simp
  from inj [OF this this assms] show ?thesis .
qed

lemma rrn_one_changed:
  assumes "i < length s" "digit_of c \<noteq> digit_of (s ! i)" "rrn_valid s" "i < 12 \<Longrightarrow> digit_of (s ! 12) \<noteq> 1"
  shows "\<not> rrn_valid (s[i := c])"
proof
  let ?f = "\<lambda>p d. digit_of d * rrn_weights ! p"
  let ?S = "\<lambda>u. \<Sum>p<12. ?f p (u ! p)"
  have len: "length s = 13" using assms(3) by (simp add: rrn_valid_def)
  assume v: "rrn_valid (s[i := c])"
  show False
  proof (cases "i < 12")
    case True
    have "?S (s[i := c]) mod 11 = ?S s mod 11"
      using v assms(3,4) len True by (intro rrn_check_inj) (simp_all add: rrn_valid_residue)
    moreover have "?S (s[i := c]) = ?S s - ?f i (s ! i) + ?f i c"
      by (rule sum_one_changed [OF True, of s ?f c]) (simp add: len)
    ultimately have "(?f i c - ?f i (s ! i)) mod 11 = 0" by (rule residue_change)
    then have "digit_of c = digit_of (s ! i)"
      by (rule rrn_term_inj [OF True digit_of_bounds digit_of_bounds])
    with assms(2) show False by simp
  next
    case False
    then have "i = 12" using assms(1) len by simp
    moreover have "?S (s[12 := c]) = ?S s" by (intro sum.cong) auto
    ultimately show False
      using v assms(2,3) len by (simp add: rrn_valid_residue)
  qed
qed

section \<open>Every text is handled, and every span is a range of the text\<close>

lemma map_result_all:
  "\<forall>x \<in> set xs. \<exists>y. f x = Inr y \<and> P x y \<Longrightarrow>
    \<exists>ys. map_result f xs = Inr ys \<and> list_all2 P xs ys"
  by (induction xs) auto

lemma list_all2_back: "list_all2 P xs ys \<Longrightarrow> \<forall>y \<in> set ys. \<exists>x \<in> set xs. P x y"
  by (induction rule: list_all2_induct) auto

lemma list_all2_forth: "list_all2 P xs ys \<Longrightarrow> \<forall>x \<in> set xs. \<exists>y \<in> set ys. P x y"
  by (induction rule: list_all2_induct) auto

lemma regex_span_of [span_intros]:
  assumes "m \<in> set (re_finditer r ic t)" "0 < minw r"
  shows "span_of t (regex_span t ty conf m)"
  using finditer_sound(2,3) [OF assms(1)] assms(2)
  by (intro span_ofI) (simp_all add: regex_span_def group0_def)

lemma regex_span_simps [simp]:
  "stype (regex_span t ty conf m) = ty" "svalue (regex_span t ty conf m) = group0 t m"
  "sstart (regex_span t ty conf m) = mstart m" "send (regex_span t ty conf m) = mend m"
  "sconfidence (regex_span t ty conf m) = conf" "ssource (regex_span t ty conf m) = lit ''regex''"
  by (simp_all add: regex_span_def)

lemma minw_patterns [simp]:
  "0 < minw RRN_PATTERN" "0 < minw CARD_PATTERN" "0 < minw BIZNO_PATTERN" "0 < minw PHONE_PATTERN"
  "0 < minw EMAIL_PATTERN" "0 < minw ACCOUNT_PATTERN"
  by (simp_all add: RRN_PATTERN_def CARD_PATTERN_def BIZNO_PATTERN_def PHONE_PATTERN_def
    EMAIL_PATTERN_def ACCOUNT_PATTERN_def not_after_digit_def not_before_digit_def)

text \<open>The outcome of each detector, in terms of the shape of its matches.\<close>

definition rrn_digits :: "pystr \<Rightarrow> nat \<Rightarrow> nat \<Rightarrow> nat \<Rightarrow> pystr" where
  "rrn_digits t i k j = slice i (i + 6) t @ slice k j t"

lemma rrn_shape_digits: "rrn_shape t i k j \<Longrightarrow> decimals (rrn_digits t i k j) \<and> length (rrn_digits t i k j) = 13"
proof -
  assume s: "rrn_shape t i k j"
  then have "slice k j t = (t ! k) # slice (Suc k) j t"
    using slice_append_slice [of k "Suc k" j t] by (simp add: rrn_shape_def ndigits_def slice_Suc)
  then show ?thesis
    using s ndigits_decimals [of 6 t i] ndigits_decimals [of 6 t "Suc k" j]
    by (auto simp: rrn_shape_def rrn_digits_def decimals_def is_decimal_ascii)
qed

lemma rrn_groups:
  assumes "m \<in> set (re_finditer RRN_PATTERN False t)"
  obtains k where "rrn_shape t (mstart m) k (mend m)"
    "groups_text t m [1, 2] = Inr (rrn_digits t (mstart m) k (mend m))"
proof -
  obtain k where "rrn_shape t (mstart m) k (mend m)" "mcaps m = [(2, k, mend m), (1, mstart m, mstart m + 6)]"
    using finditer_sound(4) [OF assms] by (auto simp: rrn_match_iff)
  then show ?thesis by (intro that) (simp_all add: groups_text_def group_def rrn_digits_def)
qed

definition bizno_digits :: "pystr \<Rightarrow> nat \<Rightarrow> nat \<Rightarrow> nat \<Rightarrow> nat \<Rightarrow> pystr" where
  "bizno_digits t i k l j = slice i (i + 3) t @ slice k (k + 2) t @ slice l j t"

lemma bizno_shape_digits:
  "bizno_shape t i k l j \<Longrightarrow> decimals (bizno_digits t i k l j) \<and> length (bizno_digits t i k l j) = 10"
  using ndigits_decimals [of 3 t i] ndigits_decimals [of 2 t k] ndigits_decimals [of 5 t l j]
  by (auto simp: bizno_shape_def bizno_digits_def)

lemma bizno_groups:
  assumes "m \<in> set (re_finditer BIZNO_PATTERN False t)"
  obtains k l where "bizno_shape t (mstart m) k l (mend m)"
    "groups_text t m [1, 2, 3] = Inr (bizno_digits t (mstart m) k l (mend m))"
proof -
  obtain k l where "bizno_shape t (mstart m) k l (mend m)"
    "mcaps m = [(3, l, mend m), (2, k, k + 2), (1, mstart m, mstart m + 3)]"
    using finditer_sound(4) [OF assms] by (auto simp: bizno_match_iff)
  then show ?thesis by (intro that) (simp_all add: groups_text_def group_def bizno_digits_def)
qed

lemma card_digits_decimal:
  assumes "m \<in> set (re_finditer CARD_PATTERN False t)"
  shows "decimals (card_digits (group0 t m))"
proof -
  note s = finditer_sound(3-5) [OF assms]
  have "is_decimal x \<or> x = 32 \<or> x = 45" if x: "x \<in> set (group0 t m)" for x
  proof -
    obtain p where p: "x = t ! p" "mstart m \<le> p" "p < mend m"
      using x s(1) by (auto simp: group0_def set_slice_conv)
    show ?thesis using rm_accepts [OF s(2,3) p(2,3)] p(1)
      by (auto simp: CARD_PATTERN_def not_after_digit_def not_before_digit_def in_cls_def)
  qed
  then show ?thesis
    unfolding card_digits_def re_sub_delete decimals_def by (auto simp: in_cls_def)
qed

lemma match_atI: "(j, d) \<in> set (rm r ic t i []) \<Longrightarrow> match_at r ic t i \<noteq> None"
  by (auto simp: match_at_def split: list.splits)

definition confidence_of :: "pyfloat \<Rightarrow> bool" where
  "confidence_of c \<longleftrightarrow> c \<in> {CHECKSUM_PASS_CONFIDENCE, CHECKSUM_FAIL_CONFIDENCE,
     NO_CHECKSUM_CONFIDENCE, EMAIL_CONFIDENCE}"

lemma detect_rrn_spans:
  "\<exists>ss. detect_rrn t = Inr ss \<and> list_all2 (\<lambda>m s. \<exists>k. rrn_shape t (mstart m) k (mend m) \<and>
     s = regex_span t (lit ''RRN'') (checksum_confidence (rrn_valid (rrn_digits t (mstart m) k (mend m)))) m)
     (re_finditer RRN_PATTERN False t) ss"
  unfolding detect_rrn_def
proof (rule map_result_all, intro ballI)
  fix m assume "m \<in> set (re_finditer RRN_PATTERN False t)"
  then obtain k where k: "rrn_shape t (mstart m) k (mend m)"
    "groups_text t m [1, 2] = Inr (rrn_digits t (mstart m) k (mend m))" by (rule rrn_groups)
  then show "\<exists>y. bind_result (groups_text t m [1, 2]) (\<lambda>digits. bind_result (verify_rrn_checksum digits)
      (\<lambda>passed. Inr (regex_span t (lit ''RRN'') (checksum_confidence passed) m))) = Inr y \<and>
      (\<exists>k. rrn_shape t (mstart m) k (mend m) \<and>
        y = regex_span t (lit ''RRN'') (checksum_confidence (rrn_valid (rrn_digits t (mstart m) k (mend m)))) m)"
    using rrn_shape_digits [OF k(1)] by (auto simp: verify_rrn_decimals)
qed

lemma detect_bizno_spans:
  "\<exists>ss. detect_bizno t = Inr ss \<and> list_all2 (\<lambda>m s. \<exists>k l. bizno_shape t (mstart m) k l (mend m) \<and>
     s = regex_span t (lit ''BIZNO'') (checksum_confidence (bizno_valid (bizno_digits t (mstart m) k l (mend m)))) m)
     (re_finditer BIZNO_PATTERN False t) ss"
  unfolding detect_bizno_def
proof (rule map_result_all, intro ballI)
  fix m assume "m \<in> set (re_finditer BIZNO_PATTERN False t)"
  then obtain k l where k: "bizno_shape t (mstart m) k l (mend m)"
    "groups_text t m [1, 2, 3] = Inr (bizno_digits t (mstart m) k l (mend m))" by (rule bizno_groups)
  then show "\<exists>y. bind_result (groups_text t m [1, 2, 3]) (\<lambda>digits. bind_result (verify_bizno_checksum digits)
      (\<lambda>passed. Inr (regex_span t (lit ''BIZNO'') (checksum_confidence passed) m))) = Inr y \<and>
      (\<exists>k l. bizno_shape t (mstart m) k l (mend m) \<and>
        y = regex_span t (lit ''BIZNO'') (checksum_confidence (bizno_valid (bizno_digits t (mstart m) k l (mend m)))) m)"
    using bizno_shape_digits [OF k(1)] by (auto simp: verify_bizno_decimals)
qed

lemma detect_card_spans:
  "detect_card t = Inr (map (\<lambda>m. regex_span t (lit ''CARD'')
     (checksum_confidence (luhn_valid (card_digits (group0 t m)))) m) (re_finditer CARD_PATTERN False t))"
  unfolding detect_card_def
  by (rule map_result_Inr) (auto simp: verify_luhn_decimals card_digits_decimal)

text \<open>What the layer as a whole returns.\<close>

definition regex_types :: "pystr list" where
  "regex_types = [lit ''RRN'', lit ''CARD'', lit ''BIZNO'', lit ''PHONE'', lit ''EMAIL'', lit ''ACCOUNT'']"

definition regex_span_ok :: "pystr \<Rightarrow> span \<Rightarrow> bool" where
  "regex_span_ok t s \<longleftrightarrow> span_of t s \<and> ssource s = lit ''regex'' \<and> stype s \<in> set regex_types \<and>
     confidence_of (sconfidence s)"

lemma confidence_of_consts [simp]:
  "confidence_of (checksum_confidence b)" "confidence_of NO_CHECKSUM_CONFIDENCE" "confidence_of EMAIL_CONFIDENCE"
  by (simp_all add: confidence_of_def checksum_confidence_def)

lemma regex_span_okI:
  "m \<in> set (re_finditer r ic t) \<Longrightarrow> 0 < minw r \<Longrightarrow> ty \<in> set regex_types \<Longrightarrow> confidence_of c \<Longrightarrow>
    regex_span_ok t (regex_span t ty c m)"
  by (simp add: regex_span_ok_def regex_span_of)

lemma regex_detect_parts:
  obtains rrn card biz where "detect_rrn t = Inr rrn" "detect_card t = Inr card" "detect_bizno t = Inr biz"
    "regex_detect t = Inr (rrn @ card @ biz @ detect_phone t @ detect_email t @
       filter (\<lambda>s. \<not> (\<exists>hp \<in> set (card @ detect_phone t). spans_overlap s hp)) (detect_account t))"
    "\<forall>s \<in> set (rrn @ card @ biz @ detect_phone t @ detect_email t @ detect_account t). regex_span_ok t s"
proof -
  obtain rrn biz where r: "detect_rrn t = Inr rrn" "\<forall>s \<in> set rrn. \<exists>m \<in> set (re_finditer RRN_PATTERN False t).
      \<exists>b. s = regex_span t (lit ''RRN'') (checksum_confidence b) m"
    and b: "detect_bizno t = Inr biz" "\<forall>s \<in> set biz. \<exists>m \<in> set (re_finditer BIZNO_PATTERN False t).
      \<exists>b. s = regex_span t (lit ''BIZNO'') (checksum_confidence b) m"
    using detect_rrn_spans [of t] detect_bizno_spans [of t] by (fastforce dest!: list_all2_back)
  then have ok: "\<forall>s \<in> set rrn. regex_span_ok t s" "\<forall>s \<in> set biz. regex_span_ok t s"
    by (fastforce simp: regex_types_def intro!: regex_span_okI)+
  show ?thesis
    by (rule that [OF r(1) detect_card_spans b(1)])
      (use r b ok in \<open>auto simp: regex_detect_def detect_card_spans Let_def detect_phone_def
        detect_email_def detect_account_def regex_types_def intro!: regex_span_okI\<close>)
qed

lemma regex_detect_ok: "\<exists>ss. regex_detect t = Inr ss \<and> (\<forall>s \<in> set ss. regex_span_ok t s)"
proof -
  obtain rrn card biz where "regex_detect t = Inr (rrn @ card @ biz @ detect_phone t @ detect_email t @
       filter (\<lambda>s. \<not> (\<exists>hp \<in> set (card @ detect_phone t). spans_overlap s hp)) (detect_account t))"
    "\<forall>s \<in> set (rrn @ card @ biz @ detect_phone t @ detect_email t @ detect_account t). regex_span_ok t s"
    by (rule regex_detect_parts)
  then show ?thesis by auto
qed

lemma regex_detect_rrn:
  "regex_detect t = Inr ss \<Longrightarrow> detect_rrn t = Inr (filter (\<lambda>s. stype s = lit ''RRN'') ss)"
proof -
  assume ss: "regex_detect t = Inr ss"
  obtain rrn card biz where p: "detect_rrn t = Inr rrn" "detect_card t = Inr card" "detect_bizno t = Inr biz"
    "regex_detect t = Inr (rrn @ card @ biz @ detect_phone t @ detect_email t @
       filter (\<lambda>s. \<not> (\<exists>hp \<in> set (card @ detect_phone t). spans_overlap s hp)) (detect_account t))"
    by (rule regex_detect_parts)
  have "\<forall>s \<in> set rrn. stype s = lit ''RRN''" "\<forall>s \<in> set card. stype s \<noteq> lit ''RRN''"
    "\<forall>s \<in> set biz. stype s \<noteq> lit ''RRN''"
    using detect_rrn_spans [of t] detect_bizno_spans [of t] p(1-3)
    by (auto simp: detect_card_spans dest!: list_all2_back)
  then have "filter (\<lambda>s. stype s = lit ''RRN'') ss = rrn"
    using ss p(4) by (auto simp: detect_phone_def detect_email_def detect_account_def filter_empty_conv
      filter_id_conv)
  with p(1) show ?thesis by simp
qed

section \<open>Properties\<close>

text \<open>C34: the regex layer returns a result for every text, and every span of it is a non-empty
  range of the text that carries the characters of that range, comes from this layer, has one of
  the six types and one of its four confidences; no ACCOUNT span overlaps a CARD or PHONE span.\<close>

theorem regex_detect_total:
  "\<exists>ss. regex_detect t = Inr ss \<and> (\<forall>s \<in> set ss. regex_span_ok t s) \<and>
    (\<forall>a \<in> set ss. \<forall>b \<in> set ss. stype a = lit ''ACCOUNT'' \<longrightarrow> stype b \<in> {lit ''CARD'', lit ''PHONE''} \<longrightarrow>
      \<not> spans_overlap a b)"
proof -
  obtain rrn card biz where p: "detect_rrn t = Inr rrn" "detect_card t = Inr card" "detect_bizno t = Inr biz"
    "regex_detect t = Inr (rrn @ card @ biz @ detect_phone t @ detect_email t @
       filter (\<lambda>s. \<not> (\<exists>hp \<in> set (card @ detect_phone t). spans_overlap s hp)) (detect_account t))"
    "\<forall>s \<in> set (rrn @ card @ biz @ detect_phone t @ detect_email t @ detect_account t). regex_span_ok t s"
    by (rule regex_detect_parts)
  have ty: "\<forall>s \<in> set rrn. stype s = lit ''RRN''" "\<forall>s \<in> set card. stype s = lit ''CARD''"
    "\<forall>s \<in> set biz. stype s = lit ''BIZNO''" 
    using detect_rrn_spans [of t] detect_bizno_spans [of t] p(1-3)
    by (auto simp: detect_card_spans dest!: list_all2_back)
  have ty2: "\<forall>s \<in> set (detect_phone t). stype s = lit ''PHONE''" "\<forall>s \<in> set (detect_email t). stype s = lit ''EMAIL''"
    "\<forall>s \<in> set (detect_account t). stype s = lit ''ACCOUNT''"
    by (auto simp: detect_phone_def detect_email_def detect_account_def)
  show ?thesis using p(4,5) ty ty2 by auto
qed

theorem regex_detect_total_witness:
  "\<exists>ss. regex_detect (lit ''02-123-4567'') = Inr ss \<and> map stype ss = [lit ''PHONE''] \<and>
    (\<forall>s \<in> set ss. regex_span_ok (lit ''02-123-4567'') s)"
proof -
  have "(case regex_detect (lit ''02-123-4567'') of Inl e \<Rightarrow> False | Inr ss \<Rightarrow> map stype ss = [lit ''PHONE''])"
    by code_simp
  then show ?thesis using regex_detect_total [of "lit ''02-123-4567''"] by auto
qed

text \<open>C35: the RRN detector is exact: every RRN span is six digits, an optional separator and seven
  digits beginning with 1 to 4, with no digit on either side, and carries the high confidence just
  when the checksum holds; conversely every such range of the text begins inside an RRN span.\<close>

theorem regex_rrn_exact:
  assumes "regex_detect t = Inr ss"
  shows "(\<forall>s \<in> set ss. stype s = lit ''RRN'' \<longrightarrow> (\<exists>k. rrn_shape t (sstart s) k (send s) \<and>
      sconfidence s = checksum_confidence (rrn_valid (rrn_digits t (sstart s) k (send s))))) \<and>
    (\<forall>i k j. rrn_shape t i k j \<longrightarrow> (\<exists>s \<in> set ss. stype s = lit ''RRN'' \<and> sstart s \<le> i \<and> i < send s))"
proof -
  let ?rrn = "filter (\<lambda>s. stype s = lit ''RRN'') ss"
  have l: "list_all2 (\<lambda>m s. \<exists>k. rrn_shape t (mstart m) k (mend m) \<and>
     s = regex_span t (lit ''RRN'') (checksum_confidence (rrn_valid (rrn_digits t (mstart m) k (mend m)))) m)
     (re_finditer RRN_PATTERN False t) ?rrn"
    using detect_rrn_spans [of t] regex_detect_rrn [OF assms] by simp
  have "\<exists>s \<in> set ss. stype s = lit ''RRN'' \<and> sstart s \<le> i \<and> i < send s" if "rrn_shape t i k j" for i k j
  proof -
    have "match_at RRN_PATTERN False t i \<noteq> None"
      using that by (intro match_atI) (auto simp: rrn_match_iff)
    moreover have "i \<le> length t" using that by (simp add: rrn_shape_def ndigits_def)
    ultimately obtain m where "m \<in> set (re_finditer RRN_PATTERN False t)" "mstart m \<le> i" "i < mend m"
      using finditer_covers [of RRN_PATTERN False t i] by auto
    with list_all2_forth [OF l] show ?thesis by fastforce
  qed
  moreover have "\<exists>k. rrn_shape t (sstart s) k (send s) \<and>
      sconfidence s = checksum_confidence (rrn_valid (rrn_digits t (sstart s) k (send s)))"
    if "s \<in> set ss" "stype s = lit ''RRN''" for s
    using list_all2_back [OF l] that by fastforce
  ultimately show ?thesis by blast
qed

theorem regex_rrn_exact_witness:
  "\<exists>s ss. regex_detect (lit ''880101-1234568'') = Inr (s # ss) \<and> sconfidence s = CHECKSUM_PASS_CONFIDENCE \<and>
     (\<exists>k. rrn_shape (lit ''880101-1234568'') (sstart s) k (send s) \<and>
      sconfidence s = checksum_confidence (rrn_valid (rrn_digits (lit ''880101-1234568'') (sstart s) k (send s))))"
proof -
  let ?t = "lit ''880101-1234568''"
  have "(case regex_detect ?t of Inr (s # ss) \<Rightarrow> stype s = lit ''RRN'' \<and> sconfidence s = CHECKSUM_PASS_CONFIDENCE | _ \<Rightarrow> False)"
    by code_simp
  then obtain s ss where s: "regex_detect ?t = Inr (s # ss)" "stype s = lit ''RRN''" "sconfidence s = CHECKSUM_PASS_CONFIDENCE"
    by (auto split: sum.splits list.splits)
  with regex_rrn_exact [OF s(1)] show ?thesis by auto
qed

text \<open>the Luhn check detects every substitution of one digit by a different one.\<close>

theorem luhn_detects_substitution:
  assumes "decimals s" "verify_luhn s = Inr True" "i < length s" "is_decimal c" "digit_of c \<noteq> digit_of (s ! i)"
  shows "verify_luhn (s[i := c]) = Inr False"
  using assms luhn_one_changed [of i s c]
  by (simp add: verify_luhn_decimals decimals_update)

theorem luhn_detects_substitution_witness:
  "verify_luhn ((lit ''4111111111111111'')[3 := 57]) = Inr False"
  by (rule luhn_detects_substitution) code_simp+

text \<open>the business number check detects every substitution of one digit by a different one.\<close>

theorem bizno_detects_substitution:
  assumes "decimals s" "verify_bizno_checksum s = Inr True" "i < length s" "is_decimal c"
    "digit_of c \<noteq> digit_of (s ! i)"
  shows "verify_bizno_checksum (s[i := c]) = Inr False"
  using assms bizno_one_changed [of i s c]
  by (simp add: verify_bizno_decimals decimals_update)

theorem bizno_detects_substitution_witness:
  "verify_bizno_checksum ((lit ''1208147521'')[8 := 57]) = Inr False"
  by (rule bizno_detects_substitution) code_simp+

text \<open>the resident number check detects every substitution of one digit, except that a changed
  digit before the last may go undetected when the check digit is 1, which two residues share.\<close>

theorem rrn_detects_substitution:
  assumes "decimals s" "verify_rrn_checksum s = Inr True" "i < length s" "is_decimal c"
    "digit_of c \<noteq> digit_of (s ! i)" "i < 12 \<longrightarrow> digit_of (s ! 12) \<noteq> 1"
  shows "verify_rrn_checksum (s[i := c]) = Inr False"
  using assms rrn_one_changed [of i s c]
  by (simp add: verify_rrn_decimals decimals_update)

theorem rrn_detects_substitution_witness:
  "verify_rrn_checksum ((lit ''8801011234568'')[8 := 57]) = Inr False"
  by (rule rrn_detects_substitution) code_simp+

end
