(* ===== verification/Merge.thy ===== *)
theory Merge
  imports Models
begin

text \<open>
  \<open>app/detect/merge.py\<close>: the spans of the three layers become one list of spans that do not
  overlap. Spans under the threshold of their source are dropped, the rest are swept into
  clusters of transitively overlapping spans, and each cluster is replaced by its canonical
  span: highest source priority, then confidence, then length. Log messages are left out.

  The code sorts the set of the agreeing sources by priority; the order in which Python
  enumerates the set does not matter for the three sources the layers produce
  (\<open>source_order_irrelevant\<close>), so the first occurrences in the cluster are used.
\<close>

section \<open>Thresholds\<close>

definition SOURCE_PRIORITY :: "(pystr \<times> int) list" where
  "SOURCE_PRIORITY = [(lit ''regex'', 3), (lit ''dict'', 2), (lit ''ner'', 1)]"

definition OVERLAP_BONUS :: pyfloat where "OVERLAP_BONUS = fl (2 / 100)"
definition MAX_CONFIDENCE :: pyfloat where "MAX_CONFIDENCE = fl (999 / 1000)"

definition DEFAULT_MIN_CONFIDENCE :: "(pystr \<times> pyfloat) list" where
  "DEFAULT_MIN_CONFIDENCE = [(lit ''regex'', fl (1 / 2)), (lit ''dict'', 0), (lit ''ner'', fl (55 / 100))]"

definition source_priority :: "pystr \<Rightarrow> int" where
  "source_priority src = (case dict_get SOURCE_PRIORITY src of None \<Rightarrow> 0 | Some p \<Rightarrow> p)"

definition passes_min_confidence :: "(pystr \<times> pyfloat) list \<Rightarrow> span \<Rightarrow> bool" where
  "passes_min_confidence thresholds s =
     (sconfidence s \<ge> (case dict_get thresholds (ssource s) of None \<Rightarrow> 0 | Some c \<Rightarrow> c))"

section \<open>Clusters\<close>

text \<open>
  The sweep keeps the clusters found so far, the current cluster and its greatest end.
\<close>

fun sweep :: "span list list \<Rightarrow> span list \<Rightarrow> nat \<Rightarrow> span list \<Rightarrow> span list list" where
  "sweep acc cur mx [] = acc @ [cur]"
| "sweep acc cur mx (s # ss) =
     (if sstart s < mx then sweep acc (cur @ [s]) (max mx (send s)) ss
      else sweep (acc @ [cur]) [s] (send s) ss)"

definition cluster_overlapping :: "span list \<Rightarrow> span list list" where
  "cluster_overlapping spans =
     (case sort_key (\<lambda>s. (sstart s, send s)) spans of
        [] \<Rightarrow> []
      | s # ss \<Rightarrow> sweep [] [s] (send s) ss)"

section \<open>The canonical span of a cluster\<close>

definition merge_key :: "span \<Rightarrow> int \<times> pyfloat \<times> int" where
  "merge_key s = (source_priority (ssource s), sconfidence s, int (send s) - int (sstart s))"

definition canonical :: "span list \<Rightarrow> span" where
  "canonical cluster = max_by merge_key (hd cluster) (tl cluster)"

definition distinct_sources :: "pystr \<Rightarrow> span list \<Rightarrow> pystr list" where
  "distinct_sources ty cluster =
     sort_key (\<lambda>src. - source_priority src) (remdups (map ssource (filter (\<lambda>s. stype s = ty) cluster)))"

fun join_plus :: "pystr list \<Rightarrow> pystr" where
  "join_plus [] = []"
| "join_plus [x] = x"
| "join_plus (x # xs) = x @ lit ''+'' @ join_plus xs"

definition boosted_confidence :: "pyfloat \<Rightarrow> nat \<Rightarrow> pyfloat \<Rightarrow> pyfloat" where
  "boosted_confidence bonus n c =
     (if n > 1 then min (fadd c (fmul bonus (of_nat (n - 1)))) MAX_CONFIDENCE else c)"

definition resolve_cluster :: "pyfloat \<Rightarrow> span list \<Rightarrow> span" where
  "resolve_cluster bonus cluster =
     (if length cluster = 1 then hd cluster
      else let c = canonical cluster;
               sources = distinct_sources (stype c) cluster
           in c\<lparr>sconfidence := boosted_confidence bonus (length sources) (sconfidence c),
                ssource := (if length sources > 1 then join_plus sources else ssource c)\<rparr>)"

definition merge_spans ::
  "(pystr \<times> pyfloat) list option \<Rightarrow> pyfloat option \<Rightarrow> span list \<Rightarrow> span list" where
  "merge_spans min_confidence overlap_bonus spans =
     (let thresholds = (case min_confidence of None \<Rightarrow> DEFAULT_MIN_CONFIDENCE
            | Some th \<Rightarrow> if th = [] then DEFAULT_MIN_CONFIDENCE else th);
          bonus = (case overlap_bonus of None \<Rightarrow> OVERLAP_BONUS | Some b \<Rightarrow> b);
          filtered = filter (passes_min_confidence thresholds) spans
      in if filtered = [] then []
         else sort_key sstart (map (resolve_cluster bonus) (cluster_overlapping filtered)))"

definition thresholds_of :: "(pystr \<times> pyfloat) list option \<Rightarrow> (pystr \<times> pyfloat) list" where
  "thresholds_of mc = (case mc of None \<Rightarrow> DEFAULT_MIN_CONFIDENCE
     | Some th \<Rightarrow> if th = [] then DEFAULT_MIN_CONFIDENCE else th)"

section \<open>The sweep\<close>

text \<open>Two spans are linked when a chain of overlapping spans of the list leads from one to the other.\<close>

inductive linked :: "span list \<Rightarrow> span \<Rightarrow> span \<Rightarrow> bool" for ss where
  linked_refl: "s \<in> set ss \<Longrightarrow> linked ss s s"
| linked_step: "linked ss s u \<Longrightarrow> overlaps u v \<Longrightarrow> v \<in> set ss \<Longrightarrow> linked ss s v"

lemma linked_in: "linked ss s u \<Longrightarrow> s \<in> set ss \<and> u \<in> set ss"
  by (induction rule: linked.induct) auto

lemma linked_trans: "linked ss u v \<Longrightarrow> linked ss s u \<Longrightarrow> linked ss s v"
  by (induction rule: linked.induct) (auto intro: linked.intros)

lemma linked_sym: "linked ss s u \<Longrightarrow> linked ss u s"
proof (induction rule: linked.induct)
  case (linked_step s u v)
  have "linked ss v u"
    using linked_step.hyps linked_in [OF linked_step.hyps(1)]
    by (auto intro: linked.linked_step [OF linked.linked_refl] simp: overlaps_sym)
  then show ?case using linked_step.IH linked_trans by blast
qed (auto intro: linked.intros)

text \<open>
  Of a cluster: it is not empty, its members are linked, its greatest end bounds every end.
  Of the clusters: each ends before the next begins.
\<close>

definition cluster_ok :: "span list \<Rightarrow> span list \<Rightarrow> bool" where
  "cluster_ok ss cl \<longleftrightarrow> cl \<noteq> [] \<and> (\<forall>a \<in> set cl. \<forall>b \<in> set cl. linked ss a b)"

definition before :: "span list \<Rightarrow> span list \<Rightarrow> bool" where
  "before xs ys \<longleftrightarrow> (\<forall>x \<in> set xs. \<forall>y \<in> set ys. send x \<le> sstart y)"

lemma sweep_concat: "concat (sweep acc cur mx rest) = concat acc @ cur @ rest"
  by (induction acc cur mx rest rule: sweep.induct) auto

lemma linked_extend:
  assumes "\<forall>a \<in> set cur. \<forall>b \<in> set cur. linked ss a b" "x \<in> set cur" "overlaps x s" "s \<in> set ss"
  shows "\<forall>a \<in> set (cur @ [s]). \<forall>b \<in> set (cur @ [s]). linked ss a b"
proof -
  have to: "linked ss a s" if "a \<in> set cur" for a
    using assms that by (blast intro: linked.linked_step)
  then show ?thesis
    using assms(1) by (auto intro: linked.linked_refl [OF assms(4)] linked_sym)
qed

lemma sweep_clusters:
  assumes "\<forall>cl \<in> set acc. cluster_ok ss cl" "cluster_ok ss cur"
    "\<forall>x \<in> set cur. send x \<le> mx" "\<exists>x \<in> set cur. send x = mx"
    "sorted_wrt before (acc @ [cur])" "\<forall>x \<in> set (concat acc). \<forall>y \<in> set rest. send x \<le> sstart y"
    "\<forall>x \<in> set cur. \<forall>y \<in> set rest. sstart x \<le> sstart y" "sorted (map sstart rest)"
    "set rest \<subseteq> set ss" "\<forall>x \<in> set rest. sstart x < send x"
  shows "(\<forall>cl \<in> set (sweep acc cur mx rest). cluster_ok ss cl) \<and>
    sorted_wrt before (sweep acc cur mx rest)"
  using assms
proof (induction acc cur mx rest rule: sweep.induct)
  case (1 acc cur mx)
  then show ?case by simp
next
  case (2 acc cur mx s rest)
  note p = "2.prems"
  show ?case
  proof (cases "sstart s < mx")
    case True
    obtain x where x: "x \<in> set cur" "send x = mx" using p(4) by blast
    have "overlaps x s" using True x p(7,10) by (force simp: overlaps_def)
    then have ok: "cluster_ok ss (cur @ [s])"
      using linked_extend [OF _ x(1)] p(2,9) by (simp add: cluster_ok_def)
    have "(\<forall>cl \<in> set (sweep acc (cur @ [s]) (max mx (send s)) rest). cluster_ok ss cl) \<and>
      sorted_wrt before (sweep acc (cur @ [s]) (max mx (send s)) rest)"
      by (rule "2.IH"(1) [OF True p(1) ok])
        (use p x in \<open>force simp: before_def sorted_wrt_append max_def\<close>)+
    then show ?thesis using True by simp
  next
    case False
    have "(\<forall>cl \<in> set (sweep (acc @ [cur]) [s] (send s) rest). cluster_ok ss cl) \<and>
      sorted_wrt before (sweep (acc @ [cur]) [s] (send s) rest)"
    proof (rule "2.IH"(2) [OF False])
      show "\<forall>cl \<in> set (acc @ [cur]). cluster_ok ss cl" using p(1,2) by auto
      show "cluster_ok ss [s]" using p(9) by (auto simp: cluster_ok_def intro: linked.linked_refl)
      have "\<forall>cl \<in> set (acc @ [cur]). before cl [s]"
        using p(3,6) False by (auto simp: before_def not_less intro: order_trans)
      then show "sorted_wrt before ((acc @ [cur]) @ [[s]])"
        using p(5) by (simp add: sorted_wrt_append)
      show "\<forall>x \<in> set (concat (acc @ [cur])). \<forall>y \<in> set rest. send x \<le> sstart y"
        using p(3,6,8) False by fastforce
    qed (use p in auto)
    then show ?thesis using False by simp
  qed
qed

text \<open>What the clusters of a list are.\<close>

lemma clusters_ok:
  assumes "\<forall>x \<in> set ss. sstart x < send x"
  shows "\<forall>cl \<in> set (cluster_overlapping ss). cluster_ok ss cl" "sorted_wrt before (cluster_overlapping ss)"
    "concat (cluster_overlapping ss) = sort_key (\<lambda>s. (sstart s, send s)) ss"
proof -
  let ?o = "sort_key (\<lambda>s. (sstart s, send s)) ss"
  have o: "set ?o = set ss" "sorted (map (\<lambda>s. (sstart s, send s)) ?o)" by simp_all
  have all: "(\<forall>cl \<in> set (cluster_overlapping ss). cluster_ok ss cl) \<and> sorted_wrt before (cluster_overlapping ss) \<and>
      concat (cluster_overlapping ss) = ?o"
  proof (cases ?o)
    case Nil
    then show ?thesis by (simp add: cluster_overlapping_def)
  next
    case (Cons s rest)
    have s: "s \<in> set ss" "set rest \<subseteq> set ss" using o(1) Cons by auto
    have starts: "\<forall>x \<in> set rest. sstart s \<le> sstart x" "sorted (map sstart rest)"
      using o(2) unfolding Cons by (auto simp: sorted_map less_eq_prod_def elim!: sorted_wrt_mono_rel [rotated])
    have "(\<forall>cl \<in> set (sweep [] [s] (send s) rest). cluster_ok ss cl) \<and> sorted_wrt before (sweep [] [s] (send s) rest)"
      by (rule sweep_clusters) (use assms s starts in \<open>auto simp: cluster_ok_def intro: linked.linked_refl\<close>)
    then show ?thesis using Cons by (simp add: cluster_overlapping_def sweep_concat)
  qed
  then show "\<forall>cl \<in> set (cluster_overlapping ss). cluster_ok ss cl" "sorted_wrt before (cluster_overlapping ss)"
    "concat (cluster_overlapping ss) = ?o" by blast+
qed

lemma canonical_in: "cl \<noteq> [] \<Longrightarrow> canonical cl \<in> set cl"
  unfolding canonical_def using max_by_in [of merge_key "hd cl" "tl cl"] by (cases cl) auto

lemma canonical_max: "s \<in> set cl \<Longrightarrow> merge_key s \<le> merge_key (canonical cl)"
  unfolding canonical_def using max_by_ge [of s "hd cl" "tl cl" merge_key] by (cases cl) auto

text \<open>A resolved cluster keeps type, value and range of its canonical span.\<close>

lemma canonical_single: "length cl = 1 \<Longrightarrow> canonical cl = hd cl"
  by (cases cl) (auto simp: canonical_def)

lemma resolve_cluster_fields [simp]:
  "stype (resolve_cluster b cl) = stype (canonical cl)" "svalue (resolve_cluster b cl) = svalue (canonical cl)"
  "sstart (resolve_cluster b cl) = sstart (canonical cl)" "send (resolve_cluster b cl) = send (canonical cl)"
  by (simp_all add: resolve_cluster_def canonical_single Let_def)

lemma before_sorted:
  "sorted_wrt before cls \<Longrightarrow> \<forall>cl \<in> set cls. cl \<noteq> [] \<Longrightarrow>
    disjoint_spans (map (resolve_cluster b) cls)"
  unfolding disjoint_spans_def sorted_wrt_map
  by (erule sorted_wrt_mono_rel [rotated]) (auto simp: before_def canonical_in)

lemma disjoint_sorted: "disjoint_spans ss \<Longrightarrow> \<forall>s \<in> set ss. sstart s < send s \<Longrightarrow> sorted (map sstart ss)"
  unfolding disjoint_spans_def sorted_map
  by (erule sorted_wrt_mono_rel [rotated]) force

lemma merge_spans_clusters:
  fixes mc ob
  assumes "\<forall>s \<in> set spans. sstart s < send s"
  defines "f \<equiv> filter (passes_min_confidence (thresholds_of mc)) spans"
    and "b \<equiv> (case ob of None \<Rightarrow> OVERLAP_BONUS | Some b \<Rightarrow> b)"
  shows "merge_spans mc ob spans = map (resolve_cluster b) (cluster_overlapping f)"
    "disjoint_spans (map (resolve_cluster b) (cluster_overlapping f))"
proof -
  have f: "\<forall>s \<in> set f. sstart s < send s" using assms(1) by (simp add: f_def)
  note cl = clusters_ok [OF f]
  have ne: "\<forall>cl \<in> set (cluster_overlapping f). cl \<noteq> []" using cl(1) by (simp add: cluster_ok_def)
  then show d: "disjoint_spans (map (resolve_cluster b) (cluster_overlapping f))"
    using before_sorted [OF cl(2)] by simp
  have "canonical c \<in> set f" if c: "c \<in> set (cluster_overlapping f)" for c
  proof -
    have "canonical c \<in> set (concat (cluster_overlapping f))"
      using c canonical_in [of c] ne by auto
    then show ?thesis by (simp add: cl(3))
  qed
  then have "\<forall>s \<in> set (map (resolve_cluster b) (cluster_overlapping f)). sstart s < send s"
    using f by simp
  with d have "sorted (map sstart (map (resolve_cluster b) (cluster_overlapping f)))"
    by (rule disjoint_sorted)
  then have "sort_key sstart (map (resolve_cluster b) (cluster_overlapping f)) = map (resolve_cluster b) (cluster_overlapping f)"
    by (rule sort_key_id_if_sorted)
  moreover have "merge_spans mc ob spans =
      (if f = [] then [] else sort_key sstart (map (resolve_cluster b) (cluster_overlapping f)))"
    by (simp only: merge_spans_def Let_def f_def b_def thresholds_of_def)
  ultimately show "merge_spans mc ob spans = map (resolve_cluster b) (cluster_overlapping f)"
    by (simp add: cluster_overlapping_def)
qed


section \<open>The order of the sources\<close>

lemma source_priority_inj: "inj_on (\<lambda>src. - source_priority src) {lit ''regex'', lit ''dict'', lit ''ner''}"
  by (simp add: source_priority_def SOURCE_PRIORITY_def dict_get_def)

lemma source_order_irrelevant:
  assumes "distinct xs" "distinct ys" "set xs = set ys" "set xs \<subseteq> {lit ''regex'', lit ''dict'', lit ''ner''}"
  shows "sort_key (\<lambda>src. - source_priority src) xs = sort_key (\<lambda>src. - source_priority src) ys"
proof (rule sort_key_inj_key_eq)
  show "mset xs = mset (sort_key (\<lambda>src. - source_priority src) ys)"
    using assms(1-3) by (simp add: set_eq_iff_mset_eq_distinct)
  show "inj_on (\<lambda>src. - source_priority src) (set xs)"
    using source_priority_inj assms(4) by (rule inj_on_subset)
qed simp

text \<open>On spans that do not overlap every cluster is a single span.\<close>

lemma sweep_single:
  "sorted_wrt (\<lambda>a b. send a \<le> sstart b) (s # ss) \<Longrightarrow> sweep acc [s] (send s) ss = acc @ map (\<lambda>s. [s]) (s # ss)"
  by (induction ss arbitrary: acc s) auto

lemma disjoint_sorted_pairs:
  "disjoint_spans ss \<Longrightarrow> \<forall>s \<in> set ss. sstart s < send s \<Longrightarrow> sorted (map (\<lambda>s. (sstart s, send s)) ss)"
  unfolding disjoint_spans_def sorted_map
  by (erule sorted_wrt_mono_rel [rotated]) (force simp: less_eq_prod_def)

lemma disjoint_filter: "disjoint_spans ss \<Longrightarrow> disjoint_spans (filter P ss)"
  unfolding disjoint_spans_def by (rule sorted_wrt_filter)

lemma resolve_single [simp]: "resolve_cluster b [s] = s"
  by (simp add: resolve_cluster_def)

section \<open>Bounds of the boosted confidence\<close>

lemma boosted_bounds:
  assumes "representable c" "0 \<le> c" "0 \<le> bonus"
  shows "min c MAX_CONFIDENCE \<le> boosted_confidence bonus n c" "boosted_confidence bonus n c \<le> max c MAX_CONFIDENCE"
proof -
  have "0 \<le> fmul bonus (of_nat (n - 1))" using assms(3) by (simp add: fmul_nonneg)
  then have "fl c \<le> fadd c (fmul bonus (of_nat (n - 1)))" unfolding fadd_def by (intro fl_mono) simp
  then show "min c MAX_CONFIDENCE \<le> boosted_confidence bonus n c" "boosted_confidence bonus n c \<le> max c MAX_CONFIDENCE"
    using fl_id [OF assms(1)] by (auto simp: boosted_confidence_def min_def max_def)
qed

section \<open>Properties\<close>

definition same_place :: "span \<Rightarrow> span \<Rightarrow> bool" where
  "same_place r c \<longleftrightarrow> stype r = stype c \<and> svalue r = svalue c \<and> sstart r = sstart c \<and> send r = send c"

lemma same_place_resolve [simp]: "same_place (resolve_cluster b cl) (canonical cl)"
  by (simp add: same_place_def)

lemma cluster_member:
  assumes "\<forall>s \<in> set ss. sstart s < send s" "cl \<in> set (cluster_overlapping ss)"
  shows "cl \<noteq> []" "canonical cl \<in> set cl" "s \<in> set cl \<Longrightarrow> s \<in> set ss" "s \<in> set cl \<Longrightarrow> linked ss s (canonical cl)"
proof -
  note ok = clusters_ok [OF assms(1)]
  show ne: "cl \<noteq> []" using ok(1) assms(2) by (auto simp: cluster_ok_def)
  show "canonical cl \<in> set cl" by (rule canonical_in [OF ne])
  show "s \<in> set ss" if "s \<in> set cl"
    using that assms(2) arg_cong [OF ok(3), of set] by auto
  show "linked ss s (canonical cl)" if "s \<in> set cl"
    using that ok(1) assms(2) canonical_in [OF ne] by (auto simp: cluster_ok_def)
qed

lemma merge_disjoint:
  assumes "\<forall>s \<in> set spans. sstart s < send s"
  shows "disjoint_spans (merge_spans mc ob spans) \<and>
    (\<forall>r \<in> set (merge_spans mc ob spans). \<exists>c \<in> set spans.
       passes_min_confidence (thresholds_of mc) c \<and> same_place r c)"
proof -
  let ?f = "filter (passes_min_confidence (thresholds_of mc)) spans"
  have f: "\<forall>s \<in> set ?f. sstart s < send s" using assms by simp
  note m = merge_spans_clusters [where mc = mc and ob = ob, OF assms]
  have "\<exists>c \<in> set ?f. same_place (resolve_cluster b cl) c" if "cl \<in> set (cluster_overlapping ?f)" for b cl
    using cluster_member [OF f that] same_place_resolve by blast
  then show ?thesis unfolding m(1) using m(2) by fastforce
qed

text \<open>the merged spans are in order and do not overlap, and each of them has type, value and
  range of an input span that passed the threshold of its source.\<close>

theorem merge_spans_disjoint:
  assumes "\<forall>s \<in> set spans. sstart s < send s"
  shows "disjoint_spans (merge_spans mc ob spans) \<and>
    (\<forall>r \<in> set (merge_spans mc ob spans). \<exists>c \<in> set spans.
       passes_min_confidence (thresholds_of mc) c \<and> same_place r c)"
  using assms by (rule merge_disjoint)

lemma merge_represents:
  assumes "\<forall>s \<in> set spans. sstart s < send s" "s \<in> set spans" "passes_min_confidence (thresholds_of mc) s"
  shows "\<exists>r \<in> set (merge_spans mc ob spans). \<exists>c. same_place r c \<and> merge_key s \<le> merge_key c \<and>
    linked (filter (passes_min_confidence (thresholds_of mc)) spans) s c"
proof -
  let ?f = "filter (passes_min_confidence (thresholds_of mc)) spans"
  have f: "\<forall>s \<in> set ?f. sstart s < send s" using assms by simp
  have "s \<in> set (concat (cluster_overlapping ?f))" using assms(2,3) by (simp add: clusters_ok(3) [OF f])
  then obtain cl where cl: "cl \<in> set (cluster_overlapping ?f)" "s \<in> set cl" by auto
  show ?thesis unfolding merge_spans_clusters(1) [OF assms(1)]
    using cl(1) cluster_member(4) [OF f cl] canonical_max [OF cl(2)] same_place_resolve
    by (auto intro!: bexI [of _ cl] exI [of _ "canonical cl"])
qed

text \<open>C33: nothing is lost for a weaker reason: a span that passed its threshold is linked by a chain
  of overlapping spans to one that is reported and has at least its merge key (source priority,
  then confidence, then length).\<close>

theorem merge_spans_represents:
  assumes "\<forall>s \<in> set spans. sstart s < send s" "s \<in> set spans" "passes_min_confidence (thresholds_of mc) s"
  shows "\<exists>r \<in> set (merge_spans mc ob spans). \<exists>c. same_place r c \<and> merge_key s \<le> merge_key c \<and>
    linked (filter (passes_min_confidence (thresholds_of mc)) spans) s c"
  using assms by (rule merge_represents)

theorem merge_spans_disjoint_witness:
  "disjoint_spans (merge_spans None None
     [\<lparr>stype = lit ''NAME'', svalue = lit ''abcd'', sstart = 2, send = 6, sconfidence = 1, ssource = lit ''ner''\<rparr>])"
  by (rule conjunct1 [OF merge_spans_disjoint]) simp

theorem merge_spans_represents_witness:
  "\<exists>r \<in> set (merge_spans None None
     [\<lparr>stype = lit ''NAME'', svalue = lit ''abcd'', sstart = 2, send = 6, sconfidence = 1, ssource = lit ''ner''\<rparr>]). stype r = lit ''NAME''"
proof -
  let ?s = "\<lparr>stype = lit ''NAME'', svalue = lit ''abcd'', sstart = 2, send = 6, sconfidence = 1, ssource = lit ''ner''\<rparr>"
  have "passes_min_confidence (thresholds_of None) ?s" by code_simp
  from merge_spans_represents [OF _ _ this, of "[?s]" None] obtain r c where
    r: "r \<in> set (merge_spans None None [?s])" "same_place r c" "linked (filter (passes_min_confidence (thresholds_of None)) [?s]) ?s c"
    by auto
  from linked_in [OF r(3)] have "c = ?s" by (auto split: if_splits)
  with r show ?thesis by (auto simp: same_place_def)
qed

text \<open>spans that do not overlap pass through the merge unchanged, thresholds apart.\<close>

theorem merge_spans_id:
  assumes "disjoint_spans spans" "\<forall>s \<in> set spans. sstart s < send s"
  shows "merge_spans mc ob spans = filter (passes_min_confidence (thresholds_of mc)) spans"
proof -
  let ?f = "filter (passes_min_confidence (thresholds_of mc)) spans"
  have d: "disjoint_spans ?f" and f: "\<forall>s \<in> set ?f. sstart s < send s"
    using assms disjoint_filter by auto
  have "sort_key (\<lambda>s. (sstart s, send s)) ?f = ?f"
    by (rule sort_key_id_if_sorted [OF disjoint_sorted_pairs [OF d f]])
  then have "cluster_overlapping ?f = map (\<lambda>s. [s]) ?f"
    using sweep_single [of _ _ "[]"] d
    by (cases ?f) (auto simp: cluster_overlapping_def disjoint_spans_def)
  then show ?thesis by (simp add: merge_spans_clusters(1) [OF assms(2)] o_def)
qed

theorem merge_spans_id_witness:
  "merge_spans None None [\<lparr>stype = lit ''NAME'', svalue = lit ''ab'', sstart = 0, send = 2, sconfidence = 1, ssource = lit ''ner''\<rparr>,
     \<lparr>stype = lit ''NAME'', svalue = lit ''cd'', sstart = 2, send = 4, sconfidence = 0, ssource = lit ''ner''\<rparr>]
   = [\<lparr>stype = lit ''NAME'', svalue = lit ''ab'', sstart = 0, send = 2, sconfidence = 1, ssource = lit ''ner''\<rparr>]"
  (is "merge_spans None None [?a, ?b] = _")
proof -
  have "passes_min_confidence (thresholds_of None) ?a" "\<not> passes_min_confidence (thresholds_of None) ?b"
    by code_simp+
  then show ?thesis using merge_spans_id [of "[?a, ?b]" None None] by (simp add: disjoint_spans_def)
qed

text \<open>a resolved cluster never reports less than its canonical confidence, except that agreement
  caps it at 0.999, and never more than the greater of the two.\<close>

theorem resolve_confidence_bounds:
  assumes "cl \<noteq> []" "\<forall>s \<in> set cl. 0 \<le> sconfidence s \<and> representable (sconfidence s)" "0 \<le> bonus"
  shows "min (sconfidence (canonical cl)) MAX_CONFIDENCE \<le> sconfidence (resolve_cluster bonus cl) \<and>
    sconfidence (resolve_cluster bonus cl) \<le> max (sconfidence (canonical cl)) MAX_CONFIDENCE"
  using boosted_bounds [of "sconfidence (canonical cl)" bonus] assms canonical_in [OF assms(1)]
  by (auto simp: resolve_cluster_def canonical_single Let_def)

theorem resolve_confidence_bounds_witness:
  "sconfidence (resolve_cluster OVERLAP_BONUS
    [\<lparr>stype = lit ''NAME'', svalue = lit ''ab'', sstart = 0, send = 2, sconfidence = 1, ssource = lit ''ner''\<rparr>,
     \<lparr>stype = lit ''NAME'', svalue = lit ''ab'', sstart = 0, send = 2, sconfidence = 1, ssource = lit ''dict''\<rparr>]) \<le> 1"
  (is "sconfidence (resolve_cluster _ [?a, ?b]) \<le> 1")
proof -
  have c: "sconfidence (canonical [?a, ?b]) = 1" "MAX_CONFIDENCE \<le> 1" by code_simp+
  have "representable 1" using representable_of_int [of 1] by simp
  moreover have "0 \<le> OVERLAP_BONUS" by code_simp
  ultimately show ?thesis using resolve_confidence_bounds [of "[?a, ?b]" OVERLAP_BONUS] c by simp
qed

text \<open>a chain of overlaps can drop a span that overlaps nothing that is reported: of an RRN at
  0 to 14, a dictionary term at 10 to 20 and a name at 18 to 25 only the RRN is left.\<close>

theorem merge_chain_drops_disjoint:
  "map (\<lambda>s. (sstart s, send s)) (merge_spans None None
    [\<lparr>stype = lit ''RRN'', svalue = [], sstart = 0, send = 14, sconfidence = fl (97 / 100), ssource = lit ''regex''\<rparr>,
     \<lparr>stype = lit ''ORG'', svalue = [], sstart = 10, send = 20, sconfidence = fl (7 / 10), ssource = lit ''dict''\<rparr>,
     \<lparr>stype = lit ''NAME'', svalue = [], sstart = 18, send = 25, sconfidence = fl (9 / 10), ssource = lit ''ner''\<rparr>])
   = [(0, 14)]"
  by code_simp

end
