(* ===== verification/Detect.thy ===== *)
theory Detect
  imports Regex_Rules Merge Mask
begin

text \<open>
  The hybrid detector: the dictionary layer (\<open>app/detect/dictionary.py\<close>), the language model
  layer (\<open>app/detect/ner.py\<close>), and the orchestrator of the three layers
  (\<open>app/detect/__init__.py\<close>). The file system, the Aho-Corasick automaton, the
  configuration and the model are parameters (\<open>detect_env\<close>). The process keeps
  the automaton of the default dictionary and the engine of the model (\<open>detect_state\<close>).
  A confidence that reads \<open>inf\<close> or \<open>nan\<close> has no counterpart in the model and counts as malformed.
\<close>

section \<open>Parameters and state\<close>

record detect_config =
  regex_min_confidence :: pyfloat
  dict_min_confidence :: pyfloat
  ner_threshold :: pyfloat
  ner_model_name :: pystr
  merge_overlap_bonus :: pyfloat
  dictionary_path :: pystr
  enabled_layers :: pystr

text \<open>The words of an automaton with their payload (type, confidence, length), and an entity the model predicts.\<close>

type_synonym payload = "pystr \<times> pyfloat \<times> nat"
type_synonym automaton = "(pystr \<times> payload) list"

record ner_entity =
  elabel :: pystr
  etext :: pystr
  estart :: nat
  eend :: nat
  escore :: pyfloat

record 'm detect_env =
  d_file :: "pystr \<Rightarrow> pystr list option result"
  d_iter :: "automaton \<Rightarrow> pystr \<Rightarrow> (nat \<times> payload) list"
  d_config :: "detect_config result"
  d_pretrained :: "nat \<Rightarrow> pystr \<Rightarrow> 'm result"
  d_predict :: "'m \<Rightarrow> pystr \<Rightarrow> pystr list \<Rightarrow> pyfloat \<Rightarrow> ner_entity list result"

record 'm ner_engine =
  model_name :: pystr
  threshold :: pyfloat
  model :: "'m option"

record 'm detect_state =
  ds_automaton :: "automaton option"
  ds_engine :: "'m ner_engine option"
  ds_loads :: nat

section \<open>The dictionary\<close>

definition DEFAULT_DICT_PATH :: pystr where "DEFAULT_DICT_PATH = lit ''dictionaries/financial_terms.txt''"
definition MIN_TERM_LENGTH :: nat where "MIN_TERM_LENGTH = 2"

text \<open>\<open>s.split(c)\<close>, and \<open>float(s)\<close>: an optional sign, digits with single underscores, an exponent.\<close>

fun split_on :: "pychar \<Rightarrow> pystr \<Rightarrow> pystr list" where
  "split_on sep [] = [[]]"
| "split_on sep (c # s) = (if c = sep then [] # split_on sep s else (c # hd (split_on sep s)) # tl (split_on sep s))"

definition DIGITS_RE :: re where
  "DIGITS_RE = seqs [Cls False [Dig], Star (seqs [Opt (word ''_''), Cls False [Dig]])]"

definition FLOAT_RE :: re where
  "FLOAT_RE = seqs [Opt (Grp 1 (Cls False [Lit 43, Lit 45])),
     alts [seqs [Grp 2 DIGITS_RE, Opt (seqs [word ''.'', Opt (Grp 3 DIGITS_RE)])], seqs [word ''.'', Grp 4 DIGITS_RE]],
     Opt (seqs [Cls False [Lit 101, Lit 69], Opt (Grp 5 (Cls False [Lit 43, Lit 45])), Grp 6 DIGITS_RE])]"

definition float_of_str :: "pystr \<Rightarrow> pyfloat result" where
  "float_of_str s =
     (let s = strip s in
      case re_fullmatch FLOAT_RE False s of None \<Rightarrow> Inl ValueError
      | Some m \<Rightarrow>
          let part = (\<lambda>k. case group s m k of None \<Rightarrow> [] | Some g \<Rightarrow> g); digits = (\<lambda>k. filter is_decimal (part k));
              frac = digits 3 @ digits 4;
              mantissa = of_int ((if part 1 = lit ''-'' then -1 else 1) * int_of_decimals (digits 2 @ frac));
              e = (if part 5 = lit ''-'' then -1 else 1) * int_of_decimals (digits 6) - int (length frac)
          in Inr (fl (if 0 \<le> e then mantissa * 10 ^ nat e else mantissa / 10 ^ nat (- e))))"

text \<open>One line of the file; what it adds to the automaton (\<open>add_word\<close> replaces the payload of a known word).\<close>

definition dictionary_entry :: "pystr \<Rightarrow> (pystr \<times> payload) option" where
  "dictionary_entry raw_line =
     (let line = strip raw_line in
      if line = [] \<or> take 1 line = lit ''#'' then None
      else case split_on 9 line of
          [term, ty, confidence_str] \<Rightarrow>
            if length term < MIN_TERM_LENGTH then None
            else (case float_of_str confidence_str of Inl e \<Rightarrow> None | Inr c \<Rightarrow> Some (term, ty, c, length term))
        | _ \<Rightarrow> None)"

fun add_lines :: "pystr list \<Rightarrow> automaton \<Rightarrow> automaton" where
  "add_lines [] ac = ac"
| "add_lines (l # ls) ac =
     add_lines ls (case dictionary_entry l of None \<Rightarrow> ac | Some (w, p) \<Rightarrow> dict_set w p ac)"

definition load_dictionary :: "'m detect_env \<Rightarrow> pystr \<Rightarrow> automaton result" where
  "load_dictionary env path =
     bind_result (d_file env path) (\<lambda>f. case f of None \<Rightarrow> Inr [] | Some ls \<Rightarrow> Inr (add_lines ls []))"

definition resolve_default_path :: "'m detect_env \<Rightarrow> pystr" where
  "resolve_default_path env =
     (case d_config env of Inl e \<Rightarrow> DEFAULT_DICT_PATH
      | Inr cfg \<Rightarrow> if dictionary_path cfg \<noteq> [] then dictionary_path cfg else DEFAULT_DICT_PATH)"

definition get_default_automaton :: "'m detect_env \<Rightarrow> 'm detect_state \<Rightarrow> 'm detect_state \<times> automaton result" where
  "get_default_automaton env st =
     (case ds_automaton st of
        Some ac \<Rightarrow> (st, Inr ac)
      | None \<Rightarrow>
          (case load_dictionary env (resolve_default_path env) of
             Inl e \<Rightarrow> (st, Inl e)
           | Inr ac \<Rightarrow> (st\<lparr>ds_automaton := Some ac\<rparr>, Inr ac)))"

definition dict_span :: "pystr \<Rightarrow> nat \<times> payload \<Rightarrow> span" where
  "dict_span t hit =
     (case hit of (end_index, ty, c, term_len) \<Rightarrow>
        let start = end_index + 1 - term_len in
        \<lparr>stype = ty, svalue = slice start (end_index + 1) t, sstart = start, send = end_index + 1,
         sconfidence = c, ssource = lit ''dict''\<rparr>)"

definition dict_detect :: "'m detect_env \<Rightarrow> pystr \<Rightarrow> automaton option \<Rightarrow> 'm detect_state \<Rightarrow> 'm detect_state \<times> span list result" where
  "dict_detect env t given st =
     (let (st, ac) = (case given of Some ac \<Rightarrow> (st, Inr ac) | None \<Rightarrow> get_default_automaton env st)
      in (st, bind_result ac (\<lambda>ac. Inr (if ac = [] then [] else map (dict_span t) (d_iter env ac t)))))"

section \<open>The language model\<close>

definition LABEL_TO_SPAN_TYPE :: "(pystr \<times> pystr) list" where
  "LABEL_TO_SPAN_TYPE =
     [([49324, 46988, 32, 51060, 47492], lit ''NAME''), ([51452, 49548], lit ''ADDRESS''), ([54924, 49324, 47749], lit ''ORG''),
      ([45236, 48512, 32, 54532, 47196, 51229, 53944, 47749], lit ''PROJECT''), ([50672, 52404, 32, 51221, 48372], lit ''CREDIT_INFO''),
      ([45824, 52636, 32, 51092, 50529], lit ''CREDIT_INFO''), ([49888, 50857, 46321, 44553], lit ''CREDIT_INFO'')]"

definition GLINER_LABELS :: "pystr list" where "GLINER_LABELS = map fst LABEL_TO_SPAN_TYPE"
definition DEFAULT_MODEL_NAME :: pystr where "DEFAULT_MODEL_NAME = lit ''urchade/gliner_multi-v2.1''"
definition DEFAULT_THRESHOLD :: pyfloat where "DEFAULT_THRESHOLD = fl (4 / 10)"

definition PARTICLES :: re where
  "PARTICLES = alts [text_re [45784, 51032], text_re [45784], text_re [50472, 44032], text_re [50472, 45716], text_re [50472],
     text_re [51060, 44256], text_re [51060, 47728], text_re [51004, 47196], text_re [50640, 49436], text_re [50640, 44172],
     text_re [51008], text_re [45716], text_re [51060], text_re [44032], text_re [51012], text_re [47484], text_re [51032],
     text_re [50640], text_re [47196]]"

definition TRAILING_PARTICLES :: re where "TRAILING_PARTICLES = seqs [Grp 1 PARTICLES, Eol]"

definition trim_trailing_particle :: "pystr \<Rightarrow> pystr" where
  "trim_trailing_particle t = (let trimmed = re_sub TRAILING_PARTICLES False (\<lambda>m. []) t in if trimmed \<noteq> [] then trimmed else t)"

definition new_engine :: "pystr \<Rightarrow> pyfloat \<Rightarrow> 'm ner_engine" where
  "new_engine name th = \<lparr>model_name = name, threshold = th, model = None\<rparr>"

definition get_ner_engine :: "pystr option \<Rightarrow> pyfloat option \<Rightarrow> 'm detect_state \<Rightarrow> 'm detect_state \<times> 'm ner_engine" where
  "get_ner_engine name th st =
     (case ds_engine st of
        Some g \<Rightarrow> (st, g)
      | None \<Rightarrow>
          let g = new_engine (case name of None \<Rightarrow> DEFAULT_MODEL_NAME | Some n \<Rightarrow> if n \<noteq> [] then n else DEFAULT_MODEL_NAME)
                    (case th of None \<Rightarrow> DEFAULT_THRESHOLD | Some x \<Rightarrow> x)
          in (st\<lparr>ds_engine := Some g\<rparr>, g))"

text \<open>\<open>_ensure_loaded\<close> of the process-wide engine: a failed load is tried again by the next call.\<close>

definition ensure_loaded :: "'m detect_env \<Rightarrow> 'm ner_engine \<Rightarrow> 'm detect_state \<Rightarrow> 'm detect_state \<times> 'm result" where
  "ensure_loaded env g st =
     (case model g of
        Some m \<Rightarrow> (st, Inr m)
      | None \<Rightarrow>
          (case d_pretrained env (ds_loads st) (model_name g) of
             Inl e \<Rightarrow> (st\<lparr>ds_loads := Suc (ds_loads st)\<rparr>, Inl e)
           | Inr m \<Rightarrow> (st\<lparr>ds_loads := Suc (ds_loads st), ds_engine := Some (g\<lparr>model := Some m\<rparr>)\<rparr>, Inr m)))"

definition preload :: "'m detect_env \<Rightarrow> detect_config \<Rightarrow> 'm detect_state \<Rightarrow> 'm detect_state" where
  "preload env cfg st =
     (let (st, g) = get_ner_engine (Some (ner_model_name cfg)) (Some (ner_threshold cfg)) st in fst (ensure_loaded env g st))"

fun ner_spans :: "ner_entity list \<Rightarrow> span list" where
  "ner_spans [] = []"
| "ner_spans (ent # ents) =
     (case dict_get LABEL_TO_SPAN_TYPE (elabel ent) of
        None \<Rightarrow> ner_spans ents
      | Some span_type \<Rightarrow>
          let body = etext ent; trimmed = trim_trailing_particle body;
              (stop, body) = (if trimmed \<noteq> body then (estart ent + length trimmed, trimmed) else (eend ent, body))
          in if body = [] then ner_spans ents
             else \<lparr>stype = span_type, svalue = body, sstart = estart ent, send = stop, sconfidence = escore ent, ssource = lit ''ner''\<rparr> # ner_spans ents)"

definition extract_spans :: "'m detect_env \<Rightarrow> 'm ner_engine \<Rightarrow> pystr \<Rightarrow> 'm detect_state \<Rightarrow> 'm detect_state \<times> span list" where
  "extract_spans env g t st =
     (if t = [] \<or> strip t = [] then (st, [])
      else let (st, m) = ensure_loaded env g st
           in (st, case bind_result m (\<lambda>m. d_predict env m t GLINER_LABELS (threshold g)) of
                     Inl e \<Rightarrow> [] | Inr raw_entities \<Rightarrow> ner_spans raw_entities))"

definition ner_detect :: "'m detect_env \<Rightarrow> pystr \<Rightarrow> 'm detect_state \<Rightarrow> 'm detect_state \<times> span list" where
  "ner_detect env t st = (let (st, g) = get_ner_engine None None st in extract_spans env g t st)"

section \<open>The three layers\<close>

definition LAYERS :: "pystr list" where "LAYERS = [lit ''regex'', lit ''dict'', lit ''ner'']"

definition run_layer :: "'m detect_env \<Rightarrow> pystr \<Rightarrow> pystr \<Rightarrow> 'm detect_state \<Rightarrow> 'm detect_state \<times> span list result" where
  "run_layer env name t st =
     (if name = lit ''regex'' then (st, regex_detect t)
      else if name = lit ''dict'' then dict_detect env t None st
      else let (st, ss) = ner_detect env t st in (st, Inr ss))"

definition active_layers :: "'m detect_env \<Rightarrow> pystr list" where
  "active_layers env =
     (let raw = (case d_config env of Inl e \<Rightarrow> [] | Inr cfg \<Rightarrow> enabled_layers cfg) in
      if raw = [] then LAYERS
      else let names = filter (\<lambda>n. n \<noteq> []) (map strip (split_on 44 raw)) in filter (\<lambda>n. n \<in> set names) LAYERS)"

definition merge_kwargs :: "'m detect_env \<Rightarrow> (pystr \<times> pyfloat) list option \<times> pyfloat option" where
  "merge_kwargs env =
     (case d_config env of
        Inl e \<Rightarrow> (None, None)
      | Inr d \<Rightarrow> (Some [(lit ''regex'', regex_min_confidence d), (lit ''dict'', dict_min_confidence d), (lit ''ner'', ner_threshold d)],
                  Some (merge_overlap_bonus d)))"

fun run_layers :: "'m detect_env \<Rightarrow> pystr \<Rightarrow> pystr list \<Rightarrow> 'm detect_state \<Rightarrow> 'm detect_state \<times> span list" where
  "run_layers env t [] st = (st, [])"
| "run_layers env t (name # names) st =
     (let (st, r) = run_layer env name t st; (st, rest) = run_layers env t names st
      in (st, (case r of Inl e \<Rightarrow> [] | Inr ss \<Rightarrow> ss) @ rest))"

definition detect :: "'m detect_env \<Rightarrow> pystr \<Rightarrow> 'm detect_state \<Rightarrow> 'm detect_state \<times> span list" where
  "detect env t st =
     (if t = [] then (st, [])
      else let (st, raw_spans) = run_layers env t (active_layers env) st; (mc, bonus) = merge_kwargs env
           in (st, merge_spans mc bonus raw_spans))"

definition analyze_turn :: "'m detect_env \<Rightarrow> ctx \<Rightarrow> 'm detect_state \<Rightarrow> 'm detect_state \<times> ctx" where
  "analyze_turn env c st =
     (if turns c = [] then (st, c\<lparr>new_turn_spans := []\<rparr>)
      else let (st, ss) = detect env (ttext (last (turns c))) st in (st, c\<lparr>new_turn_spans := ss\<rparr>))"

definition pii_detect_stage :: "'m detect_env \<Rightarrow> ctx \<Rightarrow> 'm detect_state \<Rightarrow> 'm detect_state \<times> ctx" where
  "pii_detect_stage env c st = analyze_turn env c st"

section \<open>The trimmed value is a prefix\<close>

lemma particle_match:
  assumes "m \<in> set (re_finditer TRAILING_PARTICLES False t)" "t = [] \<or> last t \<noteq> 10"
  shows "mstart m < mend m \<and> mend m = length t"
proof -
  have "1 \<le> minw TRAILING_PARTICLES" by code_simp
  then have lt: "mstart m < mend m" using finditer_sound(2) [OF assms(1)] by simp
  have "(mend m, mcaps m) \<in> set (rm TRAILING_PARTICLES False t (mstart m) [])" by (rule finditer_sound(4) [OF assms(1)])
  then have "mend m = length t \<or> Suc (mend m) = length t \<and> t ! mend m = 10"
    by (auto simp: TRAILING_PARTICLES_def set_then_m split: if_splits)
  moreover have "t ! mend m \<noteq> 10" if "Suc (mend m) = length t"
    using that assms(2) by (metis diff_Suc_1 last_conv_nth length_0_conv nat.distinct(1))
  ultimately show ?thesis using lt by blast
qed

lemma trim_prefix:
  assumes "t \<noteq> []" "last t \<noteq> 10"
  shows "\<exists>k. 0 < k \<and> k \<le> length t \<and> trim_trailing_particle t = take k t"
proof -
  have "\<exists>k \<le> length t. re_sub TRAILING_PARTICLES False (\<lambda>m. []) t = take k t"
  proof (cases "re_finditer TRAILING_PARTICLES False t")
    case Nil
    then show ?thesis by (intro exI [of _ "length t"]) (simp add: re_sub_no_match)
  next
    case (Cons m ms)
    have p: "mstart n < mend n \<and> mend n = length t" if "n \<in> set (m # ms)" for n
      using particle_match that assms(2) Cons by metis
    have "ms = []"
    proof (rule ccontr)
      assume "ms \<noteq> []"
      then obtain n where n: "n \<in> set ms" by (cases ms) auto
      then have "mend m \<le> mstart n" using finditer_sorted [of TRAILING_PARTICLES False t] Cons by auto
      with p [of m] p [of n] n show False by auto
    qed
    with p [of m] show ?thesis
      by (intro exI [of _ "mstart m"]) (simp add: re_sub_def Cons slice_def)
  qed
  then obtain k where k: "k \<le> length t" "re_sub TRAILING_PARTICLES False (\<lambda>m. []) t = take k t" by blast
  show ?thesis
  proof (cases "take k t = []")
    case True
    with k assms show ?thesis by (intro exI [of _ "length t"]) (simp add: trim_trailing_particle_def)
  next
    case False
    with k show ?thesis by (intro exI [of _ k]) (auto simp: trim_trailing_particle_def)
  qed
qed

section \<open>The layers report ranges of the text\<close>

text \<open>
  What the layers rely on: the automaton yields the end and the payload of every occurrence of
  one of its words and nothing else, and the model yields entities that are ranges of
  the text and end with a character other than a line feed (its tokens hold no white space).
\<close>

definition occurs_at :: "pystr \<Rightarrow> nat \<Rightarrow> pystr \<Rightarrow> bool" where
  "occurs_at w e t \<longleftrightarrow> w \<noteq> [] \<and> length w \<le> Suc e \<and> e < length t \<and> slice (Suc e - length w) (Suc e) t = w"

definition iter_documented :: "(automaton \<Rightarrow> pystr \<Rightarrow> (nat \<times> payload) list) \<Rightarrow> bool" where
  "iter_documented it \<longleftrightarrow>
     (\<forall>ac t. ac \<noteq> [] \<longrightarrow> set (it ac t) = {(e, p). \<exists>w. map_of ac w = Some p \<and> occurs_at w e t})"

definition entity_ok :: "pystr \<Rightarrow> ner_entity \<Rightarrow> bool" where
  "entity_ok t ent \<longleftrightarrow> estart ent < eend ent \<and> eend ent \<le> length t \<and>
     etext ent = slice (estart ent) (eend ent) t \<and> last (etext ent) \<noteq> 10"

definition predict_documented :: "('m \<Rightarrow> pystr \<Rightarrow> pystr list \<Rightarrow> pyfloat \<Rightarrow> ner_entity list result) \<Rightarrow> bool" where
  "predict_documented pr \<longleftrightarrow> (\<forall>m t ls th es. pr m t ls th = Inr es \<longrightarrow> (\<forall>ent \<in> set es. entity_ok t ent))"

definition automaton_ok :: "automaton \<Rightarrow> bool" where
  "automaton_ok ac \<longleftrightarrow> (\<forall>w ty c n. map_of ac w = Some (ty, c, n) \<longrightarrow> n = length w \<and> MIN_TERM_LENGTH \<le> n)"

definition detect_state_ok :: "'m detect_state \<Rightarrow> bool" where
  "detect_state_ok st \<longleftrightarrow> (\<forall>ac. ds_automaton st = Some ac \<longrightarrow> automaton_ok ac)"

lemma dictionary_entry_ok: "dictionary_entry l = Some (w, ty, c, n) \<Longrightarrow> n = length w \<and> MIN_TERM_LENGTH \<le> n"
  by (auto simp: dictionary_entry_def Let_def split: if_splits list.splits sum.splits)

lemma add_lines_ok: "automaton_ok ac \<Longrightarrow> automaton_ok (add_lines ls ac)"
proof (induction ls arbitrary: ac)
  case (Cons l ls)
  have "automaton_ok (dict_set w (ty, c, n) ac)" if "dictionary_entry l = Some (w, ty, c, n)" for w ty c n
    using dictionary_entry_ok [OF that] Cons.prems by (auto simp: automaton_ok_def)
  with Cons show ?case by (auto split: option.splits)
qed simp

lemma load_dictionary_ok: "load_dictionary env path = Inr ac \<Longrightarrow> automaton_ok ac"
  by (auto simp: load_dictionary_def bind_result_def automaton_ok_def [of "[]"] intro!: add_lines_ok split: sum.splits option.splits)

lemma dict_span_ok:
  assumes "automaton_ok ac" "map_of ac w = Some p" "occurs_at w e t"
  shows "span_of t (dict_span t (e, p))"
proof -
  obtain ty c n where p: "p = (ty, c, n)" by (cases p)
  with assms have "n = length w" by (auto simp: automaton_ok_def)
  with assms(3) show ?thesis by (cases w) (auto simp: p dict_span_def occurs_at_def span_of_def Let_def)
qed

lemma dict_detect_ok:
  assumes "iter_documented (d_iter env)" "detect_state_ok st" "dict_detect env t None st = (st', r)"
  shows "detect_state_ok st' \<and> (\<forall>ss. r = Inr ss \<longrightarrow> (\<forall>s \<in> set ss. span_of t s))"
proof -
  obtain st1 a where g: "get_default_automaton env st = (st1, a)" by fastforce
  have ok: "detect_state_ok st1 \<and> (\<forall>ac. a = Inr ac \<longrightarrow> automaton_ok ac)"
    using g assms(2) by (auto simp: get_default_automaton_def detect_state_ok_def dest: load_dictionary_ok sym [THEN load_dictionary_ok] split: option.splits sum.splits)
  have "span_of t (dict_span t h)" if "a = Inr ac" "ac \<noteq> []" "h \<in> set (d_iter env ac t)" for ac h
  proof -
    from that assms(1) obtain e p w where "h = (e, p)" "map_of ac w = Some p" "occurs_at w e t"
      by (cases h) (auto simp: iter_documented_def)
    with ok that(1) show ?thesis using dict_span_ok by blast
  qed
  moreover have "st' = st1" "r = bind_result a (\<lambda>ac. Inr (if ac = [] then [] else map (dict_span t) (d_iter env ac t)))"
    using assms(3) g by (auto simp: dict_detect_def)
  ultimately show ?thesis using ok by (cases a) (auto simp: bind_result_def split: if_splits)
qed

lemma ner_span_ok:
  assumes "entity_ok t ent" "s \<in> set (ner_spans [ent])"
  shows "span_of t s"
proof -
  have b: "etext ent \<noteq> []" "length (etext ent) = eend ent - estart ent" using assms(1) by (auto simp: entity_ok_def slice_def)
  obtain k where k: "0 < k" "k \<le> length (etext ent)" "trim_trailing_particle (etext ent) = take k (etext ent)"
    using trim_prefix [OF b(1)] assms(1) by (auto simp: entity_ok_def)
  have len: "estart ent < eend ent" "eend ent \<le> length t" "etext ent = slice (estart ent) (eend ent) t"
    using assms(1) by (auto simp: entity_ok_def)
  have "take k (slice (estart ent) (eend ent) t) = slice (estart ent) (estart ent + k) t"
    using k(2) b(2) by (simp add: slice_def min_def)
  then show ?thesis using assms(2) k len b
    by (auto simp: Let_def span_of_def split: option.splits if_splits prod.splits)
qed

lemma ner_spans_parts: "set (ner_spans es) = (\<Union>ent \<in> set es. set (ner_spans [ent]))"
  by (induction es) (auto simp: Let_def split: option.splits prod.splits if_splits)

lemma ner_detect_ok:
  assumes "predict_documented (d_predict env)" "detect_state_ok st" "ner_detect env t st = (st', ss)"
  shows "detect_state_ok st' \<and> (\<forall>s \<in> set ss. span_of t s)"
proof -
  obtain st1 g where g: "get_ner_engine None None st = (st1, g)" by fastforce
  obtain st2 m where m: "ensure_loaded env g st1 = (st2, m)" by fastforce
  have "ds_automaton st1 = ds_automaton st" using g by (auto simp: get_ner_engine_def Let_def split: option.splits)
  moreover have "ds_automaton st2 = ds_automaton st1" using m by (auto simp: ensure_loaded_def split: option.splits sum.splits)
  moreover have "st' = st1 \<or> st' = st2" using assms(3) g m by (auto simp: ner_detect_def extract_spans_def split: if_splits)
  ultimately have "detect_state_ok st'" using assms(2) by (auto simp: detect_state_ok_def)
  moreover have "span_of t s" if "s \<in> set ss" for s
  proof -
    from that assms(3) g m obtain es where es: "bind_result m (\<lambda>m. d_predict env m t GLINER_LABELS (threshold g)) = Inr es" "s \<in> set (ner_spans es)"
      by (auto simp: ner_detect_def extract_spans_def split: if_splits sum.splits)
    then obtain md where "d_predict env md t GLINER_LABELS (threshold g) = Inr es" by (cases m) (auto simp: bind_result_def)
    with assms(1) have "\<forall>ent \<in> set es. entity_ok t ent" by (auto simp: predict_documented_def)
    with es(2) show ?thesis using ner_span_ok ner_spans_parts by blast
  qed
  ultimately show ?thesis by blast
qed

definition env_documented :: "'m detect_env \<Rightarrow> bool" where
  "env_documented env \<longleftrightarrow> iter_documented (d_iter env) \<and> predict_documented (d_predict env)"

lemma run_layer_ok:
  assumes "env_documented env" "detect_state_ok st" "run_layer env name t st = (st', r)"
  shows "detect_state_ok st' \<and> (\<forall>ss. r = Inr ss \<longrightarrow> (\<forall>s \<in> set ss. span_of t s))"
proof -
  obtain ss where ss: "regex_detect t = Inr ss" "\<forall>s \<in> set ss. regex_span_ok t s" using regex_detect_ok by blast
  obtain st1 ns where n: "ner_detect env t st = (st1, ns)" by fastforce
  from ner_detect_ok [OF _ assms(2) n] dict_detect_ok [OF _ assms(2)] assms ss n show ?thesis
    by (auto simp: run_layer_def env_documented_def regex_span_ok_def split: if_splits)
qed

lemma run_layers_ok:
  assumes "env_documented env"
  shows "detect_state_ok st \<Longrightarrow> run_layers env t names st = (st', ss) \<Longrightarrow> detect_state_ok st' \<and> (\<forall>s \<in> set ss. span_of t s)"
proof (induction names arbitrary: st st' ss)
  case (Cons name names)
  obtain st1 r where r: "run_layer env name t st = (st1, r)" by fastforce
  obtain st2 rest where rest: "run_layers env t names st1 = (st2, rest)" by fastforce
  note ok = run_layer_ok [OF assms Cons.prems(1) r]
  have "detect_state_ok st2 \<and> (\<forall>s \<in> set rest. span_of t s)" using Cons.IH [OF _ rest] ok by blast
  with ok Cons.prems(2) r rest show ?case by (auto split: sum.splits)
qed simp

lemma active_regex_only: "set (active_layers env) \<subseteq> set LAYERS"
  by (auto simp: active_layers_def Let_def)

text \<open>Every span bears the name of its layer, so a span that outranks one of the regex layer is one of them.\<close>

lemma run_layer_source:
  assumes "run_layer env name t st = (st', Inr ss)" "s \<in> set ss" "regex_detect t = Inr rs"
  shows "s \<in> set rs \<or> ssource s = lit ''dict'' \<or> ssource s = lit ''ner''"
proof -
  have n: "ssource x = lit ''ner''" if "x \<in> set (ner_spans es)" for x es
    using that by (induction es) (auto simp: Let_def split: option.splits prod.splits if_splits)
  have d: "ssource (dict_span t h) = lit ''dict''" for h by (simp add: dict_span_def Let_def split: prod.splits)
  show ?thesis using assms
    by (auto simp: run_layer_def dict_detect_def bind_result_def ner_detect_def extract_spans_def d
        split: if_splits prod.splits sum.splits dest!: n)
qed

lemma run_layers_source:
  "run_layers env t names st = (st', ss) \<Longrightarrow> s \<in> set ss \<Longrightarrow> regex_detect t = Inr rs \<Longrightarrow>
    s \<in> set rs \<or> ssource s = lit ''dict'' \<or> ssource s = lit ''ner''"
proof (induction names arbitrary: st st' ss)
  case (Cons name names)
  obtain st1 r where r: "run_layer env name t st = (st1, r)" by fastforce
  obtain st2 rest where rest: "run_layers env t names st1 = (st2, rest)" by fastforce
  from Cons.prems r rest have "s \<in> set rest \<or> (\<exists>xs. r = Inr xs \<and> s \<in> set xs)" by (auto split: sum.splits)
  with Cons.IH [OF rest _ Cons.prems(3)] run_layer_source r Cons.prems(3) show ?case by blast
qed simp

lemma run_layers_regex:
  "run_layers env t names st = (st', ss) \<Longrightarrow> lit ''regex'' \<in> set names \<Longrightarrow> regex_detect t = Inr rs \<Longrightarrow> set rs \<subseteq> set ss"
proof (induction names arbitrary: st st' ss)
  case (Cons name names)
  obtain st1 r where r: "run_layer env name t st = (st1, r)" by fastforce
  obtain st2 rest where rest: "run_layers env t names st1 = (st2, rest)" by fastforce
  have ss: "ss = (case r of Inl e \<Rightarrow> [] | Inr xs \<Rightarrow> xs) @ rest" using Cons.prems(1) r rest by simp
  show ?case
  proof (cases "name = lit ''regex''")
    case True
    with r Cons.prems(3) have "r = Inr rs" by (simp add: run_layer_def)
    then show ?thesis by (simp add: ss)
  next
    case False
    with Cons.prems(2) have "lit ''regex'' \<in> set names" by simp
    from Cons.IH [OF rest this Cons.prems(3)] show ?thesis by (auto simp: ss)
  qed
qed simp

lemma detect_ok:
  assumes "env_documented env" "detect_state_ok st" "detect env t st = (st', ss)"
  shows "detect_state_ok st' \<and> disjoint_spans ss \<and> (\<forall>s \<in> set ss. span_of t s)"
proof (cases "t = []")
  case True
  with assms(2,3) show ?thesis by (simp add: detect_def disjoint_spans_def)
next
  case False
  obtain st1 raw where raw: "run_layers env t (active_layers env) st = (st1, raw)" by fastforce
  obtain mc bonus where k: "merge_kwargs env = (mc, bonus)" by fastforce
  have eq: "st' = st1" "ss = merge_spans mc bonus raw" using assms(3) False raw k by (auto simp: detect_def)
  note ok = run_layers_ok [OF assms(1,2) raw]
  then have "\<forall>s \<in> set raw. sstart s < send s" by (auto simp: span_of_def)
  from merge_disjoint [OF this, of mc bonus] ok show ?thesis unfolding eq by (fastforce simp: same_place_def span_of_def)
qed

section \<open>Properties\<close>

text \<open>C23: Whatever layers are on and fail, the spans reported for a turn are disjoint, in order, and
  ranges of its text that carry its characters, provided automaton and model behave as documented;
  the state of the detector stays well formed.\<close>

theorem detect_spans_ok:
  assumes "env_documented env" "detect_state_ok st" "detect env t st = (st', ss)"
  shows "detect_state_ok st' \<and> disjoint_spans ss \<and> (\<forall>s \<in> set ss. span_of t s)"
  using assms by (rule detect_ok)

text \<open>C24: With automaton and model behaving as documented, neither another layer nor the failure of one
  hides a finding of the regex layer: a regex span that passes its threshold is represented by the
  range of a regex span of at least its confidence, linked to it by a chain of overlapping spans
  among those the layers of this turn reported and the thresholds let through; so a span that
  overlaps no other reported span is kept itself.\<close>

theorem detect_keeps_regex:
  assumes "env_documented env" "detect_state_ok st" "lit ''regex'' \<in> set (active_layers env)" "detect env t st = (st', ss)"
    "regex_detect t = Inr rs" "s \<in> set rs" "passes_min_confidence (thresholds_of (fst (merge_kwargs env))) s"
  shows "\<exists>r \<in> set ss. \<exists>c \<in> set rs. same_place r c \<and> sconfidence s \<le> sconfidence c \<and>
    linked (filter (passes_min_confidence (thresholds_of (fst (merge_kwargs env)))) (snd (run_layers env t (active_layers env) st))) s c"
proof (cases "t = []")
  case True
  from assms(5,6) regex_detect_ok [of t] have "span_of t s" by (auto simp: regex_span_ok_def)
  with True show ?thesis by (auto simp: span_of_def)
next
  case False
  obtain st1 raw where raw: "run_layers env t (active_layers env) st = (st1, raw)" by fastforce
  obtain mc bonus where k: "merge_kwargs env = (mc, bonus)" by fastforce
  let ?f = "filter (passes_min_confidence (thresholds_of mc)) raw"
  have eq: "ss = merge_spans mc bonus raw" using assms(4) False raw k by (auto simp: detect_def)
  have ok: "\<forall>s \<in> set raw. sstart s < send s" using run_layers_ok [OF assms(1,2) raw] by (auto simp: span_of_def)
  have rs: "set rs \<subseteq> set raw" "s \<in> set raw" using run_layers_regex [OF raw assms(3,5)] assms(6) by auto
  from merge_represents [OF ok rs(2), of mc bonus] assms(7) k obtain r c
    where c: "r \<in> set ss" "same_place r c" "merge_key s \<le> merge_key c" "linked ?f s c" by (auto simp: eq)
  have "c \<in> set raw" using linked_in [OF c(4)] by simp
  have src: "ssource x = lit ''regex''" if "x \<in> set rs" for x
    using that assms(5) regex_detect_ok [of t] by (auto simp: regex_span_ok_def)
  have "\<not> (ssource c = lit ''dict'' \<or> ssource c = lit ''ner'')"
    using c(3) src [OF assms(6)] by (auto simp: merge_key_def source_priority_def SOURCE_PRIORITY_def dict_get_def less_eq_prod_def)
  with run_layers_source [OF raw \<open>c \<in> set raw\<close> assms(5)] have rc: "c \<in> set rs" by blast
  moreover have "sconfidence s \<le> sconfidence c"
    using c(3) src [OF assms(6)] src [OF rc] by (auto simp: merge_key_def less_eq_prod_def)
  ultimately show ?thesis using c(1,2,4) by (auto simp: raw k)
qed

text \<open>A concrete environment: a naive search for the words, one dictionary line, no model.\<close>

definition naive_iter :: "automaton \<Rightarrow> pystr \<Rightarrow> (nat \<times> payload) list" where
  "naive_iter ac t =
     concat (map (\<lambda>e. map (\<lambda>(w, p). (e, p)) (filter (\<lambda>(w, p). map_of ac w = Some p \<and> occurs_at w e t) ac)) [0..<length t])"

definition sample_detect_env :: "unit detect_env" where
  "sample_detect_env = \<lparr>d_file = (\<lambda>p. Inr (Some [lit ''Kim'' @ [9] @ lit ''NAME'' @ [9] @ lit ''0.55''])), d_iter = naive_iter,
     d_config = Inl ValueError, d_pretrained = (\<lambda>k n. Inl ValueError), d_predict = (\<lambda>m t ls th. Inr [])\<rparr>"

definition sample_detect_state :: "unit detect_state" where
  "sample_detect_state = \<lparr>ds_automaton = None, ds_engine = None, ds_loads = 0\<rparr>"

lemma sample_documented: "env_documented sample_detect_env" "detect_state_ok sample_detect_state"
proof -
  have "iter_documented naive_iter"
    by (fastforce simp: iter_documented_def naive_iter_def occurs_at_def dest: map_of_SomeD)
  then show "env_documented sample_detect_env" "detect_state_ok sample_detect_state"
    by (simp_all add: env_documented_def sample_detect_env_def predict_documented_def detect_state_ok_def sample_detect_state_def)
qed

theorem detect_spans_ok_witness:
  "let ss = snd (detect sample_detect_env (lit ''Kim: 02-123-4567'') sample_detect_state)
   in map stype ss = [lit ''NAME'', lit ''PHONE''] \<and> disjoint_spans ss"
proof -
  have "map stype (snd (detect sample_detect_env (lit ''Kim: 02-123-4567'') sample_detect_state)) = [lit ''NAME'', lit ''PHONE'']"
    by code_simp
  with detect_spans_ok [OF sample_documented prod.collapse [symmetric]] show ?thesis by (simp add: Let_def)
qed

theorem detect_keeps_regex_witness:
  "\<exists>r \<in> set (snd (detect sample_detect_env (lit ''02-123-4567'') sample_detect_state)). svalue r = lit ''02-123-4567''"
proof -
  let ?s = "\<lparr>stype = lit ''PHONE'', svalue = lit ''02-123-4567'', sstart = 0, send = 11, sconfidence = NO_CHECKSUM_CONFIDENCE, ssource = lit ''regex''\<rparr>"
  have f: "lit ''regex'' \<in> set (active_layers sample_detect_env)" "regex_detect (lit ''02-123-4567'') = Inr [?s]"
    "passes_min_confidence (thresholds_of (fst (merge_kwargs sample_detect_env))) ?s" by code_simp+
  from detect_keeps_regex [OF sample_documented f(1) prod.collapse [symmetric] f(2) _ f(3)] show ?thesis
    by (auto simp: same_place_def)
qed

end
