(* ===== verification/Json.thy ===== *)
theory Json
  imports Models Py_Text
begin

text \<open>
  What the code uses of the standard library on request bodies: \<open>str(v)\<close> and \<open>repr(v)\<close> of
  decoded values, \<open>json.dumps(v, ensure_ascii=False)\<close> and \<open>json.loads(b)\<close> of \<open>bytes\<close>, with the detection
  of the encoding, for the CPython 3.11 the \<open>Dockerfile\<close> names. \<open>depth\<close> is the number of nested containers
  the interpreter's stack still admits; every malformed document raises \<open>ValueError\<close> (\<open>JSONDecodeError\<close>
  and \<open>UnicodeDecodeError\<close> are subclasses). The sign of a zero float is not represented.
\<close>

section \<open>Numerals\<close>

function int_digits :: "int \<Rightarrow> pystr" where
  "int_digits n = (if n < 10 then [48 + n] else int_digits (n div 10) @ [48 + n mod 10])"
  by pat_completeness auto
termination by (relation "measure nat") auto

declare int_digits.simps [simp del]

definition py_str_int :: "int \<Rightarrow> pystr" where
  "py_str_int n = (if n < 0 then 45 # int_digits (- n) else int_digits n)"

definition int_of_digits :: "pystr \<Rightarrow> int" where
  "int_of_digits s = foldl (\<lambda>a c. 10 * a + (c - 48)) 0 s"

definition pow10 :: "int \<Rightarrow> rat" where
  "pow10 e = (if 0 \<le> e then 10 ^ nat e else 1 / 10 ^ nat (- e))"

text \<open>\<open>10 powi (ilog10 x) \<le> x < 10 powi (ilog10 x + 1)\<close>, and the digits of the shortest decimal that
  rounds to a positive float: the first of 1 to 17 digits for which one does.\<close>

definition ilog10 :: "rat \<Rightarrow> int" where
  "ilog10 x = (let (p, q) = quotient_of x; k = int (length (int_digits p)) - int (length (int_digits q))
     in if pow10 k \<le> x then k else k - 1)"

definition decimal_near :: "pyfloat \<Rightarrow> int \<Rightarrow> nat \<Rightarrow> int option" where
  "decimal_near x e n =
     (let u = pow10 (e + 1 - int n); lo = \<lfloor>x / u\<rfloor>; near = rhe (x / u); far = (if near = lo then lo + 1 else lo) in
      if fl (of_int near * u) = x then Some near else if fl (of_int far * u) = x then Some far else None)"

fun shortest :: "pyfloat \<Rightarrow> int \<Rightarrow> nat list \<Rightarrow> int \<times> nat" where
  "shortest x e [] = (rhe (x / pow10 (e - 16)), 17)"
| "shortest x e (n # ns) = (case decimal_near x e n of Some d \<Rightarrow> (d, n) | None \<Rightarrow> shortest x e ns)"

definition strip_zeros :: "pystr \<Rightarrow> pystr" where
  "strip_zeros s = rev (dropWhile (\<lambda>c. c = 48) (rev s))"

definition float_repr :: "pyfloat \<Rightarrow> pystr" where
  "float_repr x =
     (if x = 0 then lit ''0.0''
      else
        let a = \<bar>x\<bar>; e = ilog10 a; (d, n) = shortest a e [1..<18]; s = int_digits d;
            point = e + 1 + int (length s) - int n; ds = strip_zeros s; k = int (length ds);
            body = (if point \<le> -4 \<or> 16 < point
              then (let x10 = point - 1 in
                    take 1 ds @ (if 1 < k then 46 # drop 1 ds else []) @ [101, if x10 < 0 then 45 else 43] @
                    (if \<bar>x10\<bar> < 10 then [48] else []) @ int_digits \<bar>x10\<bar>)
              else if point \<le> 0 then lit ''0.'' @ replicate (nat (- point)) 48 @ ds
              else if k \<le> point then ds @ replicate (nat (point - k)) 48 @ lit ''.0''
              else take (nat point) ds @ [46] @ drop (nat point) ds)
        in (if x < 0 then [45] else []) @ body)"

section \<open>The text of a value: str and repr\<close>

definition hex_digit :: "int \<Rightarrow> pychar" where
  "hex_digit d = (if d < 10 then 48 + d else 87 + d)"

fun hex_fixed :: "nat \<Rightarrow> int \<Rightarrow> pystr" where
  "hex_fixed 0 c = []"
| "hex_fixed (Suc n) c = hex_fixed n (c div 16) @ [hex_digit (c mod 16)]"

definition repr_char :: "pychar \<Rightarrow> pychar \<Rightarrow> pystr" where
  "repr_char q c =
     (if c = q \<or> c = 92 then [92, c]
      else if c = 9 then lit [CHR 0x5C, CHR ''t''] else if c = 10 then lit [CHR 0x5C, CHR ''n'']
      else if c = 13 then lit [CHR 0x5C, CHR ''r'']
      else if is_printable c then [c]
      else if c < 0x100 then [92, 120] @ hex_fixed 2 c
      else if c < 0x10000 then [92, 117] @ hex_fixed 4 c
      else [92, 85] @ hex_fixed 8 c)"

definition repr_str :: "pystr \<Rightarrow> pystr" where
  "repr_str s = (let q = (if 39 \<in> set s \<and> 34 \<notin> set s then 34 else 39) in q # concat (map (repr_char q) s) @ [q])"

fun py_repr :: "pyval \<Rightarrow> pystr" and repr_items :: "pyval list \<Rightarrow> pystr" and repr_pairs :: "(pystr \<times> pyval) list \<Rightarrow> pystr" where
  "py_repr PNone = lit ''None''"
| "py_repr (PBool b) = (if b then lit ''True'' else lit ''False'')"
| "py_repr (PInt n) = py_str_int n"
| "py_repr (PFloat x) = float_repr x"
| "py_repr (PNonFinite s) = s"
| "py_repr (PStr s) = repr_str s"
| "py_repr (PList vs) = [91] @ repr_items vs @ [93]"
| "py_repr (PDict d) = [123] @ repr_pairs d @ [125]"
| "repr_items [] = []"
| "repr_items (v # vs) = py_repr v @ (if vs = [] then [] else lit '', '' @ repr_items vs)"
| "repr_pairs [] = []"
| "repr_pairs ((k, v) # d) = repr_str k @ lit '': '' @ py_repr v @ (if d = [] then [] else lit '', '' @ repr_pairs d)"

definition py_str :: "pyval \<Rightarrow> pystr" where
  "py_str v = (case v of PStr s \<Rightarrow> s | _ \<Rightarrow> py_repr v)"

section \<open>json.dumps\<close>

definition json_escape :: "pychar \<Rightarrow> pystr" where
  "json_escape c =
     (if c = 34 \<or> c = 92 then [92, c]
      else if c = 10 then [92, 110] else if c = 13 then [92, 114] else if c = 9 then [92, 116]
      else if c = 12 then [92, 102] else if c = 8 then [92, 98]
      else if 0 \<le> c \<and> c < 32 then [92, 117] @ hex_fixed 4 c
      else [c])"

definition json_string :: "pystr \<Rightarrow> pystr" where
  "json_string s = [34] @ concat (map json_escape s) @ [34]"

definition json_nonfinite :: "pystr \<Rightarrow> pystr" where
  "json_nonfinite s = (if s = lit ''inf'' then lit ''Infinity'' else if s = lit ''-inf'' then lit ''-Infinity'' else lit ''NaN'')"

fun json_dumps :: "pyval \<Rightarrow> pystr" and dump_items :: "pyval list \<Rightarrow> pystr" and dump_pairs :: "(pystr \<times> pyval) list \<Rightarrow> pystr" where
  "json_dumps PNone = lit ''null''"
| "json_dumps (PBool b) = (if b then lit ''true'' else lit ''false'')"
| "json_dumps (PInt n) = py_str_int n"
| "json_dumps (PFloat x) = float_repr x"
| "json_dumps (PNonFinite s) = json_nonfinite s"
| "json_dumps (PStr s) = json_string s"
| "json_dumps (PList vs) = [91] @ dump_items vs @ [93]"
| "json_dumps (PDict d) = [123] @ dump_pairs d @ [125]"
| "dump_items [] = []"
| "dump_items (v # vs) = json_dumps v @ (if vs = [] then [] else lit '', '' @ dump_items vs)"
| "dump_pairs [] = []"
| "dump_pairs ((k, v) # d) = json_string k @ lit '': '' @ json_dumps v @ (if d = [] then [] else lit '', '' @ dump_pairs d)"

section \<open>json.loads\<close>

text \<open>The scanners return the value and the rest of the text.\<close>

type_synonym 'a scanner = "pystr \<Rightarrow> ('a \<times> pystr) result"

fun starts :: "pychar \<Rightarrow> pystr \<Rightarrow> bool" where
  "starts c [] = False"
| "starts c (x # s) = (x = c)"

definition skip_ws :: "pystr \<Rightarrow> pystr" where
  "skip_ws s = dropWhile (\<lambda>c. c = 32 \<or> c = 9 \<or> c = 10 \<or> c = 13) s"

definition ascii_digit :: "pychar \<Rightarrow> bool" where
  "ascii_digit c \<longleftrightarrow> 48 \<le> c \<and> c \<le> 57"

definition nibble :: "pychar \<Rightarrow> int option" where
  "nibble c = (if ascii_digit c then Some (c - 48) else if 97 \<le> c \<and> c \<le> 102 then Some (c - 87)
     else if 65 \<le> c \<and> c \<le> 70 then Some (c - 55) else None)"

definition hex4 :: "pystr \<Rightarrow> (int \<times> pystr) option" where
  "hex4 s = (case s of a # b # c # d # r \<Rightarrow>
       (case map nibble [a, b, c, d] of
          [Some w, Some x, Some y, Some z] \<Rightarrow> Some (4096 * w + 256 * x + 16 * y + z, r)
        | _ \<Rightarrow> None)
     | _ \<Rightarrow> None)"

lemma hex4_shorter: "hex4 s = Some (u, r) \<Longrightarrow> length r < length s"
  by (auto simp: hex4_def split: list.splits option.splits)

definition simple_escape :: "pychar \<Rightarrow> pychar option" where
  "simple_escape e = map_of [(34, 34), (92, 92), (47, 47), (98, 8), (102, 12), (110, 10), (114, 13), (116, 9)] e"

text \<open>A high surrogate joins with an escaped low surrogate that follows it.\<close>

definition low_surrogate :: "pystr \<Rightarrow> (int \<times> pystr) option" where
  "low_surrogate s = (case s of a # b # r \<Rightarrow>
       if a = 92 \<and> b = 117 then (case hex4 r of Some (l, q) \<Rightarrow> if 0xDC00 \<le> l \<and> l \<le> 0xDFFF then Some (l, q) else None | None \<Rightarrow> None) else None
     | _ \<Rightarrow> None)"

lemma low_surrogate_shorter: "low_surrogate s = Some (u, r) \<Longrightarrow> length r < length s"
  by (auto simp: low_surrogate_def dest: hex4_shorter split: list.splits option.splits if_splits)

definition unicode_escape :: "pystr \<Rightarrow> (int \<times> pystr) option" where
  "unicode_escape s = (case hex4 s of None \<Rightarrow> None
     | Some (u, r) \<Rightarrow>
         if 0xD800 \<le> u \<and> u \<le> 0xDBFF
         then (case low_surrogate r of Some (l, q) \<Rightarrow> Some (0x10000 + (u - 0xD800) * 1024 + (l - 0xDC00), q) | None \<Rightarrow> Some (u, r))
         else Some (u, r))"

lemma unicode_escape_shorter: "unicode_escape s = Some (u, r) \<Longrightarrow> length r < length s"
  by (auto simp: unicode_escape_def dest!: hex4_shorter low_surrogate_shorter split: option.splits if_splits)

definition one_char :: "pystr \<Rightarrow> (pychar \<times> pystr) option" where
  "one_char s = (case s of [] \<Rightarrow> None
     | c # r \<Rightarrow>
         if c = 92 then (case r of [] \<Rightarrow> None
           | e # q \<Rightarrow> if e = 117 then unicode_escape q else map_option (\<lambda>x. (x, q)) (simple_escape e))
         else if c < 32 then None else Some (c, r))"

lemma one_char_shorter: "one_char s = Some (c, r) \<Longrightarrow> length r < length s"
  by (auto simp: one_char_def dest: unicode_escape_shorter split: list.splits if_splits)

text \<open>The characters after an opening quote.\<close>

function scan_string :: "pystr scanner" where
  "scan_string s =
     (if starts 34 s then Inr ([], tl s)
      else case one_char s of None \<Rightarrow> Inl ValueError
        | Some (c, r) \<Rightarrow> bind_result (scan_string r) (\<lambda>(cs, q). Inr (c # cs, q)))"
  by pat_completeness auto
termination by (relation "measure length") (auto dest: one_char_shorter)

declare scan_string.simps [simp del]

text \<open>\<open>float(s)\<close> of a numeral: an overflow is infinite. \<open>int(s)\<close> refuses more than 4300 digits.\<close>

definition json_float :: "bool \<Rightarrow> pystr \<Rightarrow> pystr \<Rightarrow> int \<Rightarrow> pyval" where
  "json_float neg ip fp e =
     (let x = fl (of_int (int_of_digits (ip @ fp)) * pow10 (e - int (length fp))) in
      if 2 ^ 1024 \<le> x then PNonFinite (lit (if neg then ''-inf'' else ''inf'')) else PFloat (if neg then - x else x))"

definition scan_sign :: "pystr \<Rightarrow> bool \<times> pystr" where
  "scan_sign s = (if starts 45 s then (True, tl s) else (False, s))"

definition scan_int :: "pystr \<Rightarrow> pystr \<times> pystr" where
  "scan_int s = (let ip = (if starts 48 s then [48] else takeWhile ascii_digit s) in (ip, drop (length ip) s))"

definition scan_frac :: "pystr \<Rightarrow> pystr \<times> pystr" where
  "scan_frac s = (let fp = (if starts 46 s then takeWhile ascii_digit (tl s) else [])
     in (fp, if fp = [] then s else drop (Suc (length fp)) s))"

definition scan_exp :: "pystr \<Rightarrow> int option \<times> pystr" where
  "scan_exp s =
     (if starts 101 s \<or> starts 69 s
      then let (neg, r) = (if starts 43 (tl s) then (False, tl (tl s)) else scan_sign (tl s)); ep = takeWhile ascii_digit r
           in if ep = [] then (None, s) else (Some ((if neg then -1 else 1) * int_of_digits ep), drop (length ep) r)
      else (None, s))"

definition scan_number :: "pyval scanner" where
  "scan_number s =
     (let (neg, r) = scan_sign s; (ip, r) = scan_int r; (fp, r) = scan_frac r; (e, r) = scan_exp r in
      if ip = [] then Inl ValueError
      else if fp = [] \<and> e = None
      then (if 4300 < length ip then Inl ValueError
            else Inr (PInt ((if neg then -1 else 1) * int_of_digits ip), r))
      else Inr (json_float neg ip fp (case e of None \<Rightarrow> 0 | Some e \<Rightarrow> e), r))"

text \<open>\<open>p\<close> scans a value; the counter bounds the number of elements by the length of the text.\<close>

fun scan_items :: "pyval scanner \<Rightarrow> nat \<Rightarrow> pyval list scanner" where
  "scan_items p 0 s = Inl ValueError"
| "scan_items p (Suc k) s =
     bind_result (p s) (\<lambda>(v, r).
       case skip_ws r of [] \<Rightarrow> Inl ValueError
       | c # q \<Rightarrow>
           if c = 93 then Inr ([v], q)
           else if c = 44 then bind_result (scan_items p k (skip_ws q)) (\<lambda>(vs, z). Inr (v # vs, z))
           else Inl ValueError)"

definition scan_member :: "pyval scanner \<Rightarrow> (pystr \<times> pyval) scanner" where
  "scan_member p s =
     (if \<not> starts 34 s then Inl ValueError
      else bind_result (scan_string (tl s)) (\<lambda>(key, r).
        case skip_ws r of [] \<Rightarrow> Inl ValueError
        | c # q \<Rightarrow> if c = 58 then bind_result (p (skip_ws q)) (\<lambda>(v, z). Inr ((key, v), z)) else Inl ValueError))"

fun scan_members :: "pyval scanner \<Rightarrow> nat \<Rightarrow> (pystr \<times> pyval) list scanner" where
  "scan_members p 0 s = Inl ValueError"
| "scan_members p (Suc k) s =
     bind_result (scan_member p s) (\<lambda>(kv, r).
       case skip_ws r of [] \<Rightarrow> Inl ValueError
       | c # q \<Rightarrow>
           if c = 125 then Inr ([kv], q)
           else if c = 44 then bind_result (scan_members p k (skip_ws q)) (\<lambda>(kvs, z). Inr (kv # kvs, z))
           else Inl ValueError)"

definition scan_array :: "pyval scanner \<Rightarrow> pyval scanner" where
  "scan_array p s =
     (let s = skip_ws s in
      if starts 93 s then Inr (PList [], tl s)
      else bind_result (scan_items p (length s) s) (\<lambda>(vs, r). Inr (PList vs, r)))"

definition scan_object :: "pyval scanner \<Rightarrow> pyval scanner" where
  "scan_object p s =
     (let s = skip_ws s in
      if starts 125 s then Inr (PDict [], tl s)
      else bind_result (scan_members p (length s) s) (\<lambda>(kvs, r). Inr (PDict (dict_update [] kvs), r)))"

definition json_words :: "(pystr \<times> pyval) list" where
  "json_words = [(lit ''null'', PNone), (lit ''true'', PBool True), (lit ''false'', PBool False), (lit ''NaN'', PNonFinite (lit ''nan'')),
     (lit ''Infinity'', PNonFinite (lit ''inf'')), (lit ''-Infinity'', PNonFinite (lit ''-inf''))]"

text \<open>A word, a string or a number.\<close>

definition scan_scalar :: "pyval scanner" where
  "scan_scalar s =
     (case List.find (\<lambda>(w, v). take (length w) s = w) json_words of
        Some (w, v) \<Rightarrow> Inr (v, drop (length w) s)
      | None \<Rightarrow>
          if starts 34 s then bind_result (scan_string (tl s)) (\<lambda>(x, r). Inr (PStr x, r))
          else scan_number s)"

fun scan_value :: "nat \<Rightarrow> pyval scanner" where
  "scan_value 0 s = (if starts 91 s \<or> starts 123 s then Inl RecursionError else scan_scalar s)"
| "scan_value (Suc depth) s =
     (if starts 91 s then scan_array (scan_value depth) (tl s)
      else if starts 123 s then scan_object (scan_value depth) (tl s)
      else scan_scalar s)"

definition json_parse :: "nat \<Rightarrow> pystr \<Rightarrow> pyval result" where
  "json_parse depth s =
     bind_result (scan_value depth (skip_ws s)) (\<lambda>(v, r). if skip_ws r = [] then Inr v else Inl ValueError)"

text \<open>\<open>json.detect_encoding\<close> and the decoders with \<open>surrogatepass\<close>.\<close>

definition utf8_take_pass :: "bytes \<Rightarrow> (pychar \<times> bytes) option" where
  "utf8_take_pass bs = (case utf8_take bs of Some r \<Rightarrow> Some r
     | None \<Rightarrow> (case bs of a # b # c # r \<Rightarrow>
           if a = 0xED \<and> 0xA0 \<le> b \<and> b < 0xC0 \<and> cont c then Some (0xD000 + (b - 0x80) * 64 + (c - 0x80), r) else None
         | _ \<Rightarrow> None))"

definition utf16_take :: "bool \<Rightarrow> bytes \<Rightarrow> (pychar \<times> bytes) option" where
  "utf16_take be bs = (case bs of a # b # r \<Rightarrow>
       let u = (if be then 256 * a + b else 256 * b + a) in
       if 0xD800 \<le> u \<and> u \<le> 0xDBFF
       then (case r of c # d # q \<Rightarrow>
               let l = (if be then 256 * c + d else 256 * d + c) in
               if 0xDC00 \<le> l \<and> l \<le> 0xDFFF then Some (0x10000 + (u - 0xD800) * 1024 + (l - 0xDC00), q) else Some (u, r)
             | _ \<Rightarrow> Some (u, r))
       else Some (u, r)
     | _ \<Rightarrow> None)"

definition utf32_take :: "bool \<Rightarrow> bytes \<Rightarrow> (pychar \<times> bytes) option" where
  "utf32_take be bs = (case bs of a # b # c # d # r \<Rightarrow>
       let u = (if be then ((a * 256 + b) * 256 + c) * 256 + d else ((d * 256 + c) * 256 + b) * 256 + a)
       in if u < 0x110000 then Some (u, r) else None
     | _ \<Rightarrow> None)"

fun decode_with :: "(bytes \<Rightarrow> (pychar \<times> bytes) option) \<Rightarrow> nat \<Rightarrow> bytes \<Rightarrow> pystr result" where
  "decode_with tk k [] = Inr []"
| "decode_with tk 0 (b # bs) = Inl ValueError"
| "decode_with tk (Suc k) (b # bs) =
     (case tk (b # bs) of None \<Rightarrow> Inl ValueError
      | Some (c, r) \<Rightarrow> bind_result (decode_with tk k r) (\<lambda>s. Inr (c # s)))"

text \<open>The decoder to use and the length of the byte order mark it skips.\<close>

definition detect_encoding :: "bytes \<Rightarrow> (bytes \<Rightarrow> (pychar \<times> bytes) option) \<times> nat" where
  "detect_encoding b =
     (if take 4 b = [0, 0, 0xFE, 0xFF] then (utf32_take True, 4)
      else if take 4 b = [0xFF, 0xFE, 0, 0] then (utf32_take False, 4)
      else if take 2 b = [0xFE, 0xFF] then (utf16_take True, 2)
      else if take 2 b = [0xFF, 0xFE] then (utf16_take False, 2)
      else if take 3 b = [0xEF, 0xBB, 0xBF] then (utf8_take_pass, 3)
      else if 4 \<le> length b \<and> b ! 0 = 0 then (if b ! 1 \<noteq> 0 then utf16_take True else utf32_take True, 0)
      else if 4 \<le> length b \<and> b ! 1 = 0 then (if b ! 2 \<noteq> 0 \<or> b ! 3 \<noteq> 0 then utf16_take False else utf32_take False, 0)
      else if length b = 2 \<and> b ! 0 = 0 then (utf16_take True, 0)
      else if length b = 2 \<and> b ! 1 = 0 then (utf16_take False, 0)
      else (utf8_take_pass, 0))"

definition json_loads :: "nat \<Rightarrow> bytes \<Rightarrow> pyval result" where
  "json_loads depth b =
     (let (tk, bom) = detect_encoding b; b = drop bom b
      in bind_result (decode_with tk (length b) b) (json_parse depth))"

section \<open>A dumped value is read back\<close>

text \<open>What may follow a value inside a document; every scanner of numerals stops there.\<close>

definition rest_ok :: "pystr \<Rightarrow> bool" where
  "rest_ok r \<longleftrightarrow> r = [] \<or> hd r \<in> {44, 93, 125}"

lemma starts_rest: "rest_ok r \<Longrightarrow> c \<notin> {44, 93, 125} \<Longrightarrow> starts c (s @ r) \<longleftrightarrow> starts c s"
  by (cases s; cases r) (auto simp: rest_ok_def)

lemma rest_no_digit: "rest_ok r \<Longrightarrow> takeWhile ascii_digit (s @ r) = takeWhile ascii_digit s"
  by (induction s; cases r) (auto simp: rest_ok_def ascii_digit_def)

lemma startsE: "starts c s \<Longrightarrow> \<exists>q. s = c # q"
  by (cases s) simp_all

lemma drop_digits_append: "drop (length (takeWhile P s)) (s @ r) = drop (length (takeWhile P s)) s @ r"
  by (simp add: length_takeWhile_le)

lemmas scan_append = rest_no_digit drop_digits_append starts_rest

lemma scan_sign_append: "rest_ok r \<Longrightarrow> scan_sign (s @ r) = (fst (scan_sign s), snd (scan_sign s) @ r)"
  by (auto simp: scan_sign_def scan_append dest!: startsE)

lemma scan_int_append: "rest_ok r \<Longrightarrow> scan_int (s @ r) = (fst (scan_int s), snd (scan_int s) @ r)"
  by (auto simp: scan_int_def Let_def scan_append simp del: drop_append dest: startsE)

lemma scan_frac_append: "rest_ok r \<Longrightarrow> scan_frac (s @ r) = (fst (scan_frac s), snd (scan_frac s) @ r)"
  by (auto simp: scan_frac_def Let_def scan_append simp del: drop_append dest!: startsE)

lemma scan_exp_append:
  assumes "rest_ok r"
  shows "scan_exp (s @ r) = (fst (scan_exp s), snd (scan_exp s) @ r)"
proof (cases "starts 101 s \<or> starts 69 s")
  case True
  then obtain c z where z: "s = c # z" "c = 101 \<or> c = 69" using startsE by blast
  obtain neg y where y: "scan_sign z = (neg, y)" by fastforce
  then have "scan_sign (z @ r) = (neg, y @ r)" using scan_sign_append [OF assms, of z] by simp
  with y z assms show ?thesis
    by (auto simp: scan_exp_def Let_def scan_append simp del: drop_append dest!: startsE)
next
  case False
  with assms show ?thesis by (simp add: scan_exp_def scan_append)
qed

lemma scan_number_append:
  assumes "rest_ok r" "scan_number s = Inr (v, q)"
  shows "scan_number (s @ r) = Inr (v, q @ r)"
  using assms(2)
  by (auto simp: scan_number_def scan_sign_append [OF assms(1)] scan_int_append [OF assms(1)] scan_frac_append [OF assms(1)]
      scan_exp_append [OF assms(1)] Let_def case_prod_beta split: if_splits)

lemma int_digits_ascii: "0 \<le> n \<Longrightarrow> \<forall>c \<in> set (int_digits n). ascii_digit c"
proof (induction n rule: int_digits.induct)
  case (1 n)
  then show ?case by (subst int_digits.simps) (auto simp: ascii_digit_def)
qed

lemma int_digits_nonempty [simp]: "int_digits n \<noteq> []"
  by (subst int_digits.simps) simp

lemma int_of_digits_snoc: "int_of_digits (s @ [c]) = 10 * int_of_digits s + (c - 48)"
  by (simp add: int_of_digits_def)

lemma int_of_digits_int_digits: "0 \<le> n \<Longrightarrow> int_of_digits (int_digits n) = n"
proof (induction n rule: int_digits.induct)
  case (1 n)
  then show ?case
    by (subst int_digits.simps) (auto simp: int_of_digits_snoc, simp add: int_of_digits_def)
qed

lemma hd_int_digits: "0 \<le> n \<Longrightarrow> hd (int_digits n) = 48 \<longleftrightarrow> n = 0"
proof (induction n rule: int_digits.induct)
  case (1 n)
  show ?case
  proof (cases "n < 10")
    case True
    then show ?thesis by (subst int_digits.simps) simp
  next
    case False
    with 1 show ?thesis by (subst int_digits.simps) simp
  qed
qed

lemma scan_number_int:
  assumes "length (int_digits \<bar>n\<bar>) \<le> 4300"
  shows "scan_number (py_str_int n) = Inr (PInt n, [])"
proof -
  let ?d = "int_digits \<bar>n\<bar>"
  have ad: "\<forall>c \<in> set ?d. ascii_digit c" by (rule int_digits_ascii) simp
  have z: "starts 48 ?d \<longleftrightarrow> n = 0" using hd_int_digits [of "\<bar>n\<bar>"] by (cases ?d) auto
  have tw: "takeWhile ascii_digit ?d = ?d" using ad by simp
  have si: "scan_int ?d = (?d, [])" using z by (simp add: scan_int_def Let_def int_digits.simps [of 0] tw)
  have v: "int_of_digits ?d = \<bar>n\<bar>" by (rule int_of_digits_int_digits) simp
  have "\<not> starts 45 ?d" using ad by (cases ?d) (auto simp: ascii_digit_def)
  then have "scan_sign (py_str_int n) = (n < 0, ?d)" by (auto simp: scan_sign_def py_str_int_def)
  with si v assms show ?thesis by (simp add: scan_number_def scan_frac_def scan_exp_def)
qed

text \<open>Strings.\<close>

lemma escape_control:
  assumes "0 \<le> c" "c < 32"
  shows "hex4 (hex_fixed 4 c @ r) = Some (c, r)"
proof -
  have "\<forall>c \<in> set (map int [0..<32]). map nibble (hex_fixed 4 c) = [Some 0, Some 0, Some (c div 16), Some (c mod 16)]"
    by code_simp
  moreover have "c \<in> set (map int [0..<32])" using assms by (auto intro!: image_eqI [of _ int "nat c"])
  ultimately have n: "map nibble (hex_fixed 4 c) = [Some 0, Some 0, Some (c div 16), Some (c mod 16)]" by blast
  then obtain h1 h2 h3 h4 where "hex_fixed 4 c = [h1, h2, h3, h4]" by (auto simp: map_eq_Cons_conv)
  with n show ?thesis by (simp add: hex4_def)
qed

lemma one_char_escape:
  assumes "0 \<le> c"
  shows "one_char (json_escape c @ r) = Some (c, r) \<and> \<not> starts 34 (json_escape c @ r)"
proof (cases "c < 32 \<and> c \<notin> {10, 13, 9, 12, 8}")
  case True
  then have "json_escape c = [92, 117] @ hex_fixed 4 c" using assms by (auto simp: json_escape_def)
  with True assms escape_control [of c r] show ?thesis by (simp add: one_char_def unicode_escape_def)
next
  case False
  then show ?thesis by (auto simp: json_escape_def one_char_def simple_escape_def)
qed

lemma scan_string_dumped: "\<forall>c \<in> set s. 0 \<le> c \<Longrightarrow> scan_string (concat (map json_escape s) @ 34 # r) = Inr (s, r)"
proof (induction s)
  case (Cons c s)
  then show ?case
    using one_char_escape [of c "concat (map json_escape s) @ 34 # r"] by (subst scan_string.simps) simp
qed (simp add: scan_string.simps)

text \<open>A numeral is told by its first characters.\<close>

definition number_text :: "pystr \<Rightarrow> bool" where
  "number_text s \<longleftrightarrow> (case s of [] \<Rightarrow> False | c # s \<Rightarrow> ascii_digit c \<or> c = 45 \<and> (case s of [] \<Rightarrow> False | d # _ \<Rightarrow> ascii_digit d))"

text \<open>
  The values the decoder can yield within \<open>depth\<close> nested containers: keys are distinct, numerals
  are short enough, and a float is one whose numeral is read back, which \<open>float_ok\<close> decides.
\<close>

definition float_ok :: "pyfloat \<Rightarrow> bool" where
  "float_ok x \<longleftrightarrow> scan_number (float_repr x) = Inr (PFloat x, []) \<and> number_text (float_repr x) \<and>
     (\<forall>c \<in> set (float_repr x). 0 < c \<and> c < 128)"

definition text_ok :: "pystr \<Rightarrow> bool" where
  "text_ok s \<longleftrightarrow> (\<forall>c \<in> set s. valid_char c)"

fun json_ok :: "nat \<Rightarrow> pyval \<Rightarrow> bool" and items_ok :: "nat \<Rightarrow> pyval list \<Rightarrow> bool" and members_ok :: "nat \<Rightarrow> (pystr \<times> pyval) list \<Rightarrow> bool" where
  "json_ok depth (PInt n) = (length (int_digits \<bar>n\<bar>) \<le> 4300)"
| "json_ok depth (PFloat x) = float_ok x"
| "json_ok depth (PNonFinite s) = (s \<in> {lit ''nan'', lit ''inf'', lit ''-inf''})"
| "json_ok depth (PStr s) = text_ok s"
| "json_ok 0 (PList vs) = False"
| "json_ok (Suc depth) (PList vs) = items_ok depth vs"
| "json_ok 0 (PDict d) = False"
| "json_ok (Suc depth) (PDict d) = (distinct (map fst d) \<and> members_ok depth d)"
| "json_ok depth v = True"
| "items_ok depth [] = True"
| "items_ok depth (v # vs) = (json_ok depth v \<and> items_ok depth vs)"
| "members_ok depth [] = True"
| "members_ok depth ((k, v) # d) = (text_ok k \<and> json_ok depth v \<and> members_ok depth d)"

lemma text_ok_nonneg: "text_ok s \<Longrightarrow> \<forall>c \<in> set s. 0 \<le> c"
  by (auto simp: text_ok_def valid_char_def)

lemma number_text_int: "number_text (py_str_int n)"
proof -
  obtain c s where c: "int_digits \<bar>n\<bar> = c # s" by (cases "int_digits \<bar>n\<bar>") auto
  then have "ascii_digit c" using int_digits_ascii [of "\<bar>n\<bar>"] by simp
  with c show ?thesis by (cases "n < 0") (auto simp: number_text_def py_str_int_def)
qed

lemma no_word:
  assumes "number_text s \<or> starts 34 s"
  shows "List.find (\<lambda>(w, v). take (length w) (s @ r) = w) json_words = None"
proof -
  have words: "\<forall>(w, v) \<in> set json_words. case w of a # b # _ \<Rightarrow> \<not> ascii_digit a \<and> a \<noteq> 34 \<and> \<not> ascii_digit b | _ \<Rightarrow> False"
    by code_simp
  have "take (length w) (s @ r) \<noteq> w" if "(w, v) \<in> set json_words" for w v
  proof
    assume t: "take (length w) (s @ r) = w"
    from words that obtain a b w' where w: "w = a # b # w'" "\<not> ascii_digit a" "a \<noteq> 34" "\<not> ascii_digit b"
      by (fastforce split: list.splits)
    obtain c q where s: "s = c # q" using assms by (cases s) (auto simp: number_text_def)
    from t s w(1) have "c = a" "take (Suc (length w')) (q @ r) = b # w'" by auto
    with w(2-4) assms s show False by (auto simp: number_text_def split: list.splits)
  qed
  then show ?thesis by (auto simp: find_None_iff)
qed

lemma scan_scalar_number:
  assumes "number_text s" "scan_number s = Inr (v, [])" "rest_ok r"
  shows "scan_scalar (s @ r) = Inr (v, r)"
proof -
  have "\<not> starts 34 (s @ r)" using assms(1) by (auto simp: number_text_def ascii_digit_def split: list.splits)
  with assms show ?thesis using no_word [of s r] by (simp add: scan_scalar_def scan_number_append)
qed

lemma scan_scalar_string: "text_ok s \<Longrightarrow> scan_scalar (json_string s @ r) = Inr (PStr s, r)"
  using no_word [of "json_string s" r]
  by (simp add: scan_scalar_def json_string_def scan_string_dumped text_ok_nonneg)

lemma json_nonfinite_scalar: "s \<in> {lit ''nan'', lit ''inf'', lit ''-inf''} \<Longrightarrow> scan_scalar (json_nonfinite s @ r) = Inr (PNonFinite s, r)"
  by (auto simp: json_nonfinite_def scan_scalar_def json_words_def lit_def)

text \<open>Containers, by induction over the value.\<close>

definition value_head :: "pystr \<Rightarrow> bool" where
  "value_head s \<longleftrightarrow> (case s of [] \<Rightarrow> False | c # _ \<Rightarrow> c < 128 \<and> c \<notin> {32, 9, 10, 13, 44, 93, 125})"

lemma number_value_head: "number_text s \<Longrightarrow> value_head (s @ r) \<and> \<not> starts 91 (s @ r) \<and> \<not> starts 123 (s @ r)"
  by (auto simp: number_text_def value_head_def ascii_digit_def split: list.splits)

lemma dumps_head: "json_ok d v \<Longrightarrow> value_head (json_dumps v @ r)"
  by (cases v) (auto simp: value_head_def json_string_def json_nonfinite_def lit_def float_ok_def
      dest: number_value_head [of _ r] intro: number_value_head [THEN conjunct1, unfolded value_head_def] number_text_int)

lemma value_head_simps:
  "value_head s \<Longrightarrow> skip_ws s = s" "value_head s \<Longrightarrow> \<not> starts 93 s" "value_head s \<Longrightarrow> \<not> starts 125 s"
  by (auto simp: value_head_def skip_ws_def split: list.splits)

lemma skip_ws_simps [simp]:
  "skip_ws (32 # s) = skip_ws s" "skip_ws (34 # s) = 34 # s" "skip_ws (58 # s) = 58 # s"
  "skip_ws (93 # s) = 93 # s" "skip_ws (125 # s) = 125 # s" "skip_ws (44 # s) = 44 # s"
  by (simp_all add: skip_ws_def)

lemma skip_ws_rest [simp]: "rest_ok r \<Longrightarrow> skip_ws r = r"
  by (cases r) (auto simp: rest_ok_def skip_ws_def)

lemma scan_value_scalar: "\<not> starts 91 s \<Longrightarrow> \<not> starts 123 s \<Longrightarrow> scan_value d s = scan_scalar s"
  by (cases d) simp_all

lemma dict_update_distinct: "distinct (map fst (d @ e)) \<Longrightarrow> dict_update d e = d @ e"
proof -
  have snoc: "k \<notin> fst ` set d \<Longrightarrow> dict_set k v d = d @ [(k, v)]" for k and v :: 'b and d :: "('a \<times> 'b) list"
    by (induction k v d rule: dict_set.induct) auto
  show "distinct (map fst (d @ e)) \<Longrightarrow> dict_update d e = d @ e"
    unfolding dict_update_def by (induction e arbitrary: d) (auto simp: snoc)
qed

lemma comma_space [simp]: "lit '', '' = [44, 32]" "lit '': '' = [58, 32]"
  by (simp_all add: lit_def)

lemma dump_lengths: "items_ok d vs \<Longrightarrow> length vs \<le> length (dump_items vs)" "members_ok d m \<Longrightarrow> length m \<le> length (dump_pairs m)"
proof -
  have v: "json_ok d v \<Longrightarrow> 1 \<le> length (json_dumps v)" for v
    using dumps_head [of d v "[]"] by (cases "json_dumps v") (auto simp: value_head_def)
  show "items_ok d vs \<Longrightarrow> length vs \<le> length (dump_items vs)"
    by (induction vs) (use v in fastforce)+
  show "members_ok d m \<Longrightarrow> length m \<le> length (dump_pairs m)"
    by (induction m) (use v in fastforce)+
qed

lemma dumped_read:
  "json_ok d v \<Longrightarrow> rest_ok r \<Longrightarrow> scan_value d (json_dumps v @ r) = Inr (v, r)"
  "items_ok d vs \<Longrightarrow> vs \<noteq> [] \<Longrightarrow> length vs \<le> k \<Longrightarrow> scan_items (scan_value d) k (dump_items vs @ 93 # r) = Inr (vs, r)"
  "members_ok d m \<Longrightarrow> m \<noteq> [] \<Longrightarrow> length m \<le> k \<Longrightarrow> scan_members (scan_value d) k (dump_pairs m @ 125 # r) = Inr (m, r)"
proof (induction v and vs and m arbitrary: d r and d r k and d r k rule: json_dumps_dump_items_dump_pairs.induct)
  case (2 b)
  then show ?case by (cases d) (auto simp: scan_scalar_def json_words_def lit_def)
next
  case 1
  then show ?case by (cases d) (auto simp: scan_scalar_def json_words_def lit_def)
next
  case (3 n)
  then show ?case
    using number_value_head [OF number_text_int, of n r] scan_scalar_number [OF number_text_int scan_number_int]
    by (simp add: scan_value_scalar)
next
  case (4 x)
  then show ?case
    using number_value_head [of "float_repr x" r] scan_scalar_number [of "float_repr x"]
    by (simp add: scan_value_scalar float_ok_def)
next
  case (5 s)
  then have "\<not> starts 91 (json_nonfinite s @ r)" "\<not> starts 123 (json_nonfinite s @ r)"
    by (auto simp: json_nonfinite_def lit_def)
  with 5 show ?case using json_nonfinite_scalar [of s r] by (simp add: scan_value_scalar)
next
  case (6 s)
  have "\<not> starts 91 (json_string s @ r)" "\<not> starts 123 (json_string s @ r)" by (simp_all add: json_string_def)
  with 6 show ?case using scan_scalar_string [of s r] by (simp add: scan_value_scalar)
next
  case (7 vs)
  then obtain d' where d: "d = Suc d'" "items_ok d' vs" by (cases d) auto
  show ?case
  proof (cases vs)
    case Nil
    then show ?thesis by (simp add: d scan_array_def)
  next
    case (Cons v ws)
    with d(2) have h: "value_head (dump_items vs @ 93 # r)" using dumps_head [of d' v] by simp
    have "scan_items (scan_value d') (length (dump_items vs @ 93 # r)) (dump_items vs @ 93 # r) = Inr (vs, r)"
      by (rule "7.IH") (use d(2) Cons dump_lengths(1) [OF d(2)] in auto)
    then show ?thesis using value_head_simps [OF h] by (simp add: d scan_array_def Let_def)
  qed
next
  case (8 m)
  then obtain d' where d: "d = Suc d'" "members_ok d' m" "distinct (map fst m)" by (cases d) auto
  show ?case
  proof (cases m)
    case Nil
    then show ?thesis by (simp add: d scan_object_def)
  next
    case (Cons kv ws)
    then have h: "skip_ws (dump_pairs m @ 125 # r) = dump_pairs m @ 125 # r" "\<not> starts 125 (dump_pairs m @ 125 # r)"
      by (cases kv; simp add: json_string_def)+
    have "scan_members (scan_value d') (length (dump_pairs m @ 125 # r)) (dump_pairs m @ 125 # r) = Inr (m, r)"
      by (rule "8.IH") (use d(2) Cons dump_lengths(2) [OF d(2)] in auto)
    then show ?thesis using h dict_update_distinct [of "[]" m] d(3) by (simp add: d scan_object_def Let_def)
  qed
next
  case (10 v vs)
  then obtain k' where k: "k = Suc k'" by (cases k) auto
  show ?case
  proof (cases vs)
    case Nil
    with 10 show ?thesis by (simp add: k rest_ok_def)
  next
    case (Cons w ws)
    with "10.prems"(1) have "value_head (dump_items vs @ 93 # r)" using dumps_head [of d w] by simp
    then have s: "skip_ws (dump_items vs @ 93 # r) = dump_items vs @ 93 # r" by (rule value_head_simps)
    have "scan_value d (json_dumps v @ 44 # 32 # dump_items vs @ 93 # r) = Inr (v, 44 # 32 # dump_items vs @ 93 # r)"
      using "10.IH"(1) "10.prems"(1) by (simp add: rest_ok_def)
    moreover have "scan_items (scan_value d) k' (dump_items vs @ 93 # r) = Inr (vs, r)"
      by (rule "10.IH"(2)) (use "10.prems" k Cons in auto)
    ultimately show ?thesis using Cons s by (simp add: k)
  qed
next
  case (12 key v m)
  then obtain k' where k: "k = Suc k'" by (cases k) auto
  have head: "skip_ws (json_dumps v @ z) = json_dumps v @ z" for z
    using "12.prems"(1) by (intro value_head_simps dumps_head [of d]) simp
  have key: "scan_string (concat (map json_escape key) @ 34 # z) = Inr (key, z)" for z
    using "12.prems"(1) by (intro scan_string_dumped text_ok_nonneg) simp
  have member: "scan_member (scan_value d) (json_string key @ [58, 32] @ json_dumps v @ z) = Inr ((key, v), z)" if "rest_ok z" for z
    using "12.IH"(1) [of d z] "12.prems"(1) that by (simp add: scan_member_def json_string_def key head)
  show ?case
  proof (cases m)
    case Nil
    with member [of "125 # r"] show ?thesis by (simp add: k rest_ok_def)
  next
    case (Cons kv ws)
    then have s: "skip_ws (dump_pairs m @ 125 # r) = dump_pairs m @ 125 # r" by (cases kv) (simp add: json_string_def)
    have "scan_members (scan_value d) k' (dump_pairs m @ 125 # r) = Inr (m, r)"
      by (rule "12.IH"(2)) (use "12.prems" k Cons in auto)
    with member [of "44 # 32 # dump_pairs m @ 125 # r"] Cons s show ?thesis by (simp add: k rest_ok_def)
  qed
qed simp_all

lemma json_parse_dumps: "json_ok d v \<Longrightarrow> json_parse d (json_dumps v) = Inr v"
  using dumped_read(1) [of d v "[]"] value_head_simps(1) [OF dumps_head [of d v "[]"]]
  by (simp add: json_parse_def rest_ok_def)

section \<open>Bytes\<close>

definition plain :: "pychar \<Rightarrow> bool" where
  "plain c \<longleftrightarrow> 0 < c \<and> valid_char c"

lemma ascii_plain: "0 < c \<Longrightarrow> c < 128 \<Longrightarrow> plain c"
  by (simp add: plain_def valid_char_def surrogate_def)

lemma lit_plain: "\<forall>c \<in> set s. 0 < (of_char c :: int) \<and> (of_char c :: int) < 128 \<Longrightarrow> \<forall>c \<in> set (lit s). plain c"
  by (auto simp: lit_def intro: ascii_plain)

lemma hex_fixed_plain: "0 \<le> c \<Longrightarrow> \<forall>x \<in> set (hex_fixed n c). plain x"
proof (induction n arbitrary: c)
  case (Suc n)
  have "0 \<le> c mod 16" "c mod 16 < 16" by simp_all
  then have "plain (hex_digit (c mod 16))" by (intro ascii_plain) (auto simp: hex_digit_def)
  with Suc.IH [of "c div 16"] Suc.prems show ?case by (simp add: pos_imp_zdiv_nonneg_iff)
qed simp

lemma json_escape_plain: "valid_char c \<Longrightarrow> \<forall>x \<in> set (json_escape c). plain x"
  using hex_fixed_plain [of c 4]
  by (auto simp: json_escape_def valid_char_def intro: ascii_plain) (auto simp: plain_def valid_char_def)

lemma json_string_plain: "text_ok s \<Longrightarrow> \<forall>x \<in> set (json_string s). plain x"
  using json_escape_plain by (auto simp: json_string_def text_ok_def intro: ascii_plain)

lemma py_str_int_plain: "\<forall>c \<in> set (py_str_int n). plain c"
proof -
  have "\<forall>c \<in> set (int_digits \<bar>n\<bar>). plain c"
    using int_digits_ascii [of "\<bar>n\<bar>"] by (auto simp: ascii_digit_def intro!: ascii_plain)
  then show ?thesis by (auto simp: py_str_int_def intro: ascii_plain)
qed

lemma dumps_plain:
  "json_ok d v \<Longrightarrow> \<forall>c \<in> set (json_dumps v). plain c"
  "items_ok d vs \<Longrightarrow> \<forall>c \<in> set (dump_items vs). plain c"
  "members_ok d m \<Longrightarrow> \<forall>c \<in> set (dump_pairs m). plain c"
proof (induction v and vs and m arbitrary: d and d and d rule: json_dumps_dump_items_dump_pairs.induct)
  case (3 n)
  show ?case using py_str_int_plain by simp
next
  case (4 x)
  then show ?case by (auto simp: float_ok_def intro: ascii_plain)
next
  case (5 s)
  have "\<forall>c \<in> set (json_nonfinite s). plain c"
    unfolding json_nonfinite_def by (cases "s = lit ''inf''"; cases "s = lit ''-inf''"; simp; intro lit_plain; simp)
  then show ?case by simp
next
  case (6 s)
  then show ?case using json_string_plain by simp
next
  case (7 vs)
  then obtain d' where "items_ok d' vs" by (cases d) auto
  with 7 show ?case by (auto intro: ascii_plain)
next
  case (8 m)
  then obtain d' where "members_ok d' m" by (cases d) auto
  with 8 show ?case by (auto intro: ascii_plain)
next
  case (10 v vs)
  from "10.prems" have "json_ok d v" "items_ok d vs" by simp_all
  then show ?case using "10.IH"(1) [of d] "10.IH"(2) [of d] by (auto intro: ascii_plain)
next
  case (12 k v m)
  from "12.prems" have ok: "json_ok d v" "members_ok d m" "text_ok k" by simp_all
  then show ?case using "12.IH"(1) [of d] "12.IH"(2) [of d] json_string_plain [OF ok(3)] by (auto intro: ascii_plain)
next
  case (2 b)
  have "\<forall>c \<in> set (lit ''true''). plain c" "\<forall>c \<in> set (lit ''false''). plain c" by (intro lit_plain; simp)+
  then show ?case by simp
next
  case 1
  have "\<forall>c \<in> set (lit ''null''). plain c" by (intro lit_plain) simp
  then show ?case by simp
qed simp_all

lemma utf8_char_bytes: "plain c \<Longrightarrow> utf8_char c \<noteq> [] \<and> 0 < hd (utf8_char c) \<and> (\<forall>b \<in> set (utf8_char c). 0 < b) \<and> (c < 128 \<longrightarrow> utf8_char c = [c])"
  by (auto simp: plain_def utf8_char_def valid_char_def div_pos_pos_trivial intro!: add_pos_nonneg pos_imp_zdiv_nonneg_iff [THEN iffD2])

lemma decode_utf8:
  "\<forall>c \<in> set s. plain c \<Longrightarrow> length (concat (map utf8_char s)) \<le> k \<Longrightarrow> decode_with utf8_take_pass k (concat (map utf8_char s)) = Inr s"
proof (induction s arbitrary: k)
  case (Cons c s)
  from Cons.prems have c: "valid_char c" "utf8_char c \<noteq> []" using utf8_char_bytes [of c] by (auto simp: plain_def)
  then obtain b q where b: "utf8_char c = b # q" by (cases "utf8_char c") auto
  with Cons.prems obtain k' where k: "k = Suc k'" by (cases k) auto
  have "utf8_take_pass (utf8_char c @ concat (map utf8_char s)) = Some (c, concat (map utf8_char s))"
    using utf8_take_char [OF c(1)] by (simp add: utf8_take_pass_def)
  with Cons b k show ?case by simp
qed simp

lemma detect_utf8:
  assumes "\<forall>x \<in> set (a # b). 0 < (x :: int)" "a < 128"
  shows "detect_encoding (a # b) = (utf8_take_pass, 0)"
proof -
  have "(a # b) ! 0 \<noteq> 0" using assms by auto
  moreover have "(a # b) ! 1 \<noteq> 0" if "2 \<le> length (a # b)" using that assms(1) by (cases b) auto
  ultimately show ?thesis using assms by (auto simp: detect_encoding_def)
qed

text \<open>A value written by \<open>json.dumps(v, ensure_ascii=False).encode("utf-8")\<close> is read back by \<open>json.loads\<close>.\<close>

definition json_bytes :: "pyval \<Rightarrow> bytes result" where
  "json_bytes v = utf8_encode (json_dumps v)"

lemma json_loads_bytes:
  assumes "json_ok d v"
  shows "\<exists>b. json_bytes v = Inr b \<and> b \<noteq> [] \<and> json_loads d b = Inr v"
proof -
  let ?s = "json_dumps v"
  note plain = dumps_plain(1) [OF assms]
  then have "\<forall>c \<in> set ?s. valid_char c" by (simp add: plain_def)
  then have enc: "json_bytes v = Inr (concat (map utf8_char ?s))" using utf8_roundtrip by (simp add: json_bytes_def)
  obtain c s where s: "?s = c # s" "c < 128" using dumps_head [OF assms, of "[]"] by (cases ?s) (auto simp: value_head_def)
  with plain have u: "concat (map utf8_char ?s) = c # concat (map utf8_char s)" using utf8_char_bytes [of c] by simp
  have "\<forall>x \<in> set (concat (map utf8_char ?s)). 0 < x" using plain utf8_char_bytes by auto
  with u s(2) have "detect_encoding (concat (map utf8_char ?s)) = (utf8_take_pass, 0)"
    using detect_utf8 [of c "concat (map utf8_char s)"] by simp
  then have "json_loads d (concat (map utf8_char ?s)) = json_parse d ?s"
    using decode_utf8 [OF plain order.refl] by (simp add: json_loads_def)
  with json_parse_dumps [OF assms] enc u show ?thesis by simp
qed

end
