(* ===== verification/Adapters.thy ===== *)
theory Adapters
  imports Json
begin

text \<open>
  \<open>app/adapters/\<close>: the bodies of requests and responses as conversation turns, and back.
  An \<open>adapter\<close> is the record of the five methods of the protocol \<open>Adapter\<close>; \<open>gateway\<close> and
  \<open>gemini\<close> are its two instances. A method that raises returns the exception. Values that
  the code mutates in place are rebuilt, as the decoder shares nothing between them.
\<close>

section \<open>Values of a decoded body\<close>

type_synonym headers = "(pystr \<times> pystr) list"

record adapter =
  adapter_name :: pystr
  matches :: "pystr \<Rightarrow> headers \<Rightarrow> bytes \<Rightarrow> bool result"
  extract_turns :: "bytes \<Rightarrow> turn list result"
  rebuild :: "bytes \<Rightarrow> turn list \<Rightarrow> bytes result"
  parse_response :: "bytes \<Rightarrow> pystr result"
  rebuild_response :: "bytes \<Rightarrow> pystr \<Rightarrow> bytes result"

abbreviation "m_text \<equiv> lit ''text''"
abbreviation "m_parts \<equiv> lit ''parts''"
abbreviation "m_messages \<equiv> lit ''messages''"
abbreviation "m_contents \<equiv> lit ''contents''"
abbreviation "m_content \<equiv> lit ''content''"

text \<open>\<open>json.loads(body or b"{}")\<close>, \<open>data.get\<close> of a value that may be no dict, \<open>for x in v\<close>.\<close>

definition load_body :: "nat \<Rightarrow> bytes \<Rightarrow> pyval result" where
  "load_body depth b = json_loads depth (if b = [] then lit ''{}'' else b)"

definition as_dict :: "pyval \<Rightarrow> (pystr \<times> pyval) list result" where
  "as_dict v = (case v of PDict d \<Rightarrow> Inr d | _ \<Rightarrow> Inl AttributeError)"

definition get_or :: "(pystr \<times> pyval) list \<Rightarrow> pystr \<Rightarrow> pyval \<Rightarrow> pyval" where
  "get_or d k v = (case dict_get d k of None \<Rightarrow> v | Some x \<Rightarrow> x)"

definition py_iter :: "pyval \<Rightarrow> pyval list result" where
  "py_iter v = (case v of PList xs \<Rightarrow> Inr xs | PStr s \<Rightarrow> Inr (map (\<lambda>c. PStr [c]) s) | PDict d \<Rightarrow> Inr (map (PStr \<circ> fst) d) | _ \<Rightarrow> Inl TypeError)"

text \<open>\<open>d.setdefault(outer, {})[k] = v\<close>: the assignment raises unless the value is a dict.\<close>

definition set_in :: "(pystr \<times> pyval) list \<Rightarrow> pystr \<Rightarrow> pystr \<Rightarrow> pyval \<Rightarrow> (pystr \<times> pyval) list result" where
  "set_in d outer k v =
     (case get_or d outer (PDict []) of PDict e \<Rightarrow> Inr (dict_set outer (PDict (dict_set k v e)) d) | _ \<Rightarrow> Inl TypeError)"

text \<open>The assignments to the items of a list, as far as both lists go; items that are no dict are left alone.\<close>

fun update_items :: "((pystr \<times> pyval) list \<Rightarrow> turn \<Rightarrow> (pystr \<times> pyval) list) \<Rightarrow> pyval list \<Rightarrow> turn list \<Rightarrow> pyval list" where
  "update_items f (m # ms) (t # ts) = (case m of PDict d \<Rightarrow> PDict (f d t) | _ \<Rightarrow> m) # update_items f ms ts"
| "update_items f ms ts = ms"

definition update_seq :: "((pystr \<times> pyval) list \<Rightarrow> turn \<Rightarrow> (pystr \<times> pyval) list) \<Rightarrow> pyval \<Rightarrow> turn list \<Rightarrow> pyval result" where
  "update_seq f v ts = bind_result (py_iter v) (\<lambda>_. Inr (case v of PList ms \<Rightarrow> PList (update_items f ms ts) | _ \<Rightarrow> v))"

section \<open>The gateway\<close>

definition gateway_matches :: "nat \<Rightarrow> pystr \<Rightarrow> headers \<Rightarrow> bytes \<Rightarrow> bool result" where
  "gateway_matches depth path hs b =
     (case load_body depth b of
        Inl e \<Rightarrow> if e = ValueError then Inr False else Inl e
      | Inr v \<Rightarrow> Inr (case v of PDict d \<Rightarrow> (case dict_get d m_messages of Some (PList ms) \<Rightarrow> True | _ \<Rightarrow> False) | _ \<Rightarrow> False))"

definition message_turn :: "pyval \<Rightarrow> turn option" where
  "message_turn m =
     (case m of
        PDict d \<Rightarrow> Some \<lparr>trole = py_str (get_or d (lit ''role'') (PStr (lit ''user''))), ttext = py_str (get_or d m_content (PStr []))\<rparr>
      | _ \<Rightarrow> None)"

definition gateway_extract_turns :: "nat \<Rightarrow> bytes \<Rightarrow> turn list result" where
  "gateway_extract_turns depth b =
     bind_result (load_body depth b) (\<lambda>v. bind_result (as_dict v) (\<lambda>data.
     bind_result (py_iter (get_or data m_messages (PList []))) (\<lambda>ms. Inr (List.map_filter message_turn ms))))"

definition gateway_rebuild :: "nat \<Rightarrow> bytes \<Rightarrow> turn list \<Rightarrow> bytes result" where
  "gateway_rebuild depth b ts =
     bind_result (load_body depth b) (\<lambda>v. bind_result (as_dict v) (\<lambda>data.
     bind_result (update_seq (\<lambda>d t. dict_set m_content (PStr (ttext t)) d) (get_or data m_messages (PList [])) ts) (\<lambda>ms.
     json_bytes (PDict (dict_set m_messages ms data)))))"

text \<open>The part of a response that holds the answer: the last message, the first choice, or \<open>message\<close>.\<close>

definition last_message :: "(pystr \<times> pyval) list \<Rightarrow> (pyval list \<times> (pystr \<times> pyval) list) option" where
  "last_message data =
     (case get_or data m_messages PNone of
        PList ms \<Rightarrow> if ms = [] then None else (case last ms of PDict d \<Rightarrow> Some (butlast ms, d) | _ \<Rightarrow> None)
      | _ \<Rightarrow> None)"

definition first_of :: "(pystr \<times> pyval) list \<Rightarrow> pystr \<Rightarrow> ((pystr \<times> pyval) list \<times> pyval list) option" where
  "first_of data k = (case get_or data k PNone of PList (PDict c # cs) \<Rightarrow> Some (c, cs) | _ \<Rightarrow> None)"

definition content_text :: "(pystr \<times> pyval) list \<Rightarrow> pystr" where
  "content_text d = py_str (get_or d m_content (PStr []))"

definition gateway_parse_response :: "nat \<Rightarrow> bytes \<Rightarrow> pystr result" where
  "gateway_parse_response depth b =
     bind_result (load_body depth b) (\<lambda>v. bind_result (as_dict v) (\<lambda>data.
       case last_message data of
         Some (ms, d) \<Rightarrow> Inr (content_text d)
       | None \<Rightarrow>
           (case first_of data (lit ''choices'') of
              Some (c, cs) \<Rightarrow> bind_result (as_dict (get_or c (lit ''message'') (PDict []))) (\<lambda>d. Inr (content_text d))
            | None \<Rightarrow> Inr (case get_or data (lit ''message'') PNone of PDict d \<Rightarrow> content_text d | _ \<Rightarrow> []))))"

definition gateway_rebuild_response :: "nat \<Rightarrow> bytes \<Rightarrow> pystr \<Rightarrow> bytes result" where
  "gateway_rebuild_response depth b t =
     bind_result (load_body depth b) (\<lambda>v. bind_result (as_dict v) (\<lambda>data.
       case last_message data of
         Some (ms, d) \<Rightarrow> json_bytes (PDict (dict_set m_messages (PList (ms @ [PDict (dict_set m_content (PStr t) d)])) data))
       | None \<Rightarrow>
           (case first_of data (lit ''choices'') of
              Some (c, cs) \<Rightarrow> bind_result (set_in c (lit ''message'') m_content (PStr t)) (\<lambda>c.
                json_bytes (PDict (dict_set (lit ''choices'') (PList (PDict c # cs)) data)))
            | None \<Rightarrow> json_bytes (PDict (case get_or data (lit ''message'') PNone of
                PDict d \<Rightarrow> dict_set (lit ''message'') (PDict (dict_set m_content (PStr t) d)) data | _ \<Rightarrow> data)))))"

definition gateway :: "nat \<Rightarrow> adapter" where
  "gateway depth = \<lparr>adapter_name = lit ''gateway'', matches = gateway_matches depth, extract_turns = gateway_extract_turns depth,
     rebuild = gateway_rebuild depth, parse_response = gateway_parse_response depth, rebuild_response = gateway_rebuild_response depth\<rparr>"

section \<open>Gemini\<close>

definition ROLE_TO_INTERNAL :: "(pystr \<times> pystr) list" where
  "ROLE_TO_INTERNAL = [(lit ''model'', lit ''assistant'')]"

definition is_list :: "pyval \<Rightarrow> bool" where
  "is_list v \<longleftrightarrow> (case v of PList vs \<Rightarrow> True | _ \<Rightarrow> False)"

definition gemini_matches :: "nat \<Rightarrow> pystr \<Rightarrow> headers \<Rightarrow> bytes \<Rightarrow> bool result" where
  "gemini_matches depth path hs b =
     (case load_body depth b of
        Inl e \<Rightarrow> if e = ValueError then Inr False else Inl e
      | Inr v \<Rightarrow> Inr (case v of PDict d \<Rightarrow> is_list (get_or d m_contents PNone) \<or> is_list (get_or d (lit ''candidates'') PNone) | _ \<Rightarrow> False))"

text \<open>\<open>"".join(str(p.get("text", "")) for p in parts if isinstance(p, dict))\<close>\<close>

definition join_parts :: "pyval \<Rightarrow> pystr result" where
  "join_parts parts =
     bind_result (py_iter parts) (\<lambda>ps. Inr (concat (map (\<lambda>p. case p of PDict d \<Rightarrow> py_str (get_or d m_text (PStr [])) | _ \<Rightarrow> []) ps)))"

text \<open>A list or a dict is no key of \<open>_ROLE_TO_INTERNAL\<close>: the look-up raises.\<close>

definition internal_role :: "(pystr \<times> pyval) list \<Rightarrow> pystr result" where
  "internal_role item =
     (case get_or item (lit ''role'') PNone of
        PList vs \<Rightarrow> Inl TypeError
      | PDict d \<Rightarrow> Inl TypeError
      | PStr r \<Rightarrow> Inr (case dict_get ROLE_TO_INTERNAL r of Some x \<Rightarrow> x | None \<Rightarrow> r)
      | _ \<Rightarrow> Inr (py_str (get_or item (lit ''role'') (PStr (lit ''user'')))))"

definition content_turn :: "(pystr \<times> pyval) list \<Rightarrow> turn result" where
  "content_turn item =
     bind_result (internal_role item) (\<lambda>r. bind_result (join_parts (get_or item m_parts (PList []))) (\<lambda>t.
     Inr \<lparr>trole = r, ttext = t\<rparr>))"

definition system_turns :: "(pystr \<times> pyval) list \<Rightarrow> turn list result" where
  "system_turns data =
     (case get_or data (lit ''system_instruction'') PNone of
        PDict d \<Rightarrow> bind_result (join_parts (get_or d m_parts (PList []))) (\<lambda>t.
          Inr (if t \<noteq> [] then [\<lparr>trole = lit ''system'', ttext = t\<rparr>] else []))
      | _ \<Rightarrow> Inr [])"

definition dicts :: "pyval list \<Rightarrow> (pystr \<times> pyval) list list" where
  "dicts = List.map_filter (\<lambda>v. case v of PDict d \<Rightarrow> Some d | _ \<Rightarrow> None)"

definition gemini_extract_turns :: "nat \<Rightarrow> bytes \<Rightarrow> turn list result" where
  "gemini_extract_turns depth b =
     bind_result (load_body depth b) (\<lambda>v. bind_result (as_dict v) (\<lambda>data.
     bind_result (system_turns data) (\<lambda>sys.
     bind_result (py_iter (get_or data m_contents (PList []))) (\<lambda>items.
     bind_result (map_result content_turn (dicts items)) (\<lambda>ts. Inr (sys @ ts))))))"

definition text_parts :: "pystr \<Rightarrow> pyval" where
  "text_parts t = PList [PDict [(m_text, PStr t)]]"

definition take_system :: "(pystr \<times> pyval) list \<Rightarrow> turn list \<Rightarrow> (pystr \<times> pyval) list \<times> turn list" where
  "take_system data ts =
     (case (get_or data (lit ''system_instruction'') PNone, ts) of
        (PDict d, t # remaining) \<Rightarrow>
          if trole t = lit ''system''
          then (dict_set (lit ''system_instruction'') (PDict [(m_parts, text_parts (ttext t))]) data, remaining) else (data, ts)
      | _ \<Rightarrow> (data, ts))"

definition gemini_rebuild :: "nat \<Rightarrow> bytes \<Rightarrow> turn list \<Rightarrow> bytes result" where
  "gemini_rebuild depth b ts =
     bind_result (load_body depth b) (\<lambda>v. bind_result (as_dict v) (\<lambda>data.
       let (data, remaining) = take_system data ts
       in bind_result (update_seq (\<lambda>d t. dict_set m_parts (text_parts (ttext t)) d) (get_or data m_contents (PList [])) remaining) (\<lambda>items.
          json_bytes (PDict (dict_set m_contents items data)))))"

definition gemini_parse_response :: "nat \<Rightarrow> bytes \<Rightarrow> pystr result" where
  "gemini_parse_response depth b =
     bind_result (load_body depth b) (\<lambda>v. bind_result (as_dict v) (\<lambda>data.
       case first_of data (lit ''candidates'') of
         None \<Rightarrow> Inr []
       | Some (c, cs) \<Rightarrow>
           (case get_or c m_content (PDict []) of
              PDict d \<Rightarrow> join_parts (get_or d m_parts (PList []))
            | _ \<Rightarrow> Inr [])))"

definition gemini_rebuild_response :: "nat \<Rightarrow> bytes \<Rightarrow> pystr \<Rightarrow> bytes result" where
  "gemini_rebuild_response depth b t =
     bind_result (load_body depth b) (\<lambda>v. bind_result (as_dict v) (\<lambda>data.
       case first_of data (lit ''candidates'') of
         None \<Rightarrow> json_bytes (PDict data)
       | Some (c, cs) \<Rightarrow> bind_result (set_in c m_content m_parts (text_parts t)) (\<lambda>c.
           json_bytes (PDict (dict_set (lit ''candidates'') (PList (PDict c # cs)) data)))))"

definition gemini :: "nat \<Rightarrow> adapter" where
  "gemini depth = \<lparr>adapter_name = lit ''gemini'', matches = gemini_matches depth, extract_turns = gemini_extract_turns depth,
     rebuild = gemini_rebuild depth, parse_response = gemini_parse_response depth, rebuild_response = gemini_rebuild_response depth\<rparr>"

section \<open>The registry\<close>

definition ADAPTERS :: "nat \<Rightarrow> adapter list" where
  "ADAPTERS depth = [gemini depth, gateway depth]"

fun first_match :: "adapter \<Rightarrow> adapter list \<Rightarrow> pystr \<Rightarrow> headers \<Rightarrow> bytes \<Rightarrow> adapter result" where
  "first_match fallback [] path hs b = Inr fallback"
| "first_match fallback (a # as) path hs b =
     bind_result (matches a path hs b) (\<lambda>m. if m then Inr a else first_match fallback as path hs b)"

definition select_adapter :: "nat \<Rightarrow> pystr \<Rightarrow> headers \<Rightarrow> bytes \<Rightarrow> adapter result" where
  "select_adapter depth path hs b = first_match (gateway depth) (ADAPTERS depth) path hs b"

section \<open>The contract of an adapter\<close>

text \<open>
  What the pipeline relies on: when the new content \<open>x\<close> fits the body, writing it succeeds and
  reading the result yields \<open>x\<close>; the result fits whatever the body did.
\<close>

locale body_lens =
  fixes get :: "bytes \<Rightarrow> 'x result"
    and put :: "bytes \<Rightarrow> 'x \<Rightarrow> bytes result"
    and fits :: "bytes \<Rightarrow> 'x \<Rightarrow> bool"
  assumes put_get: "fits b x \<Longrightarrow> \<exists>b'. put b x = Inr b' \<and> get b' = Inr x"
    and put_fits: "fits b x \<Longrightarrow> put b x = Inr b' \<Longrightarrow> fits b y \<Longrightarrow> fits b' y"
begin

lemma put_put:
  assumes "fits b x" "fits b y"
  shows "\<exists>b1 b2. put b x = Inr b1 \<and> get b1 = Inr x \<and> put b1 y = Inr b2 \<and> get b2 = Inr y"
proof -
  obtain b1 where b1: "put b x = Inr b1" "get b1 = Inr x" using put_get [OF assms(1)] by blast
  from put_get [OF put_fits [OF assms(1) b1(1) assms(2)]] b1 show ?thesis by blast
qed

end

text \<open>Bodies that are dicts.\<close>

definition body_ok :: "nat \<Rightarrow> bytes \<Rightarrow> (pystr \<times> pyval) list \<Rightarrow> bool" where
  "body_ok depth b data \<longleftrightarrow> load_body depth b = Inr (PDict data) \<and> json_ok depth (PDict data)"

lemma body_ok_put: "json_ok depth (PDict data) \<Longrightarrow> \<exists>b. json_bytes (PDict data) = Inr b \<and> body_ok depth b data"
  using json_loads_bytes [of depth "PDict data"] by (auto simp: body_ok_def load_body_def)

lemma members_ok_get: "members_ok d m \<Longrightarrow> dict_get m k = Some v \<Longrightarrow> json_ok d v"
  by (induction m) (auto simp: dict_get_def split: if_splits)

lemma members_ok_set: "members_ok d m \<Longrightarrow> text_ok k \<Longrightarrow> json_ok d v \<Longrightarrow> members_ok d (dict_set k v m)"
  by (induction k v m rule: dict_set.induct) auto

lemma json_ok_dict: "json_ok d (PDict m) \<longleftrightarrow> (\<exists>d'. d = Suc d' \<and> distinct (map fst m) \<and> members_ok d' m)"
  by (cases d) auto

lemma json_ok_list: "json_ok d (PList vs) \<longleftrightarrow> (\<exists>d'. d = Suc d' \<and> (\<forall>v \<in> set vs. json_ok d' v))"
proof -
  have "items_ok d' vs \<longleftrightarrow> (\<forall>v \<in> set vs. json_ok d' v)" for d' by (induction vs) auto
  then show ?thesis by (cases d) auto
qed

lemma json_ok_set: "json_ok d (PDict m) \<Longrightarrow> text_ok k \<Longrightarrow> json_ok (d - 1) v \<Longrightarrow> json_ok d (PDict (dict_set k v m))"
  by (auto simp: json_ok_dict members_ok_set)

lemma text_ok_ascii [simp]: "text_ok (lit ''text'')" "text_ok (lit ''parts'')" "text_ok (lit ''messages'')" "text_ok (lit ''contents'')"
  "text_ok (lit ''content'')" "text_ok (lit ''message'')" "text_ok (lit ''choices'')" "text_ok (lit ''candidates'')" "text_ok (lit ''system_instruction'')"
  by code_simp+

lemma dict_get_set: "dict_get (dict_set k v d) k' = (if k' = k then Some v else dict_get d k')"
  by (simp add: dict_get_def)

lemma get_or_set: "get_or (dict_set k v d) k' x = (if k' = k then v else get_or d k' x)"
  by (simp add: get_or_def dict_get_set)

section \<open>The gateway keeps the contract\<close>

definition message_fits :: "pyval \<Rightarrow> turn \<Rightarrow> bool" where
  "message_fits m t \<longleftrightarrow> text_ok (ttext t) \<and>
     (case m of PDict d \<Rightarrow> trole t = py_str (get_or d (lit ''role'') (PStr (lit ''user''))) | _ \<Rightarrow> False)"

definition gateway_fits :: "nat \<Rightarrow> bytes \<Rightarrow> turn list \<Rightarrow> bool" where
  "gateway_fits depth b ts \<longleftrightarrow>
     (\<exists>data ms. body_ok depth b data \<and> dict_get data m_messages = Some (PList ms) \<and> list_all2 message_fits ms ts)"

abbreviation "put_message \<equiv> (\<lambda>d t. dict_set m_content (PStr (ttext t)) d)"

lemma update_messages:
  assumes "list_all2 message_fits ms ts"
  shows "List.map_filter message_turn (update_items put_message ms ts) = ts"
    "list_all2 message_fits (update_items put_message ms ts) us = list_all2 message_fits ms us"
    "\<forall>v \<in> set ms. json_ok d v \<Longrightarrow> \<forall>v \<in> set (update_items put_message ms ts). json_ok d v"
proof -
  show "List.map_filter message_turn (update_items put_message ms ts) = ts" using assms
    by (induction ms ts rule: list_all2_induct)
      (auto simp: message_fits_def message_turn_def map_filter_simps get_or_set py_str_def split: pyval.splits)
  show "list_all2 message_fits (update_items put_message ms ts) us = list_all2 message_fits ms us" using assms
    by (induction ms ts arbitrary: us rule: list_all2_induct)
      (auto simp: message_fits_def list_all2_Cons1 get_or_set split: pyval.splits)
  show "\<forall>v \<in> set (update_items put_message ms ts). json_ok d v" if "\<forall>v \<in> set ms. json_ok d v" using assms that
    by (induction ms ts rule: list_all2_induct) (auto simp: message_fits_def intro!: json_ok_set split: pyval.splits)
qed

lemma gateway_put:
  assumes "body_ok depth b data" "dict_get data m_messages = Some (PList ms)" "list_all2 message_fits ms ts"
  defines "ms' \<equiv> update_items put_message ms ts"
  shows "\<exists>b'. gateway_rebuild depth b ts = Inr b' \<and> body_ok depth b' (dict_set m_messages (PList ms') data)"
proof -
  have ok: "json_ok depth (PDict data)" "load_body depth b = Inr (PDict data)" using assms(1) by (simp_all add: body_ok_def)
  then obtain d where d: "depth = Suc d" "members_ok d data" by (auto simp: json_ok_dict)
  from members_ok_get [OF d(2) assms(2)] obtain d' where "d = Suc d'" "\<forall>v \<in> set ms. json_ok d' v" by (auto simp: json_ok_list)
  with update_messages(3) [OF assms(3)] have "json_ok d (PList ms')" by (auto simp: json_ok_list ms'_def)
  then have "json_ok depth (PDict (dict_set m_messages (PList ms') data))" using ok(1) d(1) by (intro json_ok_set) simp_all
  from body_ok_put [OF this] show ?thesis using ok(2) assms(2)
    by (simp add: gateway_rebuild_def as_dict_def get_or_def update_seq_def py_iter_def ms'_def)
qed

lemma body_ok_unique: "body_ok depth b data \<Longrightarrow> body_ok depth b data' \<Longrightarrow> data = data'"
  by (simp add: body_ok_def)

interpretation gateway_requests: body_lens "gateway_extract_turns depth" "gateway_rebuild depth" "gateway_fits depth" for depth
proof
  fix b ts assume "gateway_fits depth b ts"
  then obtain data ms where f: "body_ok depth b data" "dict_get data m_messages = Some (PList ms)" "list_all2 message_fits ms ts"
    by (auto simp: gateway_fits_def)
  from gateway_put [OF this] obtain b' where b': "gateway_rebuild depth b ts = Inr b'"
    "body_ok depth b' (dict_set m_messages (PList (update_items put_message ms ts)) data)" by blast
  then have "gateway_extract_turns depth b' = Inr ts"
    using update_messages(1) [OF f(3)] by (simp add: gateway_extract_turns_def body_ok_def as_dict_def get_or_set py_iter_def)
  with b' show "\<exists>b'. gateway_rebuild depth b ts = Inr b' \<and> gateway_extract_turns depth b' = Inr ts" by blast
  fix b2 us assume "gateway_rebuild depth b ts = Inr b2" "gateway_fits depth b us"
  then have "b2 = b'" "list_all2 message_fits ms us"
    using b'(1) f(1,2) by (auto simp: gateway_fits_def body_ok_def)
  with b'(2) show "gateway_fits depth b2 us" unfolding gateway_fits_def
    by (intro exI [of _ "dict_set m_messages (PList (update_items put_message ms ts)) data"]
        exI [of _ "update_items put_message ms ts"]) (simp add: dict_get_set update_messages(2) [OF f(3)])
qed

text \<open>A response fits when it has one of the three shapes.\<close>

definition is_dict :: "pyval \<Rightarrow> bool" where
  "is_dict v \<longleftrightarrow> (case v of PDict d \<Rightarrow> True | _ \<Rightarrow> False)"

definition has_answer :: "(pystr \<times> pyval) list \<Rightarrow> bool" where
  "has_answer data \<longleftrightarrow>
     (case last_message data of Some m \<Rightarrow> True
      | None \<Rightarrow> (case first_of data (lit ''choices'') of
            Some (c, cs) \<Rightarrow> is_dict (get_or c (lit ''message'') PNone)
          | None \<Rightarrow> is_dict (get_or data (lit ''message'') PNone)))"

definition response_fits :: "nat \<Rightarrow> bytes \<Rightarrow> pystr \<Rightarrow> bool" where
  "response_fits depth b t \<longleftrightarrow> text_ok t \<and> (\<exists>data. body_ok depth b data \<and> has_answer data)"

lemma is_dict_get: "is_dict (get_or d k PNone) \<longleftrightarrow> (\<exists>e. dict_get d k = Some (PDict e))"
  by (auto simp: is_dict_def get_or_def split: option.splits pyval.splits)

lemma content_text_set [simp]: "content_text (dict_set m_content (PStr t) d) = t"
  by (simp add: content_text_def get_or_set py_str_def)

lemma json_ok_item: "json_ok d (PList vs) \<Longrightarrow> v \<in> set vs \<Longrightarrow> json_ok (d - 1) v"
  by (auto simp: json_ok_list)

lemma json_ok_in_list: "json_ok d (PList (v # vs)) \<Longrightarrow> json_ok (d - 1) w \<Longrightarrow> json_ok d (PList (w # vs))"
  by (auto simp: json_ok_list)

lemma json_ok_get: "json_ok d (PDict m) \<Longrightarrow> dict_get m k = Some v \<Longrightarrow> json_ok (d - 1) v"
  by (auto simp: json_ok_dict dest: members_ok_get)

lemma last_message_Some: "last_message data = Some (ms, d) \<longleftrightarrow> dict_get data m_messages = Some (PList (ms @ [PDict d]))"
  by (auto simp: last_message_def get_or_def split: option.splits pyval.splits if_splits) (metis append_butlast_last_id)

lemma last_message_set: "k \<noteq> m_messages \<Longrightarrow> last_message (dict_set k v data) = last_message data"
  by (simp add: last_message_def get_or_set)

lemma first_of_Some: "first_of data k = Some (c, cs) \<longleftrightarrow> dict_get data k = Some (PList (PDict c # cs))"
  by (auto simp: first_of_def get_or_def split: option.splits pyval.splits list.splits)

lemma first_of_set: "first_of (dict_set k v data) k' = (if k' = k then (case v of PList (PDict c # cs) \<Rightarrow> Some (c, cs) | _ \<Rightarrow> None) else first_of data k')"
  by (simp add: first_of_def get_or_set)

lemma response_finish:
  assumes "json_ok depth (PDict new)" "gateway_rebuild_response depth b t = json_bytes (PDict new)" "has_answer new"
    "\<And>b'. load_body depth b' = Inr (PDict new) \<Longrightarrow> gateway_parse_response depth b' = Inr t"
  shows "\<exists>b' new. gateway_rebuild_response depth b t = Inr b' \<and> body_ok depth b' new \<and> has_answer new \<and> gateway_parse_response depth b' = Inr t"
  using body_ok_put [OF assms(1)] assms(2-4) by (auto simp: body_ok_def)

lemma response_put_message:
  assumes "load_body depth b = Inr (PDict data)" "json_ok depth (PDict data)" "last_message data = Some (ms, d)" "text_ok t"
  shows "\<exists>b' new. gateway_rebuild_response depth b t = Inr b' \<and> body_ok depth b' new \<and> has_answer new \<and> gateway_parse_response depth b' = Inr t"
proof (rule response_finish)
  let ?d = "dict_set m_content (PStr t) d"
  let ?new = "dict_set m_messages (PList (ms @ [PDict ?d])) data"
  have "json_ok (depth - 1) (PList (ms @ [PDict d]))" using json_ok_get [OF assms(2)] assms(3) by (simp add: last_message_Some)
  then have "json_ok (depth - 1) (PList (ms @ [PDict ?d]))" using assms(4) by (auto simp: json_ok_list intro!: json_ok_set)
  with assms(2) show "json_ok depth (PDict ?new)" by (intro json_ok_set) simp_all
  have new: "last_message ?new = Some (ms, ?d)" by (simp add: last_message_Some dict_get_set)
  then show "has_answer ?new" by (simp add: has_answer_def)
  show "gateway_rebuild_response depth b t = json_bytes (PDict ?new)"
    using assms(1,3) by (simp add: gateway_rebuild_response_def as_dict_def)
  show "gateway_parse_response depth b' = Inr t" if "load_body depth b' = Inr (PDict ?new)" for b'
    using that new by (simp add: gateway_parse_response_def as_dict_def)
qed

lemma response_put_choice:
  assumes "load_body depth b = Inr (PDict data)" "json_ok depth (PDict data)" "last_message data = None"
    "first_of data (lit ''choices'') = Some (c, cs)" "dict_get c (lit ''message'') = Some (PDict d)" "text_ok t"
  shows "\<exists>b' new. gateway_rebuild_response depth b t = Inr b' \<and> body_ok depth b' new \<and> has_answer new \<and> gateway_parse_response depth b' = Inr t"
proof (rule response_finish)
  let ?d = "dict_set m_content (PStr t) d"
  let ?c = "dict_set (lit ''message'') (PDict ?d) c"
  let ?new = "dict_set (lit ''choices'') (PList (PDict ?c # cs)) data"
  have l: "json_ok (depth - 1) (PList (PDict c # cs))" using json_ok_get [OF assms(2)] assms(4) by (simp add: first_of_Some)
  then have c1: "json_ok (depth - 1 - 1) (PDict c)" by (rule json_ok_item) simp
  have "json_ok (depth - 1 - 1 - 1) (PDict d)" by (rule json_ok_get [OF c1 assms(5)])
  then have "json_ok (depth - 1 - 1 - 1) (PDict ?d)" by (rule json_ok_set) (simp_all add: assms(6))
  then have "json_ok (depth - 1 - 1) (PDict ?c)" by (rule json_ok_set [OF c1 text_ok_ascii(6)])
  then have "json_ok (depth - 1) (PList (PDict ?c # cs))" by (rule json_ok_in_list [OF l])
  then show "json_ok depth (PDict ?new)" by (rule json_ok_set [OF assms(2) text_ok_ascii(7)])
  have new: "last_message ?new = None" "first_of ?new (lit ''choices'') = Some (?c, cs)" using assms(3) by (simp_all add: last_message_set first_of_set)
  have get: "get_or ?c (lit ''message'') x = PDict ?d" for x by (simp add: get_or_set)
  show "has_answer ?new" using new get by (simp add: has_answer_def is_dict_def)
  have "set_in c (lit ''message'') m_content (PStr t) = Inr ?c" using assms(5) by (simp add: set_in_def get_or_def)
  then show "gateway_rebuild_response depth b t = json_bytes (PDict ?new)"
    using assms(1,3,4) by (simp add: gateway_rebuild_response_def as_dict_def)
  show "gateway_parse_response depth b' = Inr t" if "load_body depth b' = Inr (PDict ?new)" for b'
    using that new get by (simp add: gateway_parse_response_def as_dict_def)
qed

lemma response_put_plain:
  assumes "load_body depth b = Inr (PDict data)" "json_ok depth (PDict data)" "last_message data = None"
    "first_of data (lit ''choices'') = None" "dict_get data (lit ''message'') = Some (PDict d)" "text_ok t"
  shows "\<exists>b' new. gateway_rebuild_response depth b t = Inr b' \<and> body_ok depth b' new \<and> has_answer new \<and> gateway_parse_response depth b' = Inr t"
proof (rule response_finish)
  let ?d = "dict_set m_content (PStr t) d"
  let ?new = "dict_set (lit ''message'') (PDict ?d) data"
  have "json_ok (depth - 1) (PDict d)" by (rule json_ok_get [OF assms(2,5)])
  then have "json_ok (depth - 1) (PDict ?d)" by (rule json_ok_set) (simp_all add: assms(6))
  then show "json_ok depth (PDict ?new)" by (rule json_ok_set [OF assms(2) text_ok_ascii(6)])
  have new: "last_message ?new = None" "first_of ?new (lit ''choices'') = None" using assms(3,4) by (simp_all add: last_message_set first_of_set)
  have get: "get_or ?new (lit ''message'') x = PDict ?d" for x by (simp add: get_or_set)
  show "has_answer ?new" using new get by (simp add: has_answer_def is_dict_def)
  have "get_or data (lit ''message'') PNone = PDict d" using assms(5) by (simp add: get_or_def)
  then show "gateway_rebuild_response depth b t = json_bytes (PDict ?new)"
    using assms(1,3,4) by (simp add: gateway_rebuild_response_def as_dict_def)
  show "gateway_parse_response depth b' = Inr t" if "load_body depth b' = Inr (PDict ?new)" for b'
    using that new get by (simp add: gateway_parse_response_def as_dict_def)
qed

lemma response_put:
  assumes "body_ok depth b data" "has_answer data" "text_ok t"
  shows "\<exists>b' new. gateway_rebuild_response depth b t = Inr b' \<and> body_ok depth b' new \<and> has_answer new \<and> gateway_parse_response depth b' = Inr t"
proof -
  have load: "load_body depth b = Inr (PDict data)" "json_ok depth (PDict data)" using assms(1) by (simp_all add: body_ok_def)
  consider (message) ms d where "last_message data = Some (ms, d)"
    | (choice) c cs d where "last_message data = None" "first_of data (lit ''choices'') = Some (c, cs)" "dict_get c (lit ''message'') = Some (PDict d)"
    | (plain) d where "last_message data = None" "first_of data (lit ''choices'') = None" "dict_get data (lit ''message'') = Some (PDict d)"
    using assms(2) unfolding has_answer_def is_dict_get by (cases "last_message data"; cases "first_of data (lit ''choices'')") auto
  then show ?thesis
  proof cases
    case message
    show ?thesis by (rule response_put_message [OF load message assms(3)])
  next
    case choice
    show ?thesis by (rule response_put_choice [OF load choice assms(3)])
  next
    case plain
    show ?thesis by (rule response_put_plain [OF load plain assms(3)])
  qed
qed

interpretation gateway_responses: body_lens "gateway_parse_response depth" "gateway_rebuild_response depth" "response_fits depth" for depth
proof
  fix b t assume "response_fits depth b t"
  then obtain data where "body_ok depth b data" "has_answer data" "text_ok t" by (auto simp: response_fits_def)
  from response_put [OF this] obtain b' new where b': "gateway_rebuild_response depth b t = Inr b'" "body_ok depth b' new" "has_answer new"
    "gateway_parse_response depth b' = Inr t" by blast
  then show "\<exists>b'. gateway_rebuild_response depth b t = Inr b' \<and> gateway_parse_response depth b' = Inr t" by blast
  fix b2 u assume "gateway_rebuild_response depth b t = Inr b2" "response_fits depth b u"
  with b' show "response_fits depth b2 u" by (auto simp: response_fits_def)
qed

section \<open>Gemini keeps the contract\<close>

text \<open>
  The rebuilt parts nest two containers deeper, which \<open>5 \<le> depth\<close> allows. A body with a system
  instruction takes the first turn for it, which must then have the role and a text.
\<close>

definition item_fits :: "pyval \<Rightarrow> turn \<Rightarrow> bool" where
  "item_fits m t \<longleftrightarrow> text_ok (ttext t) \<and> (case m of PDict d \<Rightarrow> internal_role d = Inr (trole t) | _ \<Rightarrow> False)"

definition split_system :: "(pystr \<times> pyval) list \<Rightarrow> turn list \<Rightarrow> (turn option \<times> turn list) option" where
  "split_system data ts =
     (if is_dict (get_or data (lit ''system_instruction'') PNone)
      then (case ts of [] \<Rightarrow> None
        | t # us \<Rightarrow> if trole t = lit ''system'' \<and> ttext t \<noteq> [] \<and> text_ok (ttext t) then Some (Some t, us) else None)
      else Some (None, ts))"

definition gemini_fits :: "nat \<Rightarrow> bytes \<Rightarrow> turn list \<Rightarrow> bool" where
  "gemini_fits depth b ts \<longleftrightarrow> 5 \<le> depth \<and>
     (\<exists>data ms sys us. body_ok depth b data \<and> dict_get data m_contents = Some (PList ms) \<and>
       split_system data ts = Some (sys, us) \<and> list_all2 item_fits ms us)"

abbreviation "put_item \<equiv> (\<lambda>d t. dict_set m_parts (text_parts (ttext t)) d)"

lemma join_text_parts [simp]: "join_parts (text_parts t) = Inr t"
  by (simp add: join_parts_def text_parts_def py_iter_def get_or_def dict_get_def py_str_def)

lemma json_ok_text_parts: "2 \<le> d \<Longrightarrow> text_ok t \<Longrightarrow> json_ok d (text_parts t)"
proof -
  assume "2 \<le> d" "text_ok t"
  then obtain d' where "d = Suc (Suc d')" by (auto simp: le_iff_add)
  with \<open>text_ok t\<close> show ?thesis by (simp add: text_parts_def)
qed

lemma internal_role_set [simp]: "internal_role (dict_set m_parts v d) = internal_role d"
  unfolding internal_role_def by (auto simp: get_or_set split: pyval.splits)

lemma content_turn_put: "internal_role d = Inr r \<Longrightarrow> content_turn (dict_set m_parts (text_parts t) d) = Inr \<lparr>trole = r, ttext = t\<rparr>"
  by (simp add: content_turn_def get_or_set)

lemma update_contents:
  assumes "list_all2 item_fits ms ts"
  shows "map_result content_turn (dicts (update_items put_item ms ts)) = Inr ts"
    "list_all2 item_fits (update_items put_item ms ts) us = list_all2 item_fits ms us"
    "3 \<le> d \<Longrightarrow> \<forall>v \<in> set ms. json_ok d v \<Longrightarrow> \<forall>v \<in> set (update_items put_item ms ts). json_ok d v"
proof -
  show "map_result content_turn (dicts (update_items put_item ms ts)) = Inr ts" using assms
    by (induction ms ts rule: list_all2_induct)
      (auto simp: item_fits_def dicts_def map_filter_simps content_turn_put split: pyval.splits)
  show "list_all2 item_fits (update_items put_item ms ts) us = list_all2 item_fits ms us" using assms
    by (induction ms ts arbitrary: us rule: list_all2_induct)
      (auto simp: item_fits_def list_all2_Cons1 split: pyval.splits)
  have put: "json_ok d (PDict (put_item e t))" if "json_ok d (PDict e)" "text_ok (ttext t)" "3 \<le> d" for d e t
    using that by (intro json_ok_set json_ok_text_parts) simp_all
  show "\<forall>v \<in> set (update_items put_item ms ts). json_ok d v" if "3 \<le> d" "\<forall>v \<in> set ms. json_ok d v" using assms that
    by (induction ms ts rule: list_all2_induct) (auto simp: item_fits_def put split: pyval.splits)
qed

definition put_system :: "turn option \<Rightarrow> (pystr \<times> pyval) list \<Rightarrow> (pystr \<times> pyval) list" where
  "put_system sys data = (case sys of None \<Rightarrow> data
     | Some t \<Rightarrow> dict_set (lit ''system_instruction'') (PDict [(m_parts, text_parts (ttext t))]) data)"

lemma gemini_put:
  assumes "5 \<le> depth" "body_ok depth b data" "dict_get data m_contents = Some (PList ms)"
    "split_system data ts = Some (sys, us)" "list_all2 item_fits ms us"
  defines "new \<equiv> dict_set m_contents (PList (update_items put_item ms us)) (put_system sys data)"
  shows "\<exists>b'. gemini_rebuild depth b ts = Inr b' \<and> body_ok depth b' new"
proof -
  have load: "load_body depth b = Inr (PDict data)" "json_ok depth (PDict data)" using assms(2) by (simp_all add: body_ok_def)
  have sys: "json_ok depth (PDict (put_system sys data))"
  proof (cases sys)
    case None
    with load show ?thesis by (simp add: put_system_def)
  next
    case (Some t)
    with assms(4) have "text_ok (ttext t)" by (auto simp: split_system_def split: if_splits list.splits)
    with assms(1) have "json_ok (depth - 2) (text_parts (ttext t))" by (intro json_ok_text_parts) simp_all
    moreover obtain d where d: "depth = Suc (Suc d)" using assms(1) by (auto simp: le_iff_add)
    ultimately have "json_ok (depth - 1) (PDict [(m_parts, text_parts (ttext t))])" by simp
    from json_ok_set [OF load(2) text_ok_ascii(9) this] show ?thesis by (simp add: put_system_def Some)
  qed
  have ms: "json_ok (depth - 1) (PList ms)" by (rule json_ok_get [OF load(2) assms(3)])
  then obtain d where d: "depth - 1 = Suc d" "\<forall>v \<in> set ms. json_ok d v" by (auto simp: json_ok_list)
  with assms(1) update_contents(3) [OF assms(5), of d] have "json_ok (depth - 1) (PList (update_items put_item ms us))"
    by (auto simp: json_ok_list)
  then have ok: "json_ok depth (PDict new)" unfolding new_def by (rule json_ok_set [OF sys text_ok_ascii(4)])
  have contents: "get_or (put_system sys data) m_contents x = PList ms" for x
    using assms(3) by (auto simp: put_system_def get_or_set split: option.splits) (simp_all add: get_or_def)
  have "take_system data ts = (put_system sys data, us)" using assms(4)
    by (auto simp: take_system_def split_system_def put_system_def is_dict_def split: list.splits if_splits pyval.splits)
  then have "gemini_rebuild depth b ts = json_bytes (PDict new)"
    using load(1) by (simp add: gemini_rebuild_def as_dict_def update_seq_def py_iter_def new_def contents)
  with body_ok_put [OF ok] show ?thesis by auto
qed

lemma split_system_put:
  assumes "split_system data ts = Some (sys, us)"
  shows "split_system (dict_set m_contents v (put_system sys data)) ts' = split_system data ts'"
    "system_turns (dict_set m_contents v (put_system sys data)) = Inr (case sys of None \<Rightarrow> [] | Some t \<Rightarrow> [t])"
    "ts = (case sys of None \<Rightarrow> [] | Some t \<Rightarrow> [t]) @ us"
proof -
  have d: "is_dict (PDict e)" for e by (simp add: is_dict_def)
  show "split_system (dict_set m_contents v (put_system sys data)) ts' = split_system data ts'"
    "ts = (case sys of None \<Rightarrow> [] | Some t \<Rightarrow> [t]) @ us"
    using assms by (auto simp: split_system_def put_system_def get_or_set d split: if_splits list.splits option.splits)
  show "system_turns (dict_set m_contents v (put_system sys data)) = Inr (case sys of None \<Rightarrow> [] | Some t \<Rightarrow> [t])"
  proof (cases sys)
    case None
    with assms have "\<not> is_dict (get_or data (lit ''system_instruction'') PNone)" by (auto simp: split_system_def split: if_splits list.splits)
    with None show ?thesis by (auto simp: system_turns_def put_system_def get_or_set is_dict_def split: pyval.splits)
  next
    case (Some t)
    with assms have "trole t = lit ''system''" "ttext t \<noteq> []" by (auto simp: split_system_def split: if_splits list.splits)
    moreover have "get_or [(m_parts, text_parts (ttext t))] m_parts x = text_parts (ttext t)" for x by (simp add: get_or_def dict_get_def)
    ultimately show ?thesis by (simp add: Some system_turns_def put_system_def get_or_set)
  qed
qed

interpretation gemini_requests: body_lens "gemini_extract_turns depth" "gemini_rebuild depth" "gemini_fits depth" for depth
proof
  fix b ts assume "gemini_fits depth b ts"
  then obtain data ms sys us where f: "5 \<le> depth" "body_ok depth b data" "dict_get data m_contents = Some (PList ms)"
    "split_system data ts = Some (sys, us)" "list_all2 item_fits ms us" by (auto simp: gemini_fits_def)
  let ?new = "dict_set m_contents (PList (update_items put_item ms us)) (put_system sys data)"
  from gemini_put [OF f] obtain b' where b': "gemini_rebuild depth b ts = Inr b'" "body_ok depth b' ?new" by blast
  then have "gemini_extract_turns depth b' = Inr ts"
    using update_contents(1) [OF f(5)] split_system_put(2) [OF f(4)]
    by (simp add: gemini_extract_turns_def body_ok_def as_dict_def get_or_set py_iter_def split_system_put(3) [OF f(4)])
  with b' show "\<exists>b'. gemini_rebuild depth b ts = Inr b' \<and> gemini_extract_turns depth b' = Inr ts" by blast
  fix b2 ts2 assume "gemini_rebuild depth b ts = Inr b2" "gemini_fits depth b ts2"
  then obtain sys2 us2 where g: "b2 = b'" "split_system data ts2 = Some (sys2, us2)" "list_all2 item_fits ms us2"
    using b'(1) f(2,3) by (auto simp: gemini_fits_def body_ok_def)
  then show "gemini_fits depth b2 ts2" unfolding gemini_fits_def using f(1) b'(2)
    by (intro conjI exI [of _ ?new] exI [of _ "update_items put_item ms us"] exI [of _ sys2] exI [of _ us2])
      (simp_all add: dict_get_set split_system_put(1) [OF f(4)] update_contents(2) [OF f(5)])
qed

section \<open>Properties\<close>

text \<open>C36: What the gateway adapter writes into a request is what it reads from the result: the turns
  that were put are extracted again, and a second write replaces the first.\<close>

theorem gateway_request_roundtrip:
  assumes "gateway_fits depth b ts" "gateway_fits depth b us"
  shows "\<exists>b1 b2. gateway_rebuild depth b ts = Inr b1 \<and> gateway_extract_turns depth b1 = Inr ts \<and>
    gateway_rebuild depth b1 us = Inr b2 \<and> gateway_extract_turns depth b2 = Inr us"
  using assms by (rule gateway_requests.put_put)

text \<open>The same of its responses: the text put into a response of one of the three shapes is the
  text parsed from the result.\<close>

theorem gateway_response_roundtrip:
  assumes "response_fits depth b t" "response_fits depth b u"
  shows "\<exists>b1 b2. gateway_rebuild_response depth b t = Inr b1 \<and> gateway_parse_response depth b1 = Inr t \<and>
    gateway_rebuild_response depth b1 u = Inr b2 \<and> gateway_parse_response depth b2 = Inr u"
  using assms by (rule gateway_responses.put_put)

text \<open>C37: And of the requests of the Gemini adapter, the system instruction included.\<close>

theorem gemini_request_roundtrip:
  assumes "gemini_fits depth b ts" "gemini_fits depth b us"
  shows "\<exists>b1 b2. gemini_rebuild depth b ts = Inr b1 \<and> gemini_extract_turns depth b1 = Inr ts \<and>
    gemini_rebuild depth b1 us = Inr b2 \<and> gemini_extract_turns depth b2 = Inr us"
  using assms by (rule gemini_requests.put_put)

text \<open>When the messages hold an item that is no object, the turns no longer line up with the
  messages: the new text of the last turn is lost and the body keeps the original.\<close>

theorem gateway_rebuild_misaligned:
  "(case json_bytes (PDict [(m_messages, PList [PStr (lit ''x''), PDict [(lit ''role'', PStr (lit ''user'')), (m_content, PStr (lit ''010-1234-5678''))]])]) of
      Inl e \<Rightarrow> False
    | Inr b \<Rightarrow> gateway_extract_turns 5 b = Inr [\<lparr>trole = lit ''user'', ttext = lit ''010-1234-5678''\<rparr>] \<and>
        gateway_rebuild 5 b [\<lparr>trole = lit ''user'', ttext = lit ''***-****-5678''\<rparr>] = Inr b)"
  by code_simp

text \<open>Concrete bodies.\<close>

definition body_of :: "(pystr \<times> pyval) list \<Rightarrow> bytes" where
  "body_of d = (case json_bytes (PDict d) of Inr b \<Rightarrow> b | Inl e \<Rightarrow> [])"

lemma body_of_ok: "json_ok depth (PDict d) \<Longrightarrow> body_ok depth (body_of d) d"
  using body_ok_put [of depth d] by (auto simp: body_of_def)

definition chat_data :: "(pystr \<times> pyval) list" where
  "chat_data = [(lit ''model'', PStr (lit ''m'')), (m_messages, PList [PDict [(lit ''role'', PStr (lit ''user'')), (m_content, PStr (lit ''hi''))]])]"

definition gemini_data :: "(pystr \<times> pyval) list" where
  "gemini_data = [(lit ''system_instruction'', PDict [(m_parts, text_parts (lit ''be kind''))]),
     (m_contents, PList [PDict [(lit ''role'', PStr (lit ''model'')), (m_parts, text_parts (lit ''hi''))]])]"

theorem gateway_request_roundtrip_witness:
  "\<exists>b1 b2. gateway_rebuild 5 (body_of chat_data) [\<lparr>trole = lit ''user'', ttext = lit ''a''\<rparr>] = Inr b1 \<and>
    gateway_rebuild 5 b1 [\<lparr>trole = lit ''user'', ttext = lit ''b''\<rparr>] = Inr b2 \<and>
    gateway_extract_turns 5 b2 = Inr [\<lparr>trole = lit ''user'', ttext = lit ''b''\<rparr>]"
proof -
  have "json_ok 5 (PDict chat_data)" by code_simp
  moreover have "message_fits (PDict [(lit ''role'', PStr (lit ''user'')), (m_content, PStr (lit ''hi''))]) \<lparr>trole = lit ''user'', ttext = lit [c]\<rparr>"
    if "c \<in> {CHR ''a'', CHR ''b''}" for c
    using that by (elim insertE emptyE; hypsubst; code_simp)
  ultimately have "gateway_fits 5 (body_of chat_data) [\<lparr>trole = lit ''user'', ttext = lit ''a''\<rparr>]"
    "gateway_fits 5 (body_of chat_data) [\<lparr>trole = lit ''user'', ttext = lit ''b''\<rparr>]"
    unfolding gateway_fits_def
    by (intro exI [of _ chat_data] exI [of _ "[PDict [(lit ''role'', PStr (lit ''user'')), (m_content, PStr (lit ''hi''))]]"] conjI;
      simp add: body_of_ok chat_data_def dict_get_def)+
  from gateway_request_roundtrip [OF this] show ?thesis by blast
qed

theorem gateway_response_roundtrip_witness:
  "\<exists>b1. gateway_rebuild_response 5 (body_of chat_data) (lit ''ok'') = Inr b1 \<and> gateway_parse_response 5 b1 = Inr (lit ''ok'')"
proof -
  have "json_ok 5 (PDict chat_data)" "has_answer chat_data" "text_ok (lit ''ok'')" by code_simp+
  then have "response_fits 5 (body_of chat_data) (lit ''ok'')" by (auto simp: response_fits_def intro: body_of_ok)
  from gateway_response_roundtrip [OF this this] show ?thesis by blast
qed

theorem gemini_request_roundtrip_witness:
  "\<exists>b1. gemini_rebuild 6 (body_of gemini_data) [\<lparr>trole = lit ''system'', ttext = lit ''a''\<rparr>, \<lparr>trole = lit ''assistant'', ttext = lit ''b''\<rparr>] = Inr b1 \<and>
    gemini_extract_turns 6 b1 = Inr [\<lparr>trole = lit ''system'', ttext = lit ''a''\<rparr>, \<lparr>trole = lit ''assistant'', ttext = lit ''b''\<rparr>]"
proof -
  let ?ts = "[\<lparr>trole = lit ''system'', ttext = lit ''a''\<rparr>, \<lparr>trole = lit ''assistant'', ttext = lit ''b''\<rparr>]"
  let ?ms = "[PDict [(lit ''role'', PStr (lit ''model'')), (m_parts, text_parts (lit ''hi''))]]"
  have "json_ok 6 (PDict gemini_data)" "dict_get gemini_data m_contents = Some (PList ?ms)"
    "split_system gemini_data ?ts = Some (Some \<lparr>trole = lit ''system'', ttext = lit ''a''\<rparr>, [\<lparr>trole = lit ''assistant'', ttext = lit ''b''\<rparr>])"
    "list_all2 item_fits ?ms [\<lparr>trole = lit ''assistant'', ttext = lit ''b''\<rparr>]" by code_simp+
  then have "gemini_fits 6 (body_of gemini_data) ?ts" unfolding gemini_fits_def
    by (intro conjI exI [of _ gemini_data] exI [of _ ?ms] exI [of _ "Some \<lparr>trole = lit ''system'', ttext = lit ''a''\<rparr>"]
        exI [of _ "[\<lparr>trole = lit ''assistant'', ttext = lit ''b''\<rparr>]"]) (simp_all add: body_of_ok)
  from gemini_request_roundtrip [OF this this] show ?thesis by blast
qed

end
