(* ===== verification/Events.thy ===== *)
theory Events
  imports Json Vault
begin

text \<open>
  The audit log (\<open>app/logging/events.py\<close>) and the in-process bus (\<open>app/logging/bus.py\<close>). The table
  \<open>log_events\<close> is a list of rows, the JSONL file a list of lines, a subscriber's \<open>queue.Queue\<close> the list
  of its events. Whether the database is reachable, whether it admits a row (\<open>admits\<close>: a
  JSONB value must hold no NUL, ...) and whether the file can be appended to come from outside.
  Instants are seconds since the epoch, with the microseconds of the clocks.
\<close>

section \<open>Timestamps and ids\<close>

text \<open>The date of a day number since 1970-01-01, and \<open>isoformat()\<close> in a zone of whole hours.\<close>

definition civil_date :: "int \<Rightarrow> int \<times> int \<times> int" where
  "civil_date days =
     (let z = days + 719468; era = z div 146097; doe = z mod 146097;
          yoe = (doe - doe div 1460 + doe div 36524 - doe div 146096) div 365;
          doy = doe - (365 * yoe + yoe div 4 - yoe div 100);
          mp = (5 * doy + 2) div 153;
          d = doy - (153 * mp + 2) div 5 + 1;
          m = (if mp < 10 then mp + 3 else mp - 9)
      in (yoe + era * 400 + (if m \<le> 2 then 1 else 0), m, d))"

fun padded :: "nat \<Rightarrow> int \<Rightarrow> pystr" where
  "padded 0 n = []"
| "padded (Suc k) n = padded k (n div 10) @ [48 + n mod 10]"

definition iso_format :: "int \<Rightarrow> pyfloat \<Rightarrow> pystr" where
  "iso_format zone t =
     (let us = \<lfloor>t * 1000000\<rfloor> + zone * 3600000000; s = us div 1000000; f = us mod 1000000;
          (y, m, d) = civil_date (s div 86400); r = s mod 86400
      in padded 4 y @ lit ''-'' @ padded 2 m @ lit ''-'' @ padded 2 d @ lit ''T'' @
         padded 2 (r div 3600) @ lit '':'' @ padded 2 (r div 60 mod 60) @ lit '':'' @ padded 2 (r mod 60) @
         (if f = 0 then [] else lit ''.'' @ padded 6 f) @ lit ''+'' @ padded 2 zone @ lit '':00'')"

definition KST :: int where "KST = 9"

text \<open>\<open>str(uuid)\<close>\<close>

definition uuid_str :: "int \<Rightarrow> pystr" where
  "uuid_str u = (let h = hex_fixed 32 u in
     slice 0 8 h @ [45] @ slice 8 12 h @ [45] @ slice 12 16 h @ [45] @ slice 16 20 h @ [45] @ slice 20 32 h)"

section \<open>Events\<close>

type_synonym dict = "(pystr \<times> pyval) list"

record audit_event =
  le_session_id :: pystr
  le_direction :: pystr
  le_provider :: pyval
  le_verdict_action :: pystr
  le_latency_ms :: int
  le_purpose :: pyval
  le_transforms :: pyval
  le_entities_summary :: pyval
  le_guardrail_hits :: pyval
  le_fail_policy_applied :: bool
  le_reason :: "dict option"
  le_created_at :: pystr

record log_row =
  lr_event_id :: int
  lr_session :: int
  lr_direction :: pystr
  lr_provider :: pyval
  lr_purpose :: pyval
  lr_verdict_action :: pystr
  lr_transforms :: pyval
  lr_entities_summary :: pyval
  lr_guardrail_hits :: pyval
  lr_fail_policy_applied :: bool
  lr_latency_ms :: int
  lr_reason :: "dict option"
  lr_created_at :: "pyfloat option"

definition or_empty :: "pyval \<Rightarrow> pyval" where
  "or_empty v = (if truthy v then v else PList [])"

definition serialize_event :: "log_row \<Rightarrow> bool \<Rightarrow> dict" where
  "serialize_event row include_reason =
     (let reason = (case lr_reason row of None \<Rightarrow> [] | Some d \<Rightarrow> d);
          get = (\<lambda>k. case dict_get reason k of None \<Rightarrow> PNone | Some v \<Rightarrow> v) in
      [(lit ''event_id'', PInt (lr_event_id row)), (lit ''session_id'', PStr (uuid_str (lr_session row))),
       (lit ''session_id_raw'', get (lit ''session_id_raw'')), (lit ''direction'', PStr (lr_direction row)),
       (lit ''provider'', lr_provider row), (lit ''purpose'', lr_purpose row),
       (lit ''verdict_action'', PStr (lr_verdict_action row)), (lit ''transforms'', or_empty (lr_transforms row)),
       (lit ''entities_summary'', or_empty (lr_entities_summary row)), (lit ''guardrail_hits'', or_empty (lr_guardrail_hits row)),
       (lit ''fail_policy_applied'', PBool (lr_fail_policy_applied row)), (lit ''latency_ms'', PInt (lr_latency_ms row)),
       (lit ''risk_score'', get (lit ''risk_score'')), (lit ''note'', get (lit ''note'')),
       (lit ''created_at'', case lr_created_at row of None \<Rightarrow> PNone | Some t \<Rightarrow> PStr (iso_format KST t))] @
      (if include_reason then [(lit ''reason'', PDict reason)] else []))"

section \<open>The bus\<close>

definition SUBSCRIBER_MAXSIZE :: nat where "SUBSCRIBER_MAXSIZE = 1000"

text \<open>A queue is its identity and its events, oldest first.\<close>

record bus =
  subscribers :: "(nat \<times> dict list) list"
  next_queue :: nat

definition new_bus :: bus where "new_bus = \<lparr>subscribers = [], next_queue = 0\<rparr>"

definition subscribe :: "bus \<Rightarrow> bus \<times> nat" where
  "subscribe b = (b\<lparr>subscribers := subscribers b @ [(next_queue b, [])], next_queue := Suc (next_queue b)\<rparr>, next_queue b)"

definition unsubscribe :: "nat \<Rightarrow> bus \<Rightarrow> bus" where
  "unsubscribe q b = b\<lparr>subscribers := filter (\<lambda>(i, es). i \<noteq> q) (subscribers b)\<rparr>"

definition put_nowait :: "dict \<Rightarrow> dict list \<Rightarrow> dict list" where
  "put_nowait e es = (if length es < SUBSCRIBER_MAXSIZE then es @ [e] else es)"

definition publish :: "dict \<Rightarrow> bus \<Rightarrow> bus" where
  "publish e b = b\<lparr>subscribers := map (\<lambda>(i, es). (i, put_nowait e es)) (subscribers b)\<rparr>"

text \<open>\<open>q.get\<close> of a subscriber: nothing when its queue is empty (or no longer subscribed and empty).\<close>

definition take_event :: "nat \<Rightarrow> bus \<Rightarrow> bus \<times> dict option" where
  "take_event q b =
     (case map_of (subscribers b) q of
        Some (e # es) \<Rightarrow> (b\<lparr>subscribers := map (\<lambda>(i, xs). (i, if i = q then es else xs)) (subscribers b)\<rparr>, Some e)
      | _ \<Rightarrow> (b, None))"

section \<open>The sinks\<close>

record sinks =
  sk_rows :: "log_row list"
  sk_seq :: int
  sk_lines :: "bytes list"
  sk_bus :: bus
  sk_file :: "nat \<Rightarrow> bool"

definition log_row_of :: "vault_env \<Rightarrow> int \<Rightarrow> pyfloat \<Rightarrow> audit_event \<Rightarrow> log_row" where
  "log_row_of env i now e =
     \<lparr>lr_event_id = i, lr_session = coerce_session_uuid env (le_session_id e), lr_direction = le_direction e,
      lr_provider = le_provider e, lr_purpose = le_purpose e, lr_verdict_action = le_verdict_action e,
      lr_transforms = le_transforms e, lr_entities_summary = le_entities_summary e, lr_guardrail_hits = le_guardrail_hits e,
      lr_fail_policy_applied = le_fail_policy_applied e, lr_latency_ms = le_latency_ms e,
      lr_reason = Some (dict_set (lit ''session_id_raw'') (PStr (le_session_id e)) (case le_reason e of None \<Rightarrow> [] | Some d \<Rightarrow> d)),
      lr_created_at = Some now\<rparr>"

definition write_pg :: "vault_env \<Rightarrow> (log_row \<Rightarrow> bool) \<Rightarrow> bool \<Rightarrow> pyfloat \<Rightarrow> audit_event \<Rightarrow> sinks \<Rightarrow> sinks \<times> unit result" where
  "write_pg env admits up now e s =
     (let row = log_row_of env (sk_seq s) now e in
      if \<not> up \<or> \<not> admits row then (s, Inl DbError)
      else (s\<lparr>sk_rows := sk_rows s @ [row], sk_seq := sk_seq s + 1, sk_bus := publish (serialize_event row False) (sk_bus s)\<rparr>, Inr ()))"

text \<open>\<open>json.dumps(asdict(event), ensure_ascii=False) + "\n"\<close>\<close>

definition event_dict :: "audit_event \<Rightarrow> dict" where
  "event_dict e =
     [(lit ''session_id'', PStr (le_session_id e)), (lit ''direction'', PStr (le_direction e)), (lit ''provider'', le_provider e),
      (lit ''verdict_action'', PStr (le_verdict_action e)), (lit ''latency_ms'', PInt (le_latency_ms e)), (lit ''purpose'', le_purpose e),
      (lit ''transforms'', le_transforms e), (lit ''entities_summary'', le_entities_summary e), (lit ''guardrail_hits'', le_guardrail_hits e),
      (lit ''fail_policy_applied'', PBool (le_fail_policy_applied e)),
      (lit ''reason'', case le_reason e of None \<Rightarrow> PNone | Some d \<Rightarrow> PDict d), (lit ''created_at'', PStr (le_created_at e))]"

definition event_line :: "audit_event \<Rightarrow> bytes result" where
  "event_line e = utf8_encode (json_dumps (PDict (event_dict e)) @ [10])"

definition log_event :: "audit_event \<Rightarrow> sinks \<Rightarrow> sinks \<times> unit result" where
  "log_event e s =
     (let up = sk_file s 0; s = s\<lparr>sk_file := (\<lambda>k. sk_file s (Suc k))\<rparr> in
      if \<not> up then (s, Inl RuntimeError)
      else case event_line e of Inl x \<Rightarrow> (s, Inl x) | Inr l \<Rightarrow> (s\<lparr>sk_lines := sk_lines s @ [l]\<rparr>, Inr ()))"

section \<open>Properties of the bus\<close>

text \<open>
  Every step of the publishers and of the subscribers. A trace records, for one queue, what was
  published while it was subscribed, what its owner has taken, and what a full queue refused.
\<close>

record feed =
  published :: "dict list"
  taken :: "dict list"
  dropped :: bool

inductive bus_step :: "nat \<Rightarrow> bus \<times> feed \<Rightarrow> bus \<times> feed \<Rightarrow> bool" for q where
  bus_publish: "bus_step q (b, f) (publish e b, f\<lparr>published := published f @ [e],
      dropped := dropped f \<or> (\<exists>es. map_of (subscribers b) q = Some es \<and> SUBSCRIBER_MAXSIZE \<le> length es)\<rparr>)"
| bus_take: "take_event q b = (b', Some e) \<Longrightarrow> bus_step q (b, f) (b', f\<lparr>taken := taken f @ [e]\<rparr>)"
| bus_other_take: "i \<noteq> q \<Longrightarrow> bus_step q (b, f) (fst (take_event i b), f)"
| bus_subscribe: "bus_step q (b, f) (fst (subscribe b), f)"
| bus_unsubscribe: "i \<noteq> q \<Longrightarrow> bus_step q (b, f) (unsubscribe i b, f)"

inductive_cases bus_stepE: "bus_step q (b, f) (b', f')"

definition queue_of :: "bus \<Rightarrow> nat \<Rightarrow> dict list option" where
  "queue_of b q = map_of (subscribers b) q"

definition bus_ok :: "bus \<Rightarrow> bool" where
  "bus_ok b \<longleftrightarrow> distinct (map fst (subscribers b)) \<and> (\<forall>(i, es) \<in> set (subscribers b). i < next_queue b \<and> length es \<le> SUBSCRIBER_MAXSIZE)"

definition feed_ok :: "nat \<Rightarrow> bus \<times> feed \<Rightarrow> bool" where
  "feed_ok q = (\<lambda>(b, f). \<exists>es. queue_of b q = Some es \<and> (dropped f \<or> taken f @ es = published f))"

lemma map_of_map_subs: "map_of (map (\<lambda>(i, es). (i, g i es)) xs) q = map_option (g q) (map_of xs q)"
  by (induction xs) auto

lemma queue_of_publish [simp]: "queue_of (publish e b) q = map_option (put_nowait e) (queue_of b q)"
  by (simp add: queue_of_def publish_def map_of_map_subs)

lemma queue_of_subscribe: "queue_of b q = Some es \<Longrightarrow> queue_of (fst (subscribe b)) q = Some es"
  by (simp add: queue_of_def subscribe_def)

lemma queue_of_unsubscribe: "i \<noteq> q \<Longrightarrow> queue_of (unsubscribe i b) q = queue_of b q"
proof -
  have "i \<noteq> q \<Longrightarrow> map_of (filter (\<lambda>(j, es). j \<noteq> i) xs) q = map_of xs q" for xs :: "(nat \<times> dict list) list"
    by (induction xs) auto
  then show "i \<noteq> q \<Longrightarrow> queue_of (unsubscribe i b) q = queue_of b q" by (simp add: queue_of_def unsubscribe_def)
qed

lemma take_event_cases:
  obtains (some) e es where "queue_of b i = Some (e # es)"
      "take_event i b = (b\<lparr>subscribers := map (\<lambda>(j, xs). (j, if j = i then es else xs)) (subscribers b)\<rparr>, Some e)"
    | (none) "take_event i b = (b, None)"
  by (cases "queue_of b i"; cases "the (queue_of b i)") (auto simp: take_event_def queue_of_def)

lemma map_fst_subs: "map fst (map (\<lambda>(i, es). (i, g i es)) xs) = map fst xs"
  by (induction xs) auto

lemma bus_ok_map: "bus_ok b \<Longrightarrow> \<forall>(i, es) \<in> set (subscribers b). length (g i es) \<le> SUBSCRIBER_MAXSIZE \<Longrightarrow>
    bus_ok (b\<lparr>subscribers := map (\<lambda>(i, es). (i, g i es)) (subscribers b)\<rparr>)"
  by (auto simp: bus_ok_def map_fst_subs simp del: map_map)

lemma bus_ok_publish: "bus_ok b \<Longrightarrow> bus_ok (publish e b)"
  unfolding publish_def by (rule bus_ok_map) (auto simp: put_nowait_def bus_ok_def)

lemma bus_ok_take: "bus_ok b \<Longrightarrow> bus_ok (fst (take_event i b))"
proof (cases rule: take_event_cases [of b i])
  case (some e es)
  assume ok: "bus_ok b"
  have "(i, e # es) \<in> set (subscribers b)" using some(1) by (auto simp: queue_of_def dest: map_of_SomeD)
  with ok have "length es \<le> SUBSCRIBER_MAXSIZE" by (auto simp: bus_ok_def)
  with ok show ?thesis unfolding some(2) fst_conv by (intro bus_ok_map [OF ok]) (auto simp: bus_ok_def)
qed simp

lemma bus_ok_subscribe: "bus_ok b \<Longrightarrow> bus_ok (fst (subscribe b))"
  by (fastforce simp: bus_ok_def subscribe_def)

lemma bus_ok_unsubscribe: "bus_ok b \<Longrightarrow> bus_ok (unsubscribe i b)"
  by (auto simp: bus_ok_def unsubscribe_def intro: distinct_map_filter)

lemma bus_step_inv:
  assumes "bus_step q s s'" "bus_ok (fst s) \<and> feed_ok q s"
  shows "bus_ok (fst s') \<and> feed_ok q s'"
  using assms
proof (induction rule: bus_step.induct)
  case (bus_publish b f e)
  then obtain es where es: "queue_of b q = Some es" "dropped f \<or> taken f @ es = published f" by (auto simp: feed_ok_def)
  then show ?case using bus_publish
    by (cases "length es < SUBSCRIBER_MAXSIZE") (auto simp: feed_ok_def bus_ok_publish put_nowait_def queue_of_def [symmetric])
next
  case (bus_take b b' e f)
  with bus_ok_take [of b q] show ?case
    by (cases rule: take_event_cases [of b q]) (auto simp: feed_ok_def queue_of_def map_of_map_subs)
next
  case (bus_other_take i b f)
  with bus_ok_take [of b i] show ?case
    by (cases rule: take_event_cases [of b i]) (auto simp: feed_ok_def queue_of_def map_of_map_subs)
next
  case (bus_subscribe b f)
  then show ?case by (auto simp: feed_ok_def bus_ok_subscribe dest: queue_of_subscribe)
next
  case (bus_unsubscribe i b f)
  then show ?case by (auto simp: feed_ok_def bus_ok_unsubscribe queue_of_unsubscribe)
qed

section \<open>Properties\<close>

text \<open>From its subscription on, under every interleaving of publishers and readers, a subscriber takes the
  events in the order they were published, each at most once and none missing, until its queue has been
  full; its queue then still holds at most 1000 events.\<close>

theorem bus_delivers_in_order:
  assumes "bus_ok b" "(bus_step q)\<^sup>*\<^sup>* (fst (subscribe b), \<lparr>published = [], taken = [], dropped = False\<rparr>) (b', f)" "q = snd (subscribe b)"
  shows "\<exists>es. queue_of b' q = Some es \<and> length es \<le> SUBSCRIBER_MAXSIZE \<and> (dropped f \<or> taken f @ es = published f)"
proof -
  let ?s0 = "(fst (subscribe b), \<lparr>published = [], taken = [], dropped = False\<rparr>)"
  have "map_of (subscribers b) q = None"
    using assms(1,3) by (fastforce simp: bus_ok_def subscribe_def map_of_eq_None_iff)
  then have "queue_of (fst (subscribe b)) q = Some []" using assms(3) by (simp add: queue_of_def subscribe_def map_add_def)
  then have "bus_ok (fst ?s0) \<and> feed_ok q ?s0" using assms(1) by (simp add: bus_ok_subscribe feed_ok_def)
  with assms(2) have "bus_ok b' \<and> feed_ok q (b', f)"
    by (induction rule: rtranclp_induct2) (use bus_step_inv in fastforce)+
  moreover have "length es \<le> SUBSCRIBER_MAXSIZE" if "bus_ok b'" "queue_of b' q = Some es" for es
    using that by (auto simp: bus_ok_def queue_of_def dest: map_of_SomeD)
  ultimately show ?thesis by (auto simp: feed_ok_def)
qed

theorem bus_delivers_in_order_witness:
  "queue_of (publish [(lit ''a'', PInt 1)] (fst (subscribe new_bus))) 0 = Some [[(lit ''a'', PInt 1)]]"
proof -
  let ?b = "fst (subscribe new_bus)" and ?f = "\<lparr>published = [], taken = [], dropped = False\<rparr>" and ?e = "[(lit ''a'', PInt 1)]"
  have "\<not> (\<exists>es. map_of (subscribers ?b) 0 = Some es \<and> SUBSCRIBER_MAXSIZE \<le> length es)"
    by (simp add: subscribe_def new_bus_def SUBSCRIBER_MAXSIZE_def)
  with bus_publish [of 0 ?b ?f ?e] have "bus_step 0 (?b, ?f) (publish ?e ?b, \<lparr>published = [?e], taken = [], dropped = False\<rparr>)" by simp
  then have "(bus_step 0)\<^sup>*\<^sup>* (?b, ?f) (publish ?e ?b, \<lparr>published = [?e], taken = [], dropped = False\<rparr>)" by (rule r_into_rtranclp)
  moreover have "bus_ok new_bus" "0 = snd (subscribe new_bus)" by (simp_all add: bus_ok_def new_bus_def subscribe_def)
  ultimately show ?thesis using bus_delivers_in_order [of new_bus 0 "publish ?e ?b"] by fastforce
qed

end
