(* ===== verification/Echo.thy ===== *)
theory Echo
  imports Transform
begin

text \<open>
  Input and output of one session together: what \<open>transform_stage\<close> put in place of the values,
  \<open>detokenize_stage\<close> takes out again when the response carries the text back to the same requester.
  The first part says which matches \<open>TOKEN_LABEL_RE\<close> has in a text of plain pieces and labels.
\<close>

section \<open>Matches of a label\<close>

text \<open>A label as the pattern reads it.\<close>

definition label_like :: "pystr \<Rightarrow> bool" where
  "label_like l \<longleftrightarrow> (\<exists>e n. l = lit ''<PII:'' @ e @ lit '':'' @ n @ lit ''>'' \<and> e \<noteq> [] \<and> n \<noteq> [] \<and>
     (\<forall>c \<in> set e. in_cls False False [Rng 65 90, Lit 95] c) \<and> (\<forall>c \<in> set n. is_decimal c))"

lemma rm_label_iff:
  "(\<exists>d. (j, d) \<in> set (rm TOKEN_LABEL_RE False t i c)) \<longleftrightarrow> (\<exists>l. label_like l \<and> drop i t = l @ drop j t \<and> j = i + length l)"
  (is "?m \<longleftrightarrow> ?rhs")
proof
  assume ?m
  then obtain a b e n where
    m: "drop i t = lit ''<PII:'' @ drop (i + 5) t" "e \<noteq> []" "\<forall>x \<in> set e. in_cls False False [Rng 65 90, Lit 95] x"
    "drop (i + 5) t = e @ drop a t" "a = i + 5 + length e" "drop a t = lit '':'' @ drop (Suc a) t"
    "n \<noteq> []" "\<forall>x \<in> set n. in_cls False False [Dig] x" "drop (Suc a) t = n @ drop b t" "b = Suc a + length n"
    "drop b t = lit ''>'' @ drop (Suc b) t" "j = Suc b"
    by (auto simp: TOKEN_LABEL_RE_def rm_iff rm_text_re word_def rm_Plus_drop eval_nat_numeral simp del: rm.simps)
  let ?l = "lit ''<PII:'' @ e @ lit '':'' @ n @ lit ''>''"
  have "label_like ?l" unfolding label_like_def using m(2,3,7,8) by (intro exI [of _ e] exI [of _ n]) (simp add: in_cls_def)
  moreover have "drop i t = ?l @ drop j t" using m(1,4,6,9,11,12) by simp
  moreover have "j = i + length ?l" using m(5,10,12) by simp
  ultimately show ?rhs by blast
next
  assume ?rhs
  then obtain l0 where l0: "label_like l0" "drop i t = l0 @ drop j t" "j = i + length l0" by blast
  from l0(1) obtain e n where en: "l0 = lit ''<PII:'' @ e @ lit '':'' @ n @ lit ''>''" "e \<noteq> []" "n \<noteq> []"
    "\<forall>x \<in> set e. in_cls False False [Rng 65 90, Lit 95] x" "\<forall>x \<in> set n. is_decimal x"
    unfolding label_like_def by blast
  have l: "e \<noteq> []" "\<forall>x \<in> set e. in_cls False False [Rng 65 90, Lit 95] x" "n \<noteq> []"
    "\<forall>x \<in> set n. in_cls False False [Dig] x"
    "drop i t = lit ''<PII:'' @ e @ lit '':'' @ n @ lit ''>'' @ drop j t" "j = i + 7 + length e + length n"
    using en l0(2,3) by (simp_all add: in_cls_def)
  let ?a = "i + 5 + length e" let ?b = "Suc ?a + length n"
  have d: "drop (i + 5) t = e @ lit '':'' @ n @ lit ''>'' @ drop j t"
    using arg_cong [OF l(5), of "drop 5"] by (simp add: lit_def add.commute)
  have a: "drop ?a t = lit '':'' @ n @ lit ''>'' @ drop j t"
    using arg_cong [OF d, of "drop (length e)"] by (simp add: add.commute)
  have a1: "drop (Suc ?a) t = n @ lit ''>'' @ drop j t" using arg_cong [OF a, of "drop 1"] by (simp add: lit_def)
  have b: "drop ?b t = lit ''>'' @ drop j t" using arg_cong [OF a1, of "drop (length n)"] by (simp add: add.commute)
  have j: "j = Suc ?b" using l(6) by simp
  let ?c1 = "(1, i + 5, ?a) # c"
  let ?c2 = "(2, Suc ?a, ?b) # ?c1"
  have s1: "(i + 5, c) \<in> set (rm (word ''<PII:'') False t i c)"
    using l(5) d by (simp add: word_def rm_text_re)
  have s2: "(?a, ?c1) \<in> set (rm (Grp 1 (Plus (Cls False [Rng 65 90, Lit 95]))) False t (i + 5) c)"
    using d a l(1,2) by (simp add: rm_Grp rm_Plus_drop del: rm.simps)
  have s3: "(Suc ?a, ?c1) \<in> set (rm (word '':'') False t ?a ?c1)"
    using a a1 by (simp add: word_def rm_text_re)
  have s4: "(?b, ?c2) \<in> set (rm (Grp 2 (Plus Digit)) False t (Suc ?a) ?c1)"
    using a1 b l(3,4) by (simp add: rm_Grp rm_Plus_drop del: rm.simps)
  have s5: "(j, ?c2) \<in> set (rm (word ''>'') False t ?b ?c2)"
    using b j by (simp add: word_def rm_text_re)
  show ?m
    unfolding TOKEN_LABEL_RE_def seqs.simps rm_Seq using s1 s2 s3 s4 s5 by blast
qed

lemma not_digit_sign: "\<not> is_decimal 62"
  by code_simp

lemma label_like_unique:
  assumes "label_like l" "label_like l'" "l @ r = l' @ r'"
  shows "l = l'"
proof -
  have chars: "58 \<notin> set e \<and> 62 \<notin> set n"
    if "\<forall>c \<in> set e. in_cls False False [Rng 65 90, Lit 95] c" "\<forall>c \<in> set n. is_decimal c" for e n
    using that not_digit_sign by (auto simp: in_cls_def)
  obtain e n where l: "l = lit ''<PII:'' @ e @ lit '':'' @ n @ lit ''>''" "58 \<notin> set e" "62 \<notin> set n"
    using assms(1) chars unfolding label_like_def by blast
  obtain e' n' where l': "l' = lit ''<PII:'' @ e' @ lit '':'' @ n' @ lit ''>''" "58 \<notin> set e'" "62 \<notin> set n'"
    using assms(2) chars unfolding label_like_def by blast
  have upto: "takeWhile (\<lambda>c. c \<noteq> k) (x @ k # y) = x" if "k \<notin> set x" for k :: int and x y
    using that by (auto simp: takeWhile_append)
  have eq: "e @ 58 # (n @ 62 # r) = e' @ 58 # (n' @ 62 # r')" using assms(3) by (simp add: l(1) l'(1) lit_def)
  then have "e = e'" using upto [OF l(2)] upto [OF l'(2)] by metis
  with eq have eq2: "n @ 62 # r = n' @ 62 # r'" by simp
  then have "n = n'" using upto [OF l(3)] upto [OF l'(3)] by metis
  with \<open>e = e'\<close> show ?thesis by (simp add: l(1) l'(1))
qed

lemma label_like_60: "label_like l \<Longrightarrow> \<exists>r. l = 60 # r"
  by (auto simp: label_like_def lit_def)

lemma match_label:
  assumes "label_like l" "drop i t = l @ r"
  shows "\<exists>m. match_at TOKEN_LABEL_RE False t i = Some m \<and> mstart m = i \<and> mend m = i + length l"
proof -
  have "drop (i + length l) t = r" using drop_appendD [OF assms(2)] assms(2) by simp
  then have "\<exists>d. (i + length l, d) \<in> set (rm TOKEN_LABEL_RE False t i [])"
    unfolding rm_label_iff using assms by auto
  then obtain j d rest where jd: "rm TOKEN_LABEL_RE False t i [] = (j, d) # rest"
    by (metis list.exhaust list.set(1) empty_iff prod.collapse)
  then have "\<exists>d. (j, d) \<in> set (rm TOKEN_LABEL_RE False t i [])" by auto
  then obtain l' where "label_like l'" "drop i t = l' @ drop j t" "j = i + length l'" unfolding rm_label_iff by blast
  with label_like_unique [OF assms(1), of l' r "drop j t"] assms(2) have "j = i + length l" by simp
  with jd show ?thesis by (simp add: match_at_def)
qed

lemma no_match_plain: "drop i t = c # r \<Longrightarrow> c \<noteq> 60 \<Longrightarrow> match_at TOKEN_LABEL_RE False t i = None"
proof (rule ccontr)
  assume c: "drop i t = c # r" "c \<noteq> 60" and "match_at TOKEN_LABEL_RE False t i \<noteq> None"
  then obtain m where "match_at TOKEN_LABEL_RE False t i = Some m" by blast
  with match_at_Some have "\<exists>d. (mend m, d) \<in> set (rm TOKEN_LABEL_RE False t i [])" by blast
  then obtain l where "label_like l" "drop i t = l @ drop (mend m) t" unfolding rm_label_iff by blast
  with label_like_60 c show False by fastforce
qed

lemma no_match_end: "match_at TOKEN_LABEL_RE False t (length t) = None"
proof (rule ccontr)
  assume "match_at TOKEN_LABEL_RE False t (length t) \<noteq> None"
  then obtain m where "match_at TOKEN_LABEL_RE False t (length t) = Some m" by blast
  with match_at_Some have "\<exists>d. (mend m, d) \<in> set (rm TOKEN_LABEL_RE False t (length t) [])" by blast
  then show False unfolding rm_label_iff using label_like_60 by auto
qed

section \<open>Substituting labels in a text of plain characters and labels\<close>

abbreviation "labels_from t i \<equiv> re_finditer_from TOKEN_LABEL_RE False t i"

lemma labels_plain: "drop i t = c # r \<Longrightarrow> c \<noteq> 60 \<Longrightarrow> labels_from t i = labels_from t (Suc i)"
  using no_match_plain [of i t c r] by (subst re_finditer_from.simps) (auto simp: not_less dest: drop_eq_Nil [THEN iffD2, OF less_imp_le])

lemma labels_end: "labels_from t (length t) = []"
  by (subst re_finditer_from.simps) (simp add: no_match_end, subst re_finditer_from.simps, simp)

lemma labels_label:
  assumes "label_like l" "drop i t = l @ r"
  shows "\<exists>m. labels_from t i = m # labels_from t (i + length l) \<and> mstart m = i \<and> mend m = i + length l \<and> group0 t m = l"
proof -
  obtain m where m: "match_at TOKEN_LABEL_RE False t i = Some m" "mstart m = i" "mend m = i + length l"
    using match_label [OF assms] by blast
  have "i < length t" "l \<noteq> []" using assms label_like_60 [OF assms(1)] by (auto simp: not_less dest: arg_cong [of _ _ length])
  then have "labels_from t i = m # labels_from t (i + length l)"
    using m by (subst re_finditer_from.simps) (auto simp: max_def Suc_le_eq)
  moreover have "group0 t m = l" using m assms(2) by (simp add: group0_def slice_def)
  ultimately show ?thesis using m by blast
qed

lemma drop_ConsD: "drop i t = c # r \<Longrightarrow> drop (Suc i) t = r \<and> i < length t \<and> t ! i = c"
  by (metis Cons_nth_drop_Suc drop_eq_Nil linorder_not_less list.distinct(1) list.inject)

lemma sub_state_shift:
  assumes "drop i t = c # r" "\<forall>m \<in> set ms. i < mstart m"
  shows "snd (sub_state f t i ms st) = c # snd (sub_state f t (Suc i) ms st)"
proof -
  have i: "i < length t" "t ! i = c" "drop (Suc i) t = r" using drop_ConsD [OF assms(1)] by auto
  show ?thesis
  proof (cases ms)
    case Nil
    then show ?thesis using assms(1) i by simp
  next
    case (Cons m ms')
    then have "i < mstart m" using assms(2) by simp
    then obtain k where "mstart m = Suc (i + k)" by (metis less_iff_Suc_add)
    then have "slice i (mstart m) t = c # slice (Suc i) (mstart m) t"
      using assms(1) i(3) by (simp add: slice_def)
    then show ?thesis using Cons by (simp add: case_prod_beta Let_def)
  qed
qed

definition pieces :: "(pychar + pystr) list \<Rightarrow> pystr" where
  "pieces ps = concat (map (\<lambda>p. case p of Inl c \<Rightarrow> [c] | Inr l \<Rightarrow> l) ps)"

lemma sub_state_pieces:
  assumes "\<And>st m. I st \<Longrightarrow> group0 t m \<in> L \<Longrightarrow> I (fst (f st m)) \<and> snd (f st m) = val (group0 t m)"
  shows "I st \<Longrightarrow> i \<le> length t \<Longrightarrow> drop i t = pieces ps \<Longrightarrow>
    \<forall>p \<in> set ps. case p of Inl c \<Rightarrow> c \<noteq> 60 | Inr l \<Rightarrow> l \<in> L \<and> label_like l \<Longrightarrow>
    snd (sub_state f t i (labels_from t i) st) = concat (map (\<lambda>p. case p of Inl c \<Rightarrow> [c] | Inr l \<Rightarrow> val l) ps)"
proof (induction ps arbitrary: i st)
  case Nil
  then have "i = length t" by (simp add: pieces_def)
  then show ?case by (simp add: labels_end)
next
  case (Cons p ps)
  show ?case
  proof (cases p)
    case (Inl c)
    have d: "drop i t = c # pieces ps" using Cons.prems(3) by (simp add: Inl pieces_def)
    have i: "Suc i \<le> length t" using d by (metis Suc_leI drop_eq_Nil linorder_not_less list.distinct(1))
    have "drop (Suc i) t = pieces ps" using drop_ConsD [OF d] by simp
    from Cons.IH [OF Cons.prems(1) i this] Cons.prems(4)
    have "snd (sub_state f t (Suc i) (labels_from t (Suc i)) st) = concat (map (\<lambda>p. case p of Inl c \<Rightarrow> [c] | Inr l \<Rightarrow> val l) ps)"
      by simp
    moreover have "labels_from t i = labels_from t (Suc i)" using labels_plain [OF d] Cons.prems(4) Inl by simp
    moreover have "\<forall>m \<in> set (labels_from t (Suc i)). i < mstart m" using finditer_from_sound by fastforce
    ultimately show ?thesis using sub_state_shift [OF d, of "labels_from t (Suc i)" f st] Inl by simp
  next
    case (Inr l)
    have d: "drop i t = l @ pieces ps" using Cons.prems(3) by (simp add: Inr pieces_def)
    have l: "l \<in> L" "label_like l" using Cons.prems(4) Inr by auto
    obtain m where m: "labels_from t i = m # labels_from t (i + length l)" "mstart m = i" "mend m = i + length l" "group0 t m = l"
      using labels_label [OF l(2) d] by blast
    have f: "I (fst (f st m))" "snd (f st m) = val l" using assms [OF Cons.prems(1), of m] m(4) l(1) by auto
    have "drop (i + length l) t = pieces ps" using drop_appendD [OF d] d by simp
    moreover have "i + length l \<le> length t" using arg_cong [OF d, of length] Cons.prems(2) by simp
    ultimately have "snd (sub_state f t (i + length l) (labels_from t (i + length l)) (fst (f st m))) =
        concat (map (\<lambda>p. case p of Inl c \<Rightarrow> [c] | Inr l \<Rightarrow> val l) ps)"
      using Cons.prems(4) by (intro Cons.IH f(1)) auto
    then show ?thesis using m f(2) Inr by (simp add: case_prod_beta Let_def)
  qed
qed

section \<open>Labels of the vault\<close>

lemma vault_type_chars: "e \<in> vault_types \<Longrightarrow> e \<noteq> [] \<and> (\<forall>c \<in> set e. in_cls False False [Rng 65 90, Lit 95] c)"
  by (auto simp: vault_types_def ENTITY_TYPES_def lit_def in_cls_def)

lemma label_like_fmt: "e \<in> vault_types \<Longrightarrow> label_like (token_label_fmt e n)"
  unfolding label_like_def token_label_fmt_def
  using vault_type_chars [of e] py_str_nat_digits [of _ n]
  by (intro exI [of _ e] exI [of _ "py_str_nat n"]) (auto simp: is_decimal_ascii)

lemma look_label_like:
  assumes "restoring env sid V now now' sc rl pu st" "vault_look env sid now' rl pu st l = Some v"
  shows "label_like l"
proof -
  obtain r where r: "r \<in> set (vrows st)" "token_label r = l" using look_Some_row [OF assms] by blast
  then obtain i where "i < length (vrows st)" "vrows st ! i = r" by (metis in_set_conv_nth)
  moreover have "numbered (vrows st)" using assms(1) by (simp add: restoring_def)
  ultimately show ?thesis using label_like_fmt r(2) by (force simp: numbered_def)
qed

lemma look_rows:
  "vrows st = vrows st' \<Longrightarrow> snd (detokenize env up now sid l rl pu st) = snd (detokenize env up now sid l rl pu st')"
  unfolding detokenize_def fail_closed_def log_access_def bind_result_def
  by (simp split: option.splits sum.splits prod.splits bool.splits)

section \<open>The vault after rendering\<close>

text \<open>At the time \<open>now'\<close> of the response, whatever the times of the request were, the contract of
  the token store holds for the scope of the request.\<close>

definition ready :: "transform_env \<Rightarrow> ctx \<Rightarrow> (pystr \<times> pystr) set \<Rightarrow> pyfloat \<Rightarrow> world \<Rightarrow> bool" where
  "ready env c V now' w \<longleftrightarrow> (\<forall>k. restoring (t_vault env) (session_id c) V (w_clock w k) now'
     (Some (access_scope_of c)) (role c) (purpose c) (w_vault w))"

abbreviation "look_in env c now' w \<equiv> vault_look (t_vault env) (session_id c) now' (role c) (purpose c) (w_vault w)"

lemma restoring_other_time:
  "restoring env sid V now now' sc rl pu st \<Longrightarrow> restoring env sid V t now' sc rl pu st0 \<Longrightarrow> restoring env sid V t now' sc rl pu st"
  by (simp add: restoring_def)

lemma tokenize_span_ready:
  assumes "ready env c V now' w" "storable_value V (stype s, svalue s)" "tokenize_span env c s w = (w', v)"
  shows "ready env c V now' w' \<and> (\<forall>l x. look_in env c now' w l = Some x \<longrightarrow> look_in env c now' w' l = Some x) \<and>
    (v = REDACT_TEXT \<or> look_in env c now' w' v = Some (svalue s))"
proof -
  let ?now = "w_clock w 0"
  let ?tok = "vault_tok (t_vault env) (session_id c) ?now (Some (access_scope_of c)) (stype s, svalue s) (w_vault w)"
  have r: "restoring (t_vault env) (session_id c) V ?now now' (Some (access_scope_of c)) (role c) (purpose c) (w_vault w)"
    using assms(1) unfolding ready_def by blast
  have clock: "w_clock w' = (\<lambda>k. w_clock w (Suc k))"
    using assms(3) by (auto simp: tokenize_span_def case_prod_beta Let_def read_clock_def connect_def)
  show ?thesis
  proof (cases "w_db w 0")
    case True
    have tok: "w_vault w' = fst ?tok" "v = (case snd ?tok of None \<Rightarrow> REDACT_TEXT | Some l \<Rightarrow> l)"
      using assms(3) True
      by (auto simp: tokenize_span_def vault_tok_def world_simps case_prod_beta Let_def split: sum.splits)
    have "ready env c V now' w'" unfolding ready_def clock tok(1)
      using assms(1) vault_store.tok_inv [OF r assms(2)] unfolding ready_def by (blast intro: restoring_other_time)
    moreover have "look_in env c now' w' v = Some (svalue s)" if nr: "v \<noteq> REDACT_TEXT"
    proof -
      obtain l where "snd ?tok = Some l" "v = l" using tok(2) nr by (cases "snd ?tok") auto
      then have "?tok = (w_vault w', Some v)" using tok(1) by (metis prod.collapse)
      from vault_store.tok_look [OF r assms(2) this] show ?thesis by simp
    qed
    ultimately show ?thesis using vault_store.tok_keep [OF r assms(2)] tok(1) by auto
  next
    case False
    have "w_vault w' = w_vault w" "v = REDACT_TEXT"
      using assms(3) False
      by (auto simp: tokenize_span_def tokenize_def world_simps case_prod_beta Let_def split: sum.splits)
    then show ?thesis using assms(1) by (auto simp: ready_def clock)
  qed
qed

definition echoable :: "(pystr \<times> pystr) set \<Rightarrow> (span \<times> pystr) list \<Rightarrow> bool" where
  "echoable V sas \<longleftrightarrow> (\<forall>(s, a) \<in> set sas. a = lit ''keep'' \<or> a = lit ''tokenize'' \<and> storable_value V (stype s, svalue s))"

lemma echoable_Cons: "echoable V ((s, a) # sas) \<longleftrightarrow>
    (a = lit ''keep'' \<or> a = lit ''tokenize'' \<and> storable_value V (stype s, svalue s)) \<and> echoable V sas"
  by (simp add: echoable_def)

lemma render_values_ready:
  assumes "ready env c V now' w" "echoable V sas" "render_values env c sas w = (w', vs)" "REDACT_TEXT \<notin> set vs"
  shows "ready env c V now' w' \<and> (\<forall>l x. look_in env c now' w l = Some x \<longrightarrow> look_in env c now' w' l = Some x) \<and>
    list_all2 (\<lambda>(s, a) v. if a = lit ''tokenize'' then look_in env c now' w' v = Some (svalue s) else v = svalue s) sas vs"
  using assms
proof (induction sas arbitrary: w vs)
  case (Cons x sas)
  obtain s a where x: "x = (s, a)" by (cases x)
  obtain w1 v where wv: "render env c a s w = (w1, v)" by fastforce
  obtain vs' where vs: "render_values env c sas w1 = (w', vs')" "vs = v # vs'"
    using Cons.prems(2,3) wv
    by (intro that [of "snd (render_values env c sas w1)"]) (auto simp: x echoable_Cons case_prod_beta Let_def)
  have red: "v \<noteq> REDACT_TEXT" "REDACT_TEXT \<notin> set vs'" using Cons.prems(4) vs(2) by auto
  have e: "echoable V sas" using Cons.prems(2) by (simp add: x echoable_Cons)
  have one: "ready env c V now' w1 \<and> (\<forall>l x. look_in env c now' w l = Some x \<longrightarrow> look_in env c now' w1 l = Some x) \<and>
      (if a = lit ''tokenize'' then look_in env c now' w1 v = Some (svalue s) else v = svalue s)"
  proof (cases "a = lit ''tokenize''")
    case True
    then have "tokenize_span env c s w = (w1, v)" using wv by (simp add: render_def)
    from tokenize_span_ready [OF Cons.prems(1) _ this] Cons.prems(2) True red(1) show ?thesis
      by (simp add: x echoable_Cons)
  next
    case False
    with Cons.prems(2) wv have "w1 = w" "v = svalue s" by (auto simp: x echoable_Cons render_def)
    with False Cons.prems(1) show ?thesis by simp
  qed
  from Cons.IH [OF _ e vs(1) red(2)] one show ?case by (auto simp: x vs(2))
qed simp

section \<open>The transformed text in pieces\<close>

fun echo_pieces :: "pystr \<Rightarrow> nat \<Rightarrow> (span \<times> pystr) list \<Rightarrow> pystr list \<Rightarrow> (pychar + pystr) list" where
  "echo_pieces t i ((s, a) # sas) (v # vs) =
     map Inl (slice i (sstart s) t) @ (if a = lit ''tokenize'' then [Inr v] else map Inl v) @ echo_pieces t (send s) sas vs"
| "echo_pieces t i sas vs = map Inl (drop i t)"

lemma pieces_simps [simp]: "pieces (map Inl s @ ps) = s @ pieces ps" "pieces (map Inl s) = s" "pieces (Inr l # ps) = l @ pieces ps"
  by (induction s) (simp_all add: pieces_def)

lemma restored_simps [simp]: "concat (map (case_sum (\<lambda>c. [c]) val \<circ> Inl) s) = s"
  by (induction s) simp_all

lemma pieces_weave: "length vs = length sas \<Longrightarrow> pieces (echo_pieces t i sas vs) = weave t i (ranges sas vs)"
  by (induction t i sas vs rule: echo_pieces.induct) (auto simp: ranges_def)

lemma echo_restores:
  "in_order t (ranges sas vs) \<Longrightarrow> \<forall>x \<in> set (ranges sas vs). i \<le> fst x \<Longrightarrow> \<forall>(s, a) \<in> set sas. span_of t s \<Longrightarrow>
   list_all2 (\<lambda>(s, a) v. (if a = lit ''tokenize'' then val v else v) = svalue s) sas vs \<Longrightarrow>
   concat (map (\<lambda>p. case p of Inl c \<Rightarrow> [c] | Inr l \<Rightarrow> val l) (echo_pieces t i sas vs)) = drop i t"
proof (induction t i sas vs rule: echo_pieces.induct)
  case (1 t i s a sas v vs)
  have o: "sstart s < send s" "i \<le> sstart s" "\<forall>x \<in> set (ranges sas vs). send s \<le> fst x" "in_order t (ranges sas vs)"
    using "1.prems"(1,2) by (auto simp: ranges_def in_order_Cons)
  have v: "(if a = lit ''tokenize'' then val v else v) = slice (sstart s) (send s) t"
    using "1.prems"(3,4) by (auto simp: span_of_def)
  have ih: "concat (map (\<lambda>p. case p of Inl c \<Rightarrow> [c] | Inr l \<Rightarrow> val l) (echo_pieces t (send s) sas vs)) = drop (send s) t"
    using "1.prems"(3,4) o(3,4) by (intro "1.IH") auto
  have "slice i (sstart s) t @ slice (sstart s) (send s) t @ drop (send s) t = drop i t"
    using o(1,2) by (simp add: slice_drop)
  then show ?case using v ih by (cases "a = lit ''tokenize''") simp_all
qed simp_all

lemma echo_pieces_plain:
  "60 \<notin> set t \<Longrightarrow> list_all2 (\<lambda>(s, a) v. if a = lit ''tokenize'' then P v else 60 \<notin> set v) sas vs \<Longrightarrow>
   \<forall>p \<in> set (echo_pieces t i sas vs). case p of Inl c \<Rightarrow> c \<noteq> 60 | Inr l \<Rightarrow> P l"
proof (induction t i sas vs rule: echo_pieces.induct)
  case (1 t i s a sas v vs)
  have "60 \<notin> set (slice i (sstart s) t)" using "1.prems"(1) set_slice [of i "sstart s" t] by blast
  with 1 show ?case by (auto split: if_splits)
qed (auto dest: in_set_dropD)

section \<open>Properties\<close>

lemma load_session_alive: "snd (load_session env sid w) \<noteq> None \<Longrightarrow> w_vault (fst (load_session env sid w)) = w_vault w"
  by (auto simp: load_session_def store_load_def case_prod_beta world_simps fire_on_expire_fold split: option.splits if_splits)

lemma get_last_purpose_alive:
  assumes "get_last_purpose env sid w = (w', Inr (Some p))"
  shows "w_vault w' = w_vault w"
proof -
  let ?g = "fst (get_store w)"
  have "\<not> c_loop env" using assms by (auto simp: get_last_purpose_def run_sync_def)
  then have "snd (load_session env sid ?g) \<noteq> None" "w' = fst (load_session env sid ?g)"
    using assms by (auto simp: get_last_purpose_def run_sync_def case_prod_beta split: option.splits)
  with load_session_alive [of env sid ?g] show ?thesis by (simp add: world_simps)
qed

lemma detokenize_text_ready:
  fixes now :: "nat \<Rightarrow> rat"
  assumes look: "\<And>k l. l \<in> L \<Longrightarrow> vault_look env sid (now k) rl pu st l = Some (val l)"
    and "\<forall>k. up k" "body = pieces ps"
    "\<forall>p \<in> set ps. case p of Inl c \<Rightarrow> c \<noteq> 60 | Inr l \<Rightarrow> l \<in> L \<and> label_like l"
  shows "snd (detokenize_text env up now sid body rl pu st) = concat (map (\<lambda>p. case p of Inl c \<Rightarrow> [c] | Inr l \<Rightarrow> val l) ps)"
  unfolding detokenize_text_def re_finditer_def
proof (rule sub_state_pieces [where I = "\<lambda>(k, st'). vrows st' = vrows st" and L = L])
  fix x :: "nat \<times> vault" and m assume x: "case x of (k, st') \<Rightarrow> vrows st' = vrows st" and m: "group0 body m \<in> L"
  obtain k st' where k: "x = (k, st')" by (cases x)
  have "snd (detokenize env (up k) (now k) sid (group0 body m) rl pu st') = Some (val (group0 body m))"
    using look [OF m, of k] look_rows [of st' st] x k assms(2) by (simp add: vault_look_def)
  then show "(case fst ((\<lambda>(k, st) m. let (st', original) = detokenize env (up k) (now k) sid (group0 body m) rl pu st
         in ((Suc k, st'), case original of None \<Rightarrow> group0 body m | Some v \<Rightarrow> v)) x m) of (k, st') \<Rightarrow> vrows st' = vrows st) \<and>
      snd ((\<lambda>(k, st) m. let (st', original) = detokenize env (up k) (now k) sid (group0 body m) rl pu st
         in ((Suc k, st'), case original of None \<Rightarrow> group0 body m | Some v \<Rightarrow> v)) x m) = val (group0 body m)"
    using x k by (simp add: case_prod_beta Let_def)
qed (use assms(3,4) in simp_all)

text \<open>A text woven from labels the vault knows and values without \<open><\<close> is restored to the original.\<close>

lemma woven_restored:
  assumes "60 \<notin> set t" "disjoint_spans (map fst sas)" "\<forall>(s, a) \<in> set sas. span_of t s" "length vs = length sas" "\<forall>k. up k"
    "\<And>k. list_all2 (\<lambda>(s, a) v. if a = lit ''tokenize'' then vault_look env sid (clock k) rl pu st v = Some (svalue s) else v = svalue s) sas vs"
    "\<And>l x. vault_look env sid (clock 0) rl pu st l = Some x \<Longrightarrow> label_like l"
  shows "snd (detokenize_text env up clock sid (weave t 0 (ranges sas vs)) rl pu st) = t"
proof -
  define val where "val v = the (vault_look env sid (clock 0) rl pu st v)" for v
  define L where "L = {v. \<forall>k. vault_look env sid (clock k) rl pu st v = Some (val v)}"
  have lab: "label_like v" if "v \<in> L" for v using that assms(7) unfolding L_def by blast
  have at: "if a = lit ''tokenize'' then vs ! i \<in> L \<and> val (vs ! i) = svalue s else vs ! i = svalue s"
    if "i < length sas" "sas ! i = (s, a)" for i s a
    using list_all2_nthD [OF assms(6) that(1)] that(2) by (auto simp: L_def val_def)
  have sp: "60 \<notin> set (svalue s) \<and> span_of t s" if "i < length sas" "sas ! i = (s, a)" for i s a
  proof -
    have "(s, a) \<in> set sas" using that by (metis nth_mem)
    with assms(3) have "span_of t s" by blast
    with assms(1) set_slice [of "sstart s" "send s" t] show ?thesis by (auto simp: span_of_def)
  qed
  have all: "list_all2 (\<lambda>(s, a) v. if a = lit ''tokenize'' then v \<in> L \<and> label_like v else 60 \<notin> set v) sas vs"
    "list_all2 (\<lambda>(s, a) v. (if a = lit ''tokenize'' then val v else v) = svalue s) sas vs"
    using at sp lab by (auto simp: list_all2_conv_all_nth assms(4) split: prod.split if_splits)
  let ?ps = "echo_pieces t 0 sas vs"
  have "snd (detokenize_text env up clock sid (pieces ?ps) rl pu st) = concat (map (\<lambda>p. case p of Inl c \<Rightarrow> [c] | Inr l \<Rightarrow> val l) ?ps)"
  proof (rule detokenize_text_ready [OF _ assms(5) refl])
    show "vault_look env sid (clock k) rl pu st l = Some (val l)" if "l \<in> L" for k l
      using that by (simp add: L_def)
    show "\<forall>p \<in> set ?ps. case p of Inl c \<Rightarrow> c \<noteq> 60 | Inr l \<Rightarrow> l \<in> L \<and> label_like l"
      by (rule echo_pieces_plain [OF assms(1) all(1)])
  qed
  also have "\<dots> = drop 0 t"
    by (rule echo_restores [OF in_order_ranges [OF assms(2,3,4)] _ assms(3) all(2)]) simp
  finally show ?thesis by (simp add: pieces_weave [OF assms(4)])
qed

text \<open>C5: What went out as labels comes back: when a response carries the transformed text unchanged, the
  same requester in the same session gets the original text, character by character. The text
  must not contain the opening sign of a label, the actions are to keep or to tokenize, no
  tokenization failed, and the tokens have not expired.\<close>

theorem echo_restored:
  assumes "turns c \<noteq> []" "t = ttext (last (turns c))" "60 \<notin> set t"
    "disjoint_spans (map fst (span_actions c))" "\<forall>(s, a) \<in> set (span_actions c). span_of t s"
    "echoable V (span_actions c)" "REDACT_TEXT \<notin> set (snd (render_values env c (span_actions c) w))"
    "transform_stage env c w = (w', Inr c')"
    "direction r = lit ''output''" "session_id r = session_id c" "role r = role c" "turns r = [last (turns c')]"
    "snd (get_last_purpose (t_ctx env) (session_id c) w') = Inr (purpose c)" "purpose c \<noteq> None"
    "\<forall>k. w_db w k" "\<forall>k. ready env c V (w_clock w k) w" "world_ok (t_ctx env) w"
  shows "\<exists>w3 r'. detokenize_stage env r w' = (w3, Inr r') \<and> map ttext (turns r') = [t]"
proof -
  let ?sas = "span_actions c"
  define w2 where "w2 = fst (get_last_purpose (t_ctx env) (session_id c) w')"
  have g: "get_last_purpose (t_ctx env) (session_id c) w' = (w2, Inr (purpose c))"
    using assms(13) by (simp add: w2_def prod_eq_iff)
  have l: "later (t_ctx env) w w'" "w_store w' = w_store w" "w_acc w' = w_acc w" using transform_ok [OF assms(8)] by auto
  have "world_ok (t_ctx env) w'"
    using assms(17) l by (intro world_okI [OF assms(17) l(1)]) (auto simp: store_of_def world_ok_def)
  then have "later (t_ctx env) w w2" using get_last_purpose_ok [OF _ g] later_trans [OF l(1)] by blast
  then have clock: "range (w_clock w2) \<subseteq> range (w_clock w)" "range (w_db w2) \<subseteq> range (w_db w)" by (simp_all add: later_def)
  have up: "\<forall>k. w_db w2 k" using clock(2) assms(15) by (metis rangeE rangeI subset_eq)
  have rd: "ready env c V (w_clock w2 k) w" for k
  proof -
    obtain j where "w_clock w2 k = w_clock w j" using clock(1) by blast
    then show ?thesis using assms(16) by simp
  qed
  obtain vs where vs: "render_values env c ?sas w = (w', vs)" "ttext (last (turns c')) = weave t 0 (ranges ?sas vs)"
    "length vs = length ?sas" "butlast (turns c') = butlast (turns c)"
  proof -
    have "filter (\<lambda>(s, a). a = lit ''aggregate'') ?sas = []"
      using assms(6) by (auto simp: filter_empty_conv echoable_def)
    with transform_weave [OF assms(1,2,4,5,8)] render_all_values [where env = env and c = c and sas = ?sas and w = w]
    show thesis by (intro that [of "snd (render_values env c ?sas w)"]) (simp_all add: Let_def)
  qed
  have red: "REDACT_TEXT \<notin> set vs" using assms(7) vs(1) by simp
  note rdy = render_values_ready [OF _ assms(6) vs(1) red]
  have look: "list_all2 (\<lambda>(s, a) v. if a = lit ''tokenize'' then look_in env c (w_clock w2 k) w' v = Some (svalue s) else v = svalue s) ?sas vs" for k
    using rdy rd by blast
  have lab: "label_like l" if "look_in env c (w_clock w2 0) w' l = Some x" for l x
    using rdy rd that unfolding ready_def by (blast intro: look_label_like)
  have out: "snd (detokenize_text (t_vault env) (w_db w2) (w_clock w2) (session_id c) (ttext (last (turns c'))) (role c) (purpose c) (w_vault w')) = t"
    unfolding vs(2) by (rule woven_restored [OF assms(3-5) vs(3) up look lab])
  obtain p where "purpose c = Some p" using assms(14) by blast
  then have "w_vault w2 = w_vault w'" using get_last_purpose_alive g by simp
  with out show ?thesis
    using assms(9-12) g by (simp add: detokenize_stage_def case_prod_beta Let_def)
qed

definition echo_env :: transform_env where
  "echo_env = \<lparr>t_ctx = sample_context_env, t_year = 2026\<rparr>"

definition echo_ctx :: ctx where
  "echo_ctx = (sample_ctx ''s'')\<lparr>turns := [\<lparr>trole = lit ''user'', ttext = lit ''hi ab!''\<rparr>],
     span_actions := [(\<lparr>stype = lit ''RRN'', svalue = lit ''ab'', sstart = 3, send = 5, sconfidence = 1, ssource = lit ''dict''\<rparr>,
       lit ''tokenize'')]\<rparr>"

definition echo_world :: world where
  "echo_world = sample_world\<lparr>w_store :=
     Some (store_save ((new_session 0 (lit ''s'') None new_store)\<lparr>ss_purpose := Some (lit ''code_help'')\<rparr>) new_store, True)\<rparr>"

definition echo_reply :: ctx where
  "echo_reply = (new_ctx (lit ''s'') (lit ''output'') (lit ''gateway'') None
     [\<lparr>trole = lit ''user'', ttext = lit ''hi <PII:RRN:1>!''\<rparr>])"

lemma echo_world_simps: "w_clock echo_world k = 0" "w_db echo_world k" "w_vault echo_world = sample_vault"
  by (simp_all add: echo_world_def sample_world_def)

lemma echo_world_ok: "world_ok (t_ctx echo_env) echo_world"
  using sample_world_ok
  by (simp add: echo_env_def world_ok_def echo_world_def store_of_def sample_world_def store_save_def new_store_def store_inv_def
    session_ok_def entities_ok_def)

theorem echo_restored_witness:
  "\<exists>w3 r'. detokenize_stage echo_env echo_reply (fst (transform_stage echo_env echo_ctx echo_world)) = (w3, Inr r') \<and>
     map ttext (turns r') = [lit ''hi ab!'']"
proof -
  let ?V = "{(lit ''RRN'', lit ''ab'')}"
  let ?tr = "transform_stage echo_env echo_ctx echo_world"
  have ready: "ready echo_env echo_ctx ?V (w_clock echo_world k) echo_world" for k
  proof -
    have "fst (scope_allows (access_scope_of echo_ctx) None (Some (lit ''code_help'')))" by code_simp
    moreover have "varchar64 [] = Inr []" "map_option_result pg_text (Some (lit ''code_help'')) = Inr (Some (lit ''code_help''))" by code_simp+
    moreover have "role echo_ctx = None" "purpose echo_ctx = Some (lit ''code_help'')" by (simp_all add: echo_ctx_def sample_ctx_def new_ctx_def)
    ultimately show ?thesis
      by (simp add: ready_def restoring_def echo_world_simps echo_env_def sample_context_env_def crypto_ok_def sample_env_def lifetime_def
        hash_free_def sample_vault_def empty_vault_def numbered_def NONCE_BYTES_def)
  qed
  have "map_sum id (\<lambda>c. (map ttext (turns c), map trole (turns c))) (snd ?tr) = Inr ([lit ''hi <PII:RRN:1>!''], [lit ''user''])"
    by code_simp
  then obtain c' where c': "snd ?tr = Inr c'" "map ttext (turns c') = [lit ''hi <PII:RRN:1>!'']" "map trole (turns c') = [lit ''user'']"
    by (cases "snd ?tr") auto
  have tr: "?tr = (fst ?tr, Inr c')" using c'(1) by (metis prod.collapse)
  have reply: "turns echo_reply = [last (turns c')]" "direction echo_reply = lit ''output''" "session_id echo_reply = session_id echo_ctx"
    "role echo_reply = role echo_ctx"
    using c'(2,3) by (auto simp: echo_reply_def new_ctx_def echo_ctx_def sample_ctx_def map_eq_Cons_conv)
  have purpose: "snd (get_last_purpose (t_ctx echo_env) (session_id echo_ctx) (fst ?tr)) = Inr (purpose echo_ctx)" "purpose echo_ctx \<noteq> None"
    by code_simp+
  have body: "turns echo_ctx \<noteq> []" "lit ''hi ab!'' = ttext (last (turns echo_ctx))" "60 \<notin> set (lit ''hi ab!'')"
    by (simp_all add: echo_ctx_def lit_def)
  have spans: "disjoint_spans (map fst (span_actions echo_ctx))" "\<forall>(s, a) \<in> set (span_actions echo_ctx). span_of (lit ''hi ab!'') s"
    by (simp_all add: echo_ctx_def disjoint_spans_def span_of_def slice_def lit_def)
  have "normalize_entity_type (lit ''RRN'') = lit ''RRN''" "\<forall>c \<in> set (lit ''ab''). valid_char c" by code_simp+
  then have acts: "echoable ?V (span_actions echo_ctx)" by (simp add: echoable_def echo_ctx_def storable_value_def)
  have red: "REDACT_TEXT \<notin> set (snd (render_values echo_env echo_ctx (span_actions echo_ctx) echo_world))" by code_simp
  from echo_restored [OF body spans acts red tr reply(2-4) reply(1) purpose] ready echo_world_ok
  show ?thesis by (simp add: echo_world_simps)
qed

end
