(* ===== verification/Pipeline.thy ===== *)
theory Pipeline
  imports Config Adapters Events Echo
begin

text \<open>
  \<open>app/pipeline.py\<close>: \<open>analyze\<close> and what it calls. A stage may raise; the first exception of
  \<open>dispatch\<close> becomes the verdict \<open>fail_action\<close>. \<open>pipe_env\<close> holds what the process takes from outside,
  \<open>pipe_state\<close> everything it keeps between requests: the world of the stores, the cached
  rules, the detector's state and the audit sinks. The measured latency is an argument.
\<close>

section \<open>Environment and state\<close>

record 'm pipe_env =
  pe_transform :: transform_env
  pe_detect :: "'m detect_env"
  pe_policy :: policy_db
  pe_threshold :: "pyfloat result"
  pe_guard :: "guardrail_config result"
  pe_depth :: nat
  pe_admits :: "log_row \<Rightarrow> bool"

record 'm pipe_state =
  ps_world :: world
  ps_rules :: "ruleset option"
  ps_detect :: "'m detect_state"
  ps_sinks :: sinks

abbreviation "pe_ctx env \<equiv> t_ctx (pe_transform env)"

type_synonym 'm pipe_stage = "ctx \<Rightarrow> 'm pipe_state \<Rightarrow> 'm pipe_state \<times> ctx result"
type_synonym verdict = "bytes decision"

text \<open>The stages as functions of the whole state.\<close>

definition pure_stage :: "(ctx \<Rightarrow> ctx) \<Rightarrow> 'm pipe_stage" where
  "pure_stage f c st = (st, Inr (f c))"

definition world_stage :: "stage \<Rightarrow> 'm pipe_stage" where
  "world_stage f c st = (let (w, r) = f c (ps_world st) in (st\<lparr>ps_world := w\<rparr>, r))"

definition detect_stage :: "'m pipe_env \<Rightarrow> 'm pipe_stage" where
  "detect_stage env c st = (let (ds, c) = pii_detect_stage (pe_detect env) c (ps_detect st) in (st\<lparr>ps_detect := ds\<rparr>, Inr c))"

definition policy_stage :: "'m pipe_env \<Rightarrow> 'm pipe_stage" where
  "policy_stage env c st =
     (let ((cache, w), c) = purpose_policy_stage (pe_policy env) c (ps_rules st, ps_world st)
      in (st\<lparr>ps_rules := cache, ps_world := w\<rparr>, Inr c))"

definition INPUT_STAGES :: "'m pipe_env \<Rightarrow> 'm pipe_stage list" where
  "INPUT_STAGES env =
     [pure_stage (injection_guard (pe_threshold env)), detect_stage env, world_stage (multiturn_stage (pe_ctx env)),
      policy_stage env, world_stage (remember_purpose_stage (pe_ctx env)), world_stage (transform_stage (pe_transform env))]"

definition OUTPUT_STAGES :: "'m pipe_env \<Rightarrow> 'm pipe_stage list" where
  "OUTPUT_STAGES env = [pure_stage (output_guard (pe_guard env)), world_stage (detokenize_stage (pe_transform env))]"

fun run_stages :: "'m pipe_stage list \<Rightarrow> 'm pipe_stage" where
  "run_stages [] c st = (st, Inr c)"
| "run_stages (f # fs) c st =
     (case f c st of
        (st, Inl e) \<Rightarrow> (st, Inl e)
      | (st, Inr c) \<Rightarrow> if blocked c then (st, Inr c) else run_stages fs c st)"

section \<open>Verdicts\<close>

definition transforms_summary :: "ctx \<Rightarrow> pyval" where
  "transforms_summary c =
     PList (map (\<lambda>(s, a). PDict [(lit ''entity'', PStr (stype s)), (lit ''action'', PStr a)])
       (filter (\<lambda>(s, a). a \<noteq> lit ''keep'') (span_actions c)))"

definition entities_summary :: "ctx \<Rightarrow> pyval" where
  "entities_summary c =
     PList (map (\<lambda>s. PDict [(lit ''type'', PStr (stype s)), (lit ''confidence'', PFloat (py_round (sconfidence s) 4)),
       (lit ''masked_preview'', PStr (mask_preview s))]) (new_turn_spans c))"

definition reason_of :: "ctx \<Rightarrow> pystr \<Rightarrow> dict \<Rightarrow> dict" where
  "reason_of c verdict extra =
     dict_update
       [(lit ''verdict'', PStr verdict), (lit ''provider'', PStr (provider c)), (lit ''transforms'', transforms_summary c),
        (lit ''entities_summary'', entities_summary c), (lit ''purpose'', opt_str (purpose c)),
        (lit ''risk_score'', PFloat (py_round (risk_score c) 4)), (lit ''guardrail_hits'', PList []),
        (lit ''fail_policy_applied'', PBool False)] extra"

definition block_decision :: "ctx \<Rightarrow> dict \<Rightarrow> verdict" where
  "block_decision c extra = \<lparr>action = lit ''block'', transformed_body = None, reason_obj = reason_of c (lit ''block'') extra\<rparr>"

definition block_check :: "ctx \<Rightarrow> config \<Rightarrow> bool \<Rightarrow> verdict option" where
  "block_check c cfg check_risk =
     (if blocked c
      then Some (block_decision c [(lit ''guardrail_hits'',
             PList (case block_reason c of Some (kv # d) \<Rightarrow> [PDict (kv # d)] | _ \<Rightarrow> []))])
      else if ihit (injection c)
      then Some (block_decision c [(lit ''guardrail_hits'',
             PList [PDict [(lit ''type'', PStr (lit ''injection'')), (lit ''pattern'', opt_str (ipattern (injection c)))]])])
      else if check_risk \<and> hard_block (cfg_risk cfg) \<le> risk_score c
      then Some (block_decision c [(lit ''note'', PStr (lit ''risk_hard_block''))])
      else None)"

definition allow_decision :: "ctx \<Rightarrow> verdict" where
  "allow_decision c = \<lparr>action = lit ''allow'', transformed_body = None, reason_obj = reason_of c (lit ''allow'') []\<rparr>"

definition transform_decision :: "ctx \<Rightarrow> bytes \<Rightarrow> verdict" where
  "transform_decision c body = \<lparr>action = lit ''transform'', transformed_body = Some body, reason_obj = reason_of c (lit ''transform'') []\<rparr>"

section \<open>The two directions\<close>

text \<open>What follows the stages of a request, and of a response.\<close>

definition conclude_input :: "adapter \<Rightarrow> bytes \<Rightarrow> turn list \<Rightarrow> config \<Rightarrow> ctx \<Rightarrow> verdict result" where
  "conclude_input a body original cfg c =
     (case block_check c cfg True of
        Some d \<Rightarrow> Inr d
      | None \<Rightarrow>
          if map ttext (turns c) = map ttext original then Inr (allow_decision c)
          else bind_result (rebuild a body (turns c)) (\<lambda>new_body. Inr (transform_decision c new_body)))"

definition analyze_input :: "'m pipe_env \<Rightarrow> pystr \<Rightarrow> pystr \<Rightarrow> headers \<Rightarrow> bytes \<Rightarrow> config \<Rightarrow> 'm pipe_state \<Rightarrow> 'm pipe_state \<times> verdict result" where
  "analyze_input env sid path hs body cfg st =
     (case select_adapter (pe_depth env) path hs body of
        Inl e \<Rightarrow> (st, Inl e)
      | Inr a \<Rightarrow>
          (case extract_turns a body of
             Inl e \<Rightarrow> (st, Inl e)
           | Inr ts \<Rightarrow>
               (case run_stages (INPUT_STAGES env) (new_ctx sid (lit ''input'') (adapter_name a) (resolve_role (Some hs)) ts) st of
                  (st, Inl e) \<Rightarrow> (st, Inl e)
                | (st, Inr c) \<Rightarrow> (st, conclude_input a body ts cfg c))))"

definition conclude_output :: "adapter \<Rightarrow> bytes \<Rightarrow> pystr \<Rightarrow> config \<Rightarrow> ctx \<Rightarrow> verdict result" where
  "conclude_output a body t cfg c =
     (case block_check c cfg False of
        Some d \<Rightarrow> Inr d
      | None \<Rightarrow>
          let new_text = (case turns c of [] \<Rightarrow> t | u # us \<Rightarrow> ttext u)
          in if new_text = t then Inr (allow_decision c)
             else bind_result (rebuild_response a body new_text) (\<lambda>new_body. Inr (transform_decision c new_body)))"

definition analyze_output :: "'m pipe_env \<Rightarrow> pystr \<Rightarrow> pystr \<Rightarrow> headers \<Rightarrow> bytes \<Rightarrow> config \<Rightarrow> 'm pipe_state \<Rightarrow> 'm pipe_state \<times> verdict result" where
  "analyze_output env sid path hs body cfg st =
     (case select_adapter (pe_depth env) path hs body of
        Inl e \<Rightarrow> (st, Inl e)
      | Inr a \<Rightarrow>
          (case parse_response a body of
             Inl e \<Rightarrow> (st, Inl e)
           | Inr t \<Rightarrow>
               (case run_stages (OUTPUT_STAGES env) (new_ctx sid (lit ''output'') (adapter_name a) (resolve_role (Some hs))
                       [\<lparr>trole = lit ''assistant'', ttext = t\<rparr>]) st of
                  (st, Inl e) \<Rightarrow> (st, Inl e)
                | (st, Inr c) \<Rightarrow> (st, conclude_output a body t cfg c))))"

definition dispatch :: "'m pipe_env \<Rightarrow> pystr \<Rightarrow> pystr \<Rightarrow> pystr \<Rightarrow> headers \<Rightarrow> bytes \<Rightarrow> config \<Rightarrow> 'm pipe_state \<Rightarrow> 'm pipe_state \<times> verdict result" where
  "dispatch env sid dir path hs body cfg st =
     (if dir = lit ''input'' then analyze_input env sid path hs body cfg st
      else if dir = lit ''output'' then analyze_output env sid path hs body cfg st
      else (st, Inr \<lparr>action = lit ''allow'', transformed_body = None,
                     reason_obj = [(lit ''note'', PStr (lit ''unknown direction '' @ repr_str dir))]\<rparr>))"

section \<open>The audit record\<close>

definition audit_of :: "pystr \<Rightarrow> pystr \<Rightarrow> verdict \<Rightarrow> int \<Rightarrow> pyfloat \<Rightarrow> audit_event" where
  "audit_of sid dir d latency now =
     (let r = reason_obj d; get = get_or r in
      \<lparr>le_session_id = sid, le_direction = dir, le_provider = get (lit ''provider'') (PStr (lit ''unknown'')), le_verdict_action = action d,
       le_latency_ms = latency, le_purpose = get (lit ''purpose'') PNone, le_transforms = get (lit ''transforms'') (PList []),
       le_entities_summary = get (lit ''entities_summary'') (PList []), le_guardrail_hits = get (lit ''guardrail_hits'') (PList []),
       le_fail_policy_applied = truthy (get (lit ''fail_policy_applied'') (PBool False)), le_reason = Some r, le_created_at = iso_format 0 now\<rparr>)"

text \<open>\<open>write_pg\<close> reads the connection and the clock of the database.\<close>

definition write_pg_now :: "'m pipe_env \<Rightarrow> audit_event \<Rightarrow> 'm pipe_state \<Rightarrow> 'm pipe_state \<times> unit result" where
  "write_pg_now env e st =
     (let (w, up) = connect (ps_world st); (w, now) = read_clock w;
          (sk, r) = write_pg (c_vault (pe_ctx env)) (pe_admits env) up now e (ps_sinks st)
      in (st\<lparr>ps_world := w, ps_sinks := sk\<rparr>, r))"

definition log_event_now :: "audit_event \<Rightarrow> 'm pipe_state \<Rightarrow> 'm pipe_state \<times> unit result" where
  "log_event_now e st = (let (sk, r) = log_event e (ps_sinks st) in (st\<lparr>ps_sinks := sk\<rparr>, r))"

definition write_event :: "'m pipe_env \<Rightarrow> audit_event \<Rightarrow> config \<Rightarrow> 'm pipe_state \<Rightarrow> 'm pipe_state \<times> unit result" where
  "write_event env e cfg st =
     (if log_sink cfg = lit ''jsonl'' then log_event_now e st
      else case write_pg_now env e st of
        (st, Inl x) \<Rightarrow> log_event_now e st
      | (st, Inr _) \<Rightarrow> if log_sink cfg = lit ''both'' then log_event_now e st else (st, Inr ()))"

definition emit_log :: "'m pipe_env \<Rightarrow> pystr \<Rightarrow> pystr \<Rightarrow> verdict \<Rightarrow> int \<Rightarrow> config \<Rightarrow> 'm pipe_state \<Rightarrow> 'm pipe_state" where
  "emit_log env sid dir d latency cfg st =
     (let (w, now) = read_clock (ps_world st)
      in fst (write_event env (audit_of sid dir d latency now) cfg (st\<lparr>ps_world := w\<rparr>)))"

definition fail_decision :: "config \<Rightarrow> verdict" where
  "fail_decision cfg = \<lparr>action = fail_action cfg, transformed_body = None,
     reason_obj = [(lit ''fail_policy_applied'', PBool True), (lit ''stage'', PStr (lit ''pipeline''))]\<rparr>"

definition analyze :: "'m pipe_env \<Rightarrow> pystr \<Rightarrow> pystr \<Rightarrow> pystr \<Rightarrow> headers \<Rightarrow> bytes \<Rightarrow> config \<Rightarrow> int \<Rightarrow> 'm pipe_state \<Rightarrow> 'm pipe_state \<times> verdict" where
  "analyze env sid dir path hs body cfg latency st =
     (let (st, r) = dispatch env sid dir path hs body cfg st;
          d = (case r of Inl e \<Rightarrow> fail_decision cfg | Inr d \<Rightarrow> d)
      in (emit_log env sid dir d latency cfg st, d))"

end
