(* ===== verification/Rewrite.thy ===== *)
theory Rewrite
  imports Echo Json
begin

text \<open>
  The text that \<open>transform_stage\<close> sends on, as a function of the text, the actions and the values:
  what each action may put in the place of a span, and that the result can be encoded whenever the
  original could.
\<close>

section \<open>Values by action\<close>

text \<open>
  What takes the place of a span, by its action, and the text that results. A token is a label of
  the vault; when the vault fails it is the text of a redaction.
\<close>

definition rendered :: "int \<Rightarrow> span \<Rightarrow> pystr \<Rightarrow> pystr \<Rightarrow> bool" where
  "rendered year s act v \<longleftrightarrow>
     (if act = lit ''aggregate'' then v = []
      else if act = lit ''mask'' then v = mask (stype s) (svalue s)
      else if act = lit ''generalize'' then v = generalize year (stype s) (svalue s)
      else if act = lit ''tokenize'' then v = REDACT_TEXT \<or> (\<exists>e \<in> vault_types. \<exists>n. v = token_label_fmt e n)
      else if act = lit ''synthetic'' then \<exists>g. v = fst (synthetic (stype s) (svalue s) g)
      else if act = lit ''redact'' then v = REDACT_TEXT
      else v = svalue s)"

definition rewritten :: "pystr \<Rightarrow> (span \<times> pystr) list \<Rightarrow> pystr list \<Rightarrow> pystr" where
  "rewritten t sas vs =
     (let agg = filter (\<lambda>(s, a). a = lit ''aggregate'') sas; text = weave t 0 (ranges sas vs)
      in if agg = [] then text else append_aggregate_summary text (map (\<lambda>(s, a). svalue s) agg))"

lemma tokenize_label:
  assumes "numbered (vrows st)" "tokenize env up now sid et v sc st = (st', Inr l)"
  shows "\<exists>e \<in> vault_types. \<exists>n. l = token_label_fmt e n"
proof (cases rule: tokenize_cases [of env up now sid et v sc st])
  case (fails st' e)
  with assms(2) show ?thesis by simp
next
  case (found h row)
  then have "row \<in> set (vrows st)" by (auto simp: select_live_hash_def dest: find_Some_iff)
  then obtain i where "i < length (vrows st)" "vrows st ! i = row" by (auto simp: in_set_conv_nth)
  with assms(1) found(4) assms(2) show ?thesis by (auto simp: numbered_def)
next
  case (fresh h blob row st2)
  with assms(2) normalize_in_types [of et] show ?thesis by auto
qed

lemma later_numbered: "later env w w' \<Longrightarrow> numbered (vrows (w_vault w)) \<Longrightarrow> numbered (vrows (w_vault w'))"
proof -
  have "(vault_step e False)\<^sup>*\<^sup>* v v' \<Longrightarrow> numbered (vrows v) \<Longrightarrow> numbered (vrows v')" for e v v'
    by (induction rule: rtranclp_induct) (auto intro: step_numbered)
  then show "later env w w' \<Longrightarrow> numbered (vrows (w_vault w)) \<Longrightarrow> numbered (vrows (w_vault w'))" by (auto simp: later_def)
qed

lemma render_rendered:
  assumes "numbered (vrows (w_vault w))" "act \<noteq> lit ''aggregate''"
  shows "rendered (t_year env) s act (snd (render env c act s w))"
proof -
  have "snd (tokenize_span env c s w) = REDACT_TEXT \<or> (\<exists>e \<in> vault_types. \<exists>n. snd (tokenize_span env c s w) = token_label_fmt e n)"
    using tokenize_label [of "w_vault w"] assms(1)
    by (auto simp: tokenize_span_def case_prod_beta Let_def world_simps split: sum.splits) (metis prod.collapse)
  moreover have "\<exists>g. snd (synthetic_span s w) = fst (synthetic (stype s) (svalue s) g)"
    by (auto simp: synthetic_span_def case_prod_beta)
  ultimately show ?thesis using assms(2) by (simp add: rendered_def render_def)
qed

lemma render_values_rendered:
  "numbered (vrows (w_vault w)) \<Longrightarrow> list_all2 (\<lambda>(s, a) v. rendered (t_year env) s a v) sas (snd (render_values env c sas w))"
proof (induction sas arbitrary: w)
  case (Cons x sas)
  obtain s a where x: "x = (s, a)" by (cases x)
  let ?r = "if a = lit ''aggregate'' then (w, []) else render env c a s w"
  have "numbered (vrows (w_vault (fst ?r)))" using render_ok [of env w c a s] Cons.prems by (auto intro: later_numbered)
  moreover have "rendered (t_year env) s a (snd ?r)" using render_rendered [OF Cons.prems] by (auto simp: rendered_def)
  ultimately show ?case using Cons.IH by (simp add: x case_prod_beta Let_def)
qed simp

text \<open>The label of a token is that of a row of the vault which holds the value of the span.\<close>

definition stands_for :: "vault_env \<Rightarrow> pystr \<Rightarrow> vault \<Rightarrow> span \<Rightarrow> pystr \<Rightarrow> bool" where
  "stands_for venv sid st s l \<longleftrightarrow>
     (\<exists>h r. vault_hash venv sid (normalize_entity_type (stype s)) (svalue s) = Inr h \<and> row_for venv sid l h st r)"

lemma stands_for_later: "later env w w' \<Longrightarrow> stands_for (c_vault env) sid (w_vault w) s l \<Longrightarrow> stands_for (c_vault env) sid (w_vault w') s l"
proof -
  assume "later env w w'"
  then have steps: "(vault_step (c_vault env) False)\<^sup>*\<^sup>* (w_vault w) (w_vault w')" by (simp add: later_def)
  show "stands_for (c_vault env) sid (w_vault w) s l \<Longrightarrow> stands_for (c_vault env) sid (w_vault w') s l"
    unfolding stands_for_def using row_for_steps [OF steps] by (elim exE conjE) blast
qed

definition token_ok :: "transform_env \<Rightarrow> pystr \<Rightarrow> world \<Rightarrow> span \<times> pystr \<Rightarrow> pystr \<Rightarrow> bool" where
  "token_ok env sid w sa v \<longleftrightarrow> (snd sa = lit ''tokenize'' \<longrightarrow> v = REDACT_TEXT \<or> stands_for (t_vault env) sid (w_vault w) (fst sa) v)"

lemma tokenize_span_token:
  "snd (tokenize_span env c s w) = REDACT_TEXT \<or>
    stands_for (t_vault env) (session_id c) (w_vault (fst (tokenize_span env c s w))) s (snd (tokenize_span env c s w))"
proof -
  let ?w2 = "fst (read_clock (fst (connect w)))"
  let ?t = "tokenize (t_vault env) (snd (connect w)) (snd (read_clock (fst (connect w)))) (session_id c) (stype s) (svalue s)
      (Some (access_scope_of c)) (w_vault ?w2)"
  have eq: "tokenize_span env c s w = (?w2\<lparr>w_vault := fst ?t\<rparr>, case snd ?t of Inr l \<Rightarrow> l | Inl e \<Rightarrow> REDACT_TEXT)"
    by (simp add: tokenize_span_def case_prod_beta Let_def)
  show ?thesis
  proof (cases "snd ?t")
    case (Inl e)
    then show ?thesis by (simp add: eq)
  next
    case (Inr l)
    then have "?t = (fst ?t, Inr l)" by (simp add: prod_eq_iff)
    from tokenize_row_for [OF this] show ?thesis by (simp add: eq Inr stands_for_def)
  qed
qed

lemma render_token: "act \<noteq> lit ''aggregate'' \<Longrightarrow> token_ok env (session_id c) (fst (render env c act s w)) (s, act) (snd (render env c act s w))"
  using tokenize_span_token [of env c s w] by (auto simp: token_ok_def render_def)

lemma render_values_later: "later (t_ctx env) w (fst (render_values env c sas w))"
proof (induction sas arbitrary: w)
  case (Cons x sas)
  obtain s a where "x = (s, a)" by (cases x)
  then show ?case using Cons.IH render_ok [of env w c a s] by (auto simp: case_prod_beta Let_def intro: later_trans)
qed simp

lemma render_values_tokens:
  "list_all2 (token_ok env (session_id c) (fst (render_values env c sas w))) sas (snd (render_values env c sas w))"
proof (induction sas arbitrary: w)
  case (Cons x sas)
  obtain s a where x: "x = (s, a)" by (cases x)
  let ?r = "if a = lit ''aggregate'' then (w, []) else render env c a s w"
  have "token_ok env (session_id c) (fst ?r) (s, a) (snd ?r)"
    using render_token [of a env c s w] by (simp add: token_ok_def)
  then have "token_ok env (session_id c) (fst (render_values env c sas (fst ?r))) (s, a) (snd ?r)"
    using stands_for_later [OF render_values_later [of env "fst ?r" c sas]] by (auto simp: token_ok_def)
  with Cons.IH show ?case by (simp add: x case_prod_beta Let_def)
qed simp

lemma transform_rewritten:
  assumes "turns c \<noteq> []" "disjoint_spans (map fst (span_actions c))"
    "\<forall>(s, a) \<in> set (span_actions c). span_of (ttext (last (turns c))) s" "transform_stage env c w = (w', Inr c')"
  shows "turns c' = set_last_text (rewritten (ttext (last (turns c))) (span_actions c) (snd (render_values env c (span_actions c) w))) (turns c) \<and>
    w' = fst (render_values env c (span_actions c) w)"
proof -
  have "turns c' = turns c \<or> (\<exists>x. turns c' = set_last_text x (turns c))"
    using assms(4) by (auto simp: transform_stage_def Let_def split: prod.splits if_splits)
  then have "turns c' = set_last_text (ttext (last (turns c'))) (turns c)" using assms(1) by (auto simp: set_last_text_def)
  with transform_weave [OF assms(1) refl assms(2-4)] show ?thesis by (simp add: rewritten_def Let_def)
qed

section \<open>The rewritten text is text\<close>

named_theorems text_intros

lemma text_ok_simps [simp]:
  "text_ok []" "text_ok (c # s) \<longleftrightarrow> valid_char c \<and> text_ok s" "text_ok (s @ t) \<longleftrightarrow> text_ok s \<and> text_ok t"
  "text_ok (rev s) \<longleftrightarrow> text_ok s"
  by (auto simp: text_ok_def)

lemma text_ok_subset: "set s \<subseteq> set t \<Longrightarrow> text_ok t \<Longrightarrow> text_ok s"
  by (auto simp: text_ok_def)

lemma valid_small: "0 \<le> c \<Longrightarrow> c < 128 \<Longrightarrow> valid_char c"
  by (simp add: valid_char_def surrogate_def)

lemma set_tl_subset: "set (tl s) \<subseteq> set s"
  by (cases s) auto

lemma text_ok_parts [text_intros]:
  "text_ok s \<Longrightarrow> text_ok (take n s)" "text_ok s \<Longrightarrow> text_ok (drop n s)" "text_ok s \<Longrightarrow> text_ok (slice i j s)"
  "text_ok s \<Longrightarrow> text_ok (tl s)" "text_ok s \<Longrightarrow> text_ok (takeWhile P s)" "text_ok s \<Longrightarrow> text_ok (dropWhile P s)"
  "text_ok s \<Longrightarrow> text_ok (filter P s)" "text_ok s \<Longrightarrow> text_ok (rstrip s)"
  using set_tl_subset [of s]
  by (auto simp: slice_def rstrip_def text_ok_def dest: in_set_takeD in_set_dropD set_takeWhileD set_dropWhileD)

lemma text_ok_nat [simp]: "text_ok (py_str_nat n)"
  using py_str_nat_digits by (force simp: text_ok_def intro: valid_small)

lemma text_ok_mask_middle [text_intros]: "text_ok v \<Longrightarrow> text_ok (mask_middle v)"
  by (cases v rule: rev_cases; cases v) (auto simp: mask_middle_def text_ok_def star_def valid_char_def surrogate_def)

lemma text_ok_mask [text_intros]: "text_ok v \<Longrightarrow> text_ok (mask t v)"
proof -
  assume v: "text_ok v"
  have "text_ok (mask_rrn v)" using v
    by (auto simp: mask_rrn_def Let_def mask_generic_def only_digits_filter intro!: text_intros)
       (auto simp: text_ok_def lit_def star_def valid_small)
  moreover have "text_ok (mask_keep_last_digits k v)" for k using v
    by (auto simp: mask_keep_last_digits_def text_ok_def Let_def star_def valid_small enumerate_eq_zip dest: set_zip_rightD)
  moreover have "text_ok (mask_email v)" using v
    by (auto simp: mask_email_def mask_generic_def valid_small intro!: text_intros)
  ultimately show ?thesis using text_ok_mask_middle [OF v] by (simp add: mask_def mask_generic_def)
qed

lemma text_ok_lit [simp]: "text_ok (lit s)"
proof -
  have "valid_char (of_char c)" for c
    by (cases c) (simp add: of_char_def valid_char_def surrogate_def horner_sum_simps split: bool.split)
  then show ?thesis by (simp add: text_ok_def lit_def)
qed

lemma text_ok_generalize [text_intros]: "text_ok v \<Longrightarrow> text_ok (generalize y t v)"
  by (auto simp: generalize_def generalize_rrn_def Let_def GENDER_DIGIT_CENTURY_def valid_char_def surrogate_def
      intro: text_intros split: option.splits if_splits dest!: map_of_SomeD)

lemma text_ok_synthetic_chars: "text_ok v \<Longrightarrow> text_ok (fst (synthetic_chars v g))"
  by (induction v arbitrary: g) (auto simp: draw_def case_prod_beta Let_def intro!: valid_small)

lemma text_ok_fake_names: "\<forall>x \<in> set FAKE_NAMES. text_ok x"
  by code_simp

lemma text_ok_synthetic [text_intros]: "text_ok v \<Longrightarrow> text_ok (fst (synthetic t v g))"
proof -
  assume v: "text_ok v"
  have "g 0 mod length FAKE_NAMES < length FAKE_NAMES" by (simp add: FAKE_NAMES_def)
  then have "text_ok (FAKE_NAMES ! (g 0 mod length FAKE_NAMES))" using text_ok_fake_names nth_mem by blast
  then show ?thesis using v by (auto simp: synthetic_def draw_def Let_def intro!: text_intros text_ok_synthetic_chars)
qed

lemma text_ok_group: "text_ok s \<Longrightarrow> text_ok (group_thousands s)"
  by (induction s rule: group_thousands.induct) (auto simp: valid_small)

lemma text_ok_amount [simp]: "text_ok (format_amount x)"
  using text_ok_group [of "rev (py_str_nat (nat (rhe x)))"] by (simp add: format_amount_def)

lemma text_ok_summary [text_intros]: "text_ok v \<Longrightarrow> text_ok (append_aggregate_summary v xs)"
  by (simp add: append_aggregate_summary_def Let_def text_intros) (simp add: valid_char_def surrogate_def)

lemma text_ok_rendered: "rendered y s a v \<Longrightarrow> text_ok (svalue s) \<Longrightarrow> text_ok v"
proof -
  have "text_ok REDACT_TEXT" by code_simp
  moreover have "text_ok (token_label_fmt e n)" if "e \<in> vault_types" for e n
    using vault_type_chars [OF that] by (auto simp: token_label_fmt_def text_ok_def [of e] in_cls_def intro!: valid_small)
  ultimately show "rendered y s a v \<Longrightarrow> text_ok (svalue s) \<Longrightarrow> text_ok v"
    by (auto simp: rendered_def intro: text_intros split: if_splits)
qed

lemma text_ok_weave: "text_ok t \<Longrightarrow> \<forall>(a, b, v) \<in> set rs. text_ok v \<Longrightarrow> text_ok (weave t i rs)"
  by (induction t i rs rule: weave.induct) (auto intro: text_intros)

lemma text_ok_rewritten:
  assumes "text_ok t" "list_all2 (\<lambda>(s, a) v. rendered y s a v) sas vs" "\<forall>(s, a) \<in> set sas. span_of t s"
  shows "text_ok (rewritten t sas vs)"
proof -
  have "list_all2 (\<lambda>(s, a) v. text_ok v) sas vs" using assms(2)
  proof (rule list.rel_mono_strong)
    fix x v assume "x \<in> set sas" "(\<lambda>(s, a) v. rendered y s a v) x v"
    then show "(\<lambda>(s, a) v. text_ok v) x v" using assms(1,3) text_ok_rendered by (fastforce simp: span_of_def intro: text_intros)
  qed
  then have "\<forall>(a, b, v) \<in> set (ranges sas vs). text_ok v" by (auto simp: ranges_def list_all2_iff)
  from text_ok_weave [OF assms(1) this] show ?thesis by (auto simp: rewritten_def Let_def intro: text_intros)
qed

end
