(* ===== verification/Pipeline_Laws.thy ===== *)
theory Pipeline_Laws
  imports Pipeline Rewrite
begin

text \<open>
  What \<open>analyze\<close> promises: the shape of a verdict, what a failing or blocked request leaves behind,
  what has happened to a request that is not blocked, the audit record of every verdict, and the
  isolation of sessions over whole runs of the process.
\<close>

section \<open>What each stage changes\<close>

named_theorems pipe_simps

lemma guard_keeps [pipe_simps]:
  "session_id (injection_guard x c) = session_id c" "direction (injection_guard x c) = direction c"
  "provider (injection_guard x c) = provider c" "role (injection_guard x c) = role c" "turns (injection_guard x c) = turns c"
  "new_turn_spans (injection_guard x c) = new_turn_spans c" "risk_score (injection_guard x c) = risk_score c"
  "span_actions (injection_guard x c) = span_actions c" "purpose (injection_guard x c) = purpose c"
  by (simp_all add: injection_guard_def Let_def split: option.splits)

lemma guard_passes: "\<not> blocked (injection_guard x c) \<Longrightarrow> \<not> ihit (injection c) \<Longrightarrow> \<not> blocked c \<and> \<not> ihit (injection (injection_guard x c))"
  by (auto simp: injection_guard_def Let_def split: option.splits if_splits)

lemma multiturn_fields:
  "snd (multiturn_stage env c w) = Inr c' \<Longrightarrow> \<exists>x. c' = c\<lparr>risk_score := x, accumulated := group_by_type (new_turn_spans c) []\<rparr>"
  by (auto simp: multiturn_stage_def case_prod_beta Let_def split: sum.splits prod.splits)

lemma detect_fields:
  assumes "pii_detect_stage env c ds = (ds', c')" "turns c \<noteq> []"
  shows "detect env (ttext (last (turns c))) ds = (ds', new_turn_spans c') \<and> c' = c\<lparr>new_turn_spans := new_turn_spans c'\<rparr>"
  using assms by (auto simp: pii_detect_stage_def analyze_turn_def case_prod_beta)

lemma policy_keeps:
  assumes "purpose_policy_stage db c (cache, w) = ((cache', w'), c')"
  shows "session_id c' = session_id c" "turns c' = turns c" "risk_score c' = risk_score c" "injection c' = injection c"
    "direction c' = direction c" "new_turn_spans c' = new_turn_spans c" "role c' = role c" "w' = w \<or> w' = fst (connect w)"
proof -
  obtain p conf where cl: "classify (case last_user_text (turns c) of None \<Rightarrow> [] | Some t \<Rightarrow> t) = (p, conf)" by fastforce
  let ?c = "c\<lparr>purpose := Some p, purpose_confidence := Some conf\<rparr>"
  have "session_id c' = session_id c \<and> turns c' = turns c \<and> risk_score c' = risk_score c \<and> injection c' = injection c \<and>
    direction c' = direction c \<and> new_turn_spans c' = new_turn_spans c \<and> role c' = role c \<and> (w' = w \<or> w' = fst (connect w))"
  proof (cases rule: decide_spans_cases [where db = db and pu = p and ss = "new_turn_spans c" and c = ?c and cache = cache and w = w])
    case error
    with assms cl show ?thesis by (auto simp: purpose_policy_stage_def policy_error_def split: if_splits)
  next
    case (decided cache1 w1 rs)
    with assms cl show ?thesis by (auto simp: purpose_policy_stage_def stage_simps split: if_splits)
  qed
  then show "session_id c' = session_id c" "turns c' = turns c" "risk_score c' = risk_score c" "injection c' = injection c"
    "direction c' = direction c" "new_turn_spans c' = new_turn_spans c" "role c' = role c" "w' = w \<or> w' = fst (connect w)"
    by blast+
qed

lemma connect_ok: "world_ok env w \<Longrightarrow> world_ok env (fst (connect w)) \<and> later env w (fst (connect w)) \<and> store_of (fst (connect w)) = store_of w"
  by (auto simp: world_ok_def later_def world_simps)

lemma remember_keeps: "snd (remember_purpose_stage env c w) = Inr c' \<Longrightarrow> c' = c"
  by (auto simp: remember_purpose_stage_def split: sum.splits prod.splits if_splits)

lemma transform_keeps:
  assumes "transform_stage env c w = (w', Inr c')"
  shows "c' = c\<lparr>turns := turns c'\<rparr>"
  using transform_ok [OF assms] by auto

section \<open>A request that passes every stage\<close>

lemma run_stages_Cons:
  assumes "run_stages (f # fs) c st = (st', Inr c')" "\<not> blocked c'"
  obtains c1 st1 where "f c st = (st1, Inr c1)" "\<not> blocked c1" "run_stages fs c1 st1 = (st', Inr c')"
  using assms by (auto split: sum.splits prod.splits if_splits)

lemma stage_results:
  "pure_stage f c st = (st1, r) \<longleftrightarrow> st1 = st \<and> r = Inr (f c)"
  "detect_stage env c st = (st1, r) \<longleftrightarrow>
     (\<exists>ds c1. pii_detect_stage (pe_detect env) c (ps_detect st) = (ds, c1) \<and> st1 = st\<lparr>ps_detect := ds\<rparr> \<and> r = Inr c1)"
  "world_stage g c st = (st1, r) \<longleftrightarrow> (\<exists>w. g c (ps_world st) = (w, r) \<and> st1 = st\<lparr>ps_world := w\<rparr>)"
  "policy_stage env c st = (st1, r) \<longleftrightarrow>
     (\<exists>cache w c1. purpose_policy_stage (pe_policy env) c (ps_rules st, ps_world st) = ((cache, w), c1) \<and>
        st1 = st\<lparr>ps_rules := cache, ps_world := w\<rparr> \<and> r = Inr c1)"
  by (auto simp: pure_stage_def detect_stage_def world_stage_def policy_stage_def case_prod_beta Let_def) force+

lemma input_run:
  assumes "run_stages (INPUT_STAGES env) c0 st = (st', Inr c)" "\<not> blocked c"
  obtains ds c2 w3 c3 cache w4 c4 w5 w6 where
    "\<not> blocked (injection_guard (pe_threshold env) c0)"
    "pii_detect_stage (pe_detect env) (injection_guard (pe_threshold env) c0) (ps_detect st) = (ds, c2)"
    "multiturn_stage (pe_ctx env) c2 (ps_world st) = (w3, Inr c3)" "\<not> blocked c3"
    "purpose_policy_stage (pe_policy env) c3 (ps_rules st, w3) = ((cache, w4), c4)" "\<not> blocked c4"
    "remember_purpose_stage (pe_ctx env) c4 w4 = (w5, Inr c4)"
    "transform_stage (pe_transform env) c4 w5 = (w6, Inr c)"
    "st' = st\<lparr>ps_world := w6, ps_rules := cache, ps_detect := ds\<rparr>"
proof -
  from assms(1) obtain c1 st1 c2 st2 c3 st3 c4 st4 c5 st5 c6 st6 where
    run: "pure_stage (injection_guard (pe_threshold env)) c0 st = (st1, Inr c1)" "\<not> blocked c1"
      "detect_stage env c1 st1 = (st2, Inr c2)" "\<not> blocked c2"
      "world_stage (multiturn_stage (pe_ctx env)) c2 st2 = (st3, Inr c3)" "\<not> blocked c3"
      "policy_stage env c3 st3 = (st4, Inr c4)" "\<not> blocked c4"
      "world_stage (remember_purpose_stage (pe_ctx env)) c4 st4 = (st5, Inr c5)" "\<not> blocked c5"
      "world_stage (transform_stage (pe_transform env)) c5 st5 = (st6, Inr c6)" "\<not> blocked c6"
      "run_stages [] c6 st6 = (st', Inr c)"
    unfolding INPUT_STAGES_def by (elim run_stages_Cons [OF _ assms(2)]) (rule that)
  have "c5 = c4" using remember_keeps [of "pe_ctx env" c4 "ps_world st4" c5] run(9) by (auto simp: stage_results)
  with run that show ?thesis by (auto simp: stage_results)
qed

text \<open>
  What a request that passes is made to be: \<open>sas\<close> are the values the detector finds in its last turn
  with the actions the rules in force choose for the purpose of the request, the role and the risk
  of the session after this turn; \<open>vs\<close> are the texts that take their places, and a token among them
  is the label of a vault row of this session for this value.
\<close>

definition policy_applied :: "'m pipe_env \<Rightarrow> pystr \<Rightarrow> pystr option \<Rightarrow> turn list \<Rightarrow> 'm pipe_state \<Rightarrow> world \<Rightarrow> pyfloat \<Rightarrow>
    (span \<times> pystr) list \<Rightarrow> pystr list \<Rightarrow> bool" where
  "policy_applied env sid rl ts st w risk sas vs \<longleftrightarrow>
     snd (detect (pe_detect env) (ttext (last ts)) (ps_detect st)) = map fst sas \<and>
     session_risk (pe_ctx env) sid (map fst sas) (ps_world st) = Some risk \<and>
     (\<exists>rs. rules_in_force (pe_policy env) (ps_rules st) True = Inr rs \<and>
       list_all2 (\<lambda>(s, a) v. pick_action rs (request_purpose ts) rl (stype s) risk False = Inr a \<and> a \<noteq> lit ''block'' \<and>
         rendered (t_year (pe_transform env)) s a v \<and> token_ok (pe_transform env) sid w (s, a) v) sas vs)"

lemma request_through:
  fixes env ts sid prov rl
  defines "c0 \<equiv> new_ctx sid (lit ''input'') prov rl ts" and "t \<equiv> ttext (last ts)"
  assumes "env_documented (pe_detect env)" "detect_state_ok (ps_detect st)" "world_ok (pe_ctx env) (ps_world st)" "ts \<noteq> []"
    "run_stages (INPUT_STAGES env) c0 st = (st', Inr c)" "\<not> blocked c"
  shows "\<exists>sas vs. policy_applied env sid rl ts st (ps_world st') (risk_score c) sas vs \<and>
    turns c = set_last_text (rewritten t sas vs) ts \<and> \<not> ihit (injection c)"
proof -
  from input_run [OF assms(7,8)] obtain ds c2 w3 c3 cache w4 c4 w5 w6 where
    run: "\<not> blocked (injection_guard (pe_threshold env) c0)"
      "pii_detect_stage (pe_detect env) (injection_guard (pe_threshold env) c0) (ps_detect st) = (ds, c2)"
      "multiturn_stage (pe_ctx env) c2 (ps_world st) = (w3, Inr c3)" "\<not> blocked c3"
      "purpose_policy_stage (pe_policy env) c3 (ps_rules st, w3) = ((cache, w4), c4)" "\<not> blocked c4"
      "remember_purpose_stage (pe_ctx env) c4 w4 = (w5, Inr c4)"
      "transform_stage (pe_transform env) c4 w5 = (w6, Inr c)"
      "st' = st\<lparr>ps_world := w6, ps_rules := cache, ps_detect := ds\<rparr>" by blast
  let ?c1 = "injection_guard (pe_threshold env) c0"
  have c0: "turns c0 = ts" "span_actions c0 = []" "direction c0 = lit ''input''" "role c0 = rl" "\<not> ihit (injection c0)"
    by (simp_all add: c0_def new_ctx_def no_injection_def)
  have d: "detect (pe_detect env) t (ps_detect st) = (ds, new_turn_spans c2)" and c2: "c2 = ?c1\<lparr>new_turn_spans := new_turn_spans c2\<rparr>"
    using detect_fields [OF run(2)] assms(6) by (simp_all add: pipe_simps c0 t_def)
  from multiturn_fields [of "pe_ctx env" c2 "ps_world st" c3] run(3) obtain x where
    c3: "c3 = c2\<lparr>risk_score := x, accumulated := group_by_type (new_turn_spans c2) []\<rparr>" by auto
  have f3: "turns c3 = ts" "span_actions c3 = []" "direction c3 = lit ''input''" "role c3 = rl" "\<not> ihit (injection c3)"
    "new_turn_spans c3 = new_turn_spans c2"
    using guard_passes [OF run(1) c0(5)] by (simp_all add: c3, (subst c2, simp add: pipe_simps c0)+)
  have sid: "session_id c2 = sid" by (subst c2) (simp add: pipe_simps c0_def new_ctx_def)
  have risk: "session_risk (pe_ctx env) sid (new_turn_spans c2) (ps_world st) = Some (risk_score c3)"
    using multiturn_risk [OF run(3)] by (simp add: sid)
  note spec = policy_stage_spec [OF f3(3) run(4) f3(2) run(5), unfolded f3(1,6)]
  have "\<exists>rs. rules_in_force (pe_policy env) (ps_rules st) True = Inr rs \<and>
      span_actions c4 = map (\<lambda>s. (s, action_for rs (request_purpose ts) c3 s)) (new_turn_spans c2) \<and>
      (\<forall>s \<in> set (new_turn_spans c2). action_for rs (request_purpose ts) c3 s \<noteq> lit ''block'')"
  proof (cases "rules_in_force (pe_policy env) (ps_rules st) (w_db w3 0)")
    case (Inl e)
    then have "span_actions c4 = []" "new_turn_spans c2 = []" using spec run(6) by auto
    moreover have "\<exists>rs. rules_in_force (pe_policy env) (ps_rules st) True = Inr rs"
      using load_ruleset_cases(1) [of "pe_policy env" True] by (auto simp: rules_in_force_def split: option.split)
    ultimately show ?thesis by auto
  next
    case (Inr rs)
    then have "rules_in_force (pe_policy env) (ps_rules st) True = Inr rs"
      using load_ruleset_cases(2) [of "w_db w3 0" "pe_policy env"] by (cases "w_db w3 0") (auto simp: rules_in_force_def split: option.splits)
    with spec run(6) Inr show ?thesis by auto
  qed
  then obtain rs where rs: "rules_in_force (pe_policy env) (ps_rules st) True = Inr rs"
    and p: "span_actions c4 = map (\<lambda>s. (s, action_for rs (request_purpose ts) c3 s)) (new_turn_spans c2)"
      "\<forall>s \<in> set (new_turn_spans c2). action_for rs (request_purpose ts) c3 s \<noteq> lit ''block''" by blast
  note f4 = policy_keeps [OF run(5)]
  let ?sas = "span_actions c4"
  let ?vs = "snd (render_values (pe_transform env) c4 ?sas w5)"
  have fst_sas: "map fst ?sas = new_turn_spans c2" by (simp add: p(1) comp_def)
  have ok: "disjoint_spans (new_turn_spans c2)" "\<forall>s \<in> set (new_turn_spans c2). span_of t s"
    using detect_ok [OF assms(3,4) d] by blast+
  have new: "turns c = set_last_text (rewritten t ?sas ?vs) ts \<and> w6 = fst (render_values (pe_transform env) c4 ?sas w5)"
    using transform_rewritten [OF _ _ _ run(8)] ok assms(6) by (simp add: f4 f3 fst_sas t_def [symmetric]) (auto simp: p(1))
  have c: "c = c4\<lparr>turns := turns c\<rparr>" by (rule transform_keeps [OF run(8)])
  have rc: "risk_score c = risk_score c3" "injection c = injection c3" using f4 by (subst c, simp)+
  have "later (pe_ctx env) (ps_world st) w5"
    using multiturn_ok [OF assms(5) run(3)] connect_ok [of "pe_ctx env" w3] f4(8) remember_ok [OF _ run(7)] by (metis later_trans)
  moreover have "numbered (vrows (w_vault (ps_world st)))" using assms(5) by (simp add: world_ok_def)
  ultimately have num: "numbered (vrows (w_vault w5))" by (rule later_numbered)
  have sid4: "session_id c4 = sid" using f4(1) by (simp add: c3 sid)
  have rends: "list_all2 (\<lambda>(s, a) v. rendered (t_year (pe_transform env)) s a v) ?sas ?vs"
    "list_all2 (token_ok (pe_transform env) sid w6) ?sas ?vs"
    using render_values_rendered [OF num, where env = "pe_transform env" and c = c4 and sas = ?sas]
      render_values_tokens [of "pe_transform env" c4 ?sas w5] new sid4 by simp_all
  have acts: "list_all2 (\<lambda>(s, a) v. pick_action rs (request_purpose ts) rl (stype s) (risk_score c) False = Inr a \<and> a \<noteq> lit ''block'' \<and>
       rendered (t_year (pe_transform env)) s a v \<and> token_ok (pe_transform env) sid w6 (s, a) v) ?sas ?vs"
    unfolding list_all2_conv_all_nth
  proof (intro conjI allI impI)
    show "length ?sas = length ?vs" using rends(1) by (rule list_all2_lengthD)
    fix i assume i: "i < length ?sas"
    obtain s a where sa: "?sas ! i = (s, a)" by fastforce
    with i have "s \<in> set (new_turn_spans c2)" "a = action_for rs (request_purpose ts) c3 s"
      using nth_mem [OF i] by (auto simp: p(1))
    moreover have "rendered (t_year (pe_transform env)) s a (?vs ! i)" "token_ok (pe_transform env) sid w6 (s, a) (?vs ! i)"
      using list_all2_nthD [OF rends(1) i] list_all2_nthD [OF rends(2) i] by (simp_all add: sa)
    ultimately show "(case ?sas ! i of (s, a) \<Rightarrow> \<lambda>v. pick_action rs (request_purpose ts) rl (stype s) (risk_score c) False = Inr a \<and> a \<noteq> lit ''block'' \<and>
       rendered (t_year (pe_transform env)) s a v \<and> token_ok (pe_transform env) sid w6 (s, a) v) (?vs ! i)"
      using p(2) action_for_Inr [of rs "request_purpose ts" c3 s] f3(4,5) by (simp add: sa rc)
  qed
  have "policy_applied env sid rl ts st (ps_world st') (risk_score c) ?sas ?vs"
    unfolding policy_applied_def using d risk rs acts by (simp add: fst_sas rc t_def run(9))
  with new f3(5) rc show ?thesis by auto
qed

section \<open>Verdicts\<close>

lemma decision_actions [simp]:
  "action (block_decision c x) = lit ''block''" "transformed_body (block_decision c x) = None"
  "action (allow_decision c) = lit ''allow''" "transformed_body (allow_decision c) = None"
  "action (transform_decision c b) = lit ''transform''" "transformed_body (transform_decision c b) = Some b"
  "action (fail_decision cfg) = fail_action cfg" "transformed_body (fail_decision cfg) = None"
  by (simp_all add: block_decision_def allow_decision_def transform_decision_def fail_decision_def)

lemma action_words [simp]:
  "lit ''allow'' \<noteq> lit ''block''" "lit ''block'' \<noteq> lit ''allow''" "lit ''transform'' \<noteq> lit ''block''" "lit ''block'' \<noteq> lit ''transform''"
  "lit ''transform'' \<noteq> lit ''allow''" "lit ''allow'' \<noteq> lit ''transform''" "lit ''input'' \<noteq> lit ''output''" "lit ''output'' \<noteq> lit ''input''"
  by code_simp+

lemma block_check_None:
  "block_check c cfg chk = None \<longleftrightarrow> \<not> blocked c \<and> \<not> ihit (injection c) \<and> \<not> (chk \<and> hard_block (cfg_risk cfg) \<le> risk_score c)"
  by (simp add: block_check_def)

lemma block_check_action: "block_check c cfg chk = Some d \<Longrightarrow> action d = lit ''block'' \<and> transformed_body d = None"
  by (auto simp: block_check_def split: if_splits)

lemma conclude_input_cases:
  assumes "conclude_input a b ts cfg c = Inr d" "action d \<noteq> lit ''block''"
  shows "\<not> blocked c \<and> \<not> ihit (injection c) \<and> risk_score c < hard_block (cfg_risk cfg) \<and>
    (if map ttext (turns c) = map ttext ts then transformed_body d = None
     else \<exists>b'. transformed_body d = Some b' \<and> rebuild a b (turns c) = Inr b')"
proof (cases "block_check c cfg True")
  case None
  with None [unfolded block_check_None] assms(1) show ?thesis
    by (auto simp: conclude_input_def bind_result_def not_le split: if_splits sum.splits)
next
  case (Some d')
  then show ?thesis using assms block_check_action [of c cfg True d'] by (simp add: conclude_input_def)
qed

lemma analyze_verdict:
  "snd (analyze env sid dir path hs b cfg latency st) =
     (case snd (dispatch env sid dir path hs b cfg st) of Inl e \<Rightarrow> fail_decision cfg | Inr d \<Rightarrow> d)"
  by (simp add: analyze_def case_prod_beta Let_def)

lemma input_verdict:
  assumes "snd (analyze env sid (lit ''input'') path hs b cfg latency st) = d" "action d \<noteq> lit ''block''" "fail_action cfg = lit ''block''"
    "select_adapter (pe_depth env) path hs b = Inr a" "extract_turns a b = Inr ts"
  obtains st1 c where
    "run_stages (INPUT_STAGES env) (new_ctx sid (lit ''input'') (adapter_name a) (resolve_role (Some hs)) ts) st = (st1, Inr c)"
    "conclude_input a b ts cfg c = Inr d"
  using assms by (auto simp: analyze_verdict dispatch_def analyze_input_def split: prod.splits sum.splits)

lemma set_last_texts: "ts \<noteq> [] \<Longrightarrow> map ttext (set_last_text x ts) = map ttext ts \<longleftrightarrow> x = ttext (last ts)"
proof -
  assume "ts \<noteq> []"
  then obtain us u where "ts = us @ [u]" by (metis append_butlast_last_id)
  then show ?thesis by (simp add: set_last_text_def)
qed

lemma emit_log_vault: "w_vault (ps_world (emit_log env sid dir d latency cfg st)) = w_vault (ps_world st)"
  by (simp add: emit_log_def write_event_def log_event_now_def write_pg_now_def case_prod_beta Let_def world_simps split: sum.split)

lemma policy_applied_vault: "w_vault w = w_vault w' \<Longrightarrow> policy_applied env sid rl ts st w risk sas vs = policy_applied env sid rl ts st w' risk sas vs"
  by (simp add: policy_applied_def token_ok_def)

lemma unblocked_rewritten:
  assumes "env_documented (pe_detect env)" "detect_state_ok (ps_detect st)" "world_ok (pe_ctx env) (ps_world st)"
    "fail_action cfg = lit ''block''" "select_adapter (pe_depth env) path hs b = Inr a" "extract_turns a b = Inr ts" "ts \<noteq> []"
    "analyze env sid (lit ''input'') path hs b cfg latency st = (st', d)" "action d \<noteq> lit ''block''"
  shows "\<exists>sas vs risk. policy_applied env sid (resolve_role (Some hs)) ts st (ps_world st') risk sas vs \<and> risk < hard_block (cfg_risk cfg) \<and>
    (let text = rewritten (ttext (last ts)) sas vs
     in if text = ttext (last ts) then transformed_body d = None
        else \<exists>b'. transformed_body d = Some b' \<and> rebuild a b (set_last_text text ts) = Inr b')"
proof -
  have v: "snd (analyze env sid (lit ''input'') path hs b cfg latency st) = d" by (simp add: assms(8))
  obtain st1 c where r: "run_stages (INPUT_STAGES env) (new_ctx sid (lit ''input'') (adapter_name a) (resolve_role (Some hs)) ts) st = (st1, Inr c)"
    "conclude_input a b ts cfg c = Inr d" by (rule input_verdict [OF v assms(9,4-6)])
  have "fst (dispatch env sid (lit ''input'') path hs b cfg st) = st1"
    using assms(5,6) r(1) by (simp add: dispatch_def analyze_input_def)
  with assms(8) have vault: "w_vault (ps_world st') = w_vault (ps_world st1)"
    by (auto simp: analyze_def case_prod_beta Let_def emit_log_vault)
  note concl = conclude_input_cases [OF r(2) assms(9)]
  from request_through [OF assms(1-3,7) r(1)] concl obtain sas vs where
    "policy_applied env sid (resolve_role (Some hs)) ts st (ps_world st1) (risk_score c) sas vs"
    "turns c = set_last_text (rewritten (ttext (last ts)) sas vs) ts" by blast
  moreover from this(1) have "policy_applied env sid (resolve_role (Some hs)) ts st (ps_world st') (risk_score c) sas vs"
    using policy_applied_vault [OF vault] by blast
  ultimately show ?thesis using concl set_last_texts [OF assms(7)]
    by (intro exI [of _ sas] exI [of _ vs] exI [of _ "risk_score c"]) (simp add: Let_def split: if_splits)
qed

section \<open>What the provider receives\<close>

lemma gateway_sel [simp]: "adapter_name (gateway n) = lit ''gateway''" "extract_turns (gateway n) = gateway_extract_turns n"
  "rebuild (gateway n) = gateway_rebuild n" "parse_response (gateway n) = gateway_parse_response n"
  "rebuild_response (gateway n) = gateway_rebuild_response n"
  by (simp_all add: gateway_def)

lemma gemini_sel: "extract_turns (gemini n) = gemini_extract_turns n" "rebuild (gemini n) = gemini_rebuild n"
  by (simp_all add: gemini_def)

text \<open>A contract of an adapter that also allows the last turn to be given another text.\<close>

locale request_lens = body_lens get put fits
  for get :: "bytes \<Rightarrow> turn list result" and put :: "bytes \<Rightarrow> turn list \<Rightarrow> bytes result" and fits :: "bytes \<Rightarrow> turn list \<Rightarrow> bool" +
  fixes editable :: "turn list \<Rightarrow> bool"
  assumes fits_last: "fits b ts \<Longrightarrow> ts \<noteq> [] \<Longrightarrow> editable ts \<Longrightarrow> text_ok x \<Longrightarrow> fits b (set_last_text x ts)"
    and fits_text: "fits b ts \<Longrightarrow> ts \<noteq> [] \<Longrightarrow> editable ts \<Longrightarrow> text_ok (ttext (last ts))"
begin

lemma forward:
  assumes "fits b ts" "get b = Inr ts" "ts \<noteq> []" "editable ts" "text_ok x"
    "if x = ttext (last ts) then body = None else \<exists>b'. body = Some b' \<and> put b (set_last_text x ts) = Inr b'"
  shows "get (case body of None \<Rightarrow> b | Some b' \<Rightarrow> b') = Inr (set_last_text x ts)"
proof (cases "x = ttext (last ts)")
  case True
  then have "set_last_text x ts = ts" using assms(3) by (simp add: set_last_text_def)
  with True assms(2,6) show ?thesis by simp
next
  case False
  with assms(6) obtain b' where "body = Some b'" "put b (set_last_text x ts) = Inr b'" by auto
  with put_get [OF fits_last [OF assms(1,3,4,5)]] show ?thesis by auto
qed

end

lemma list_all2_last:
  assumes "list_all2 P xs ts" "ts \<noteq> []" "\<And>m. P m (last ts) \<Longrightarrow> P m ((last ts)\<lparr>ttext := x\<rparr>)"
  shows "list_all2 P xs (set_last_text x ts)" "\<exists>m. P m (last ts)"
proof -
  from assms(2) obtain us u where ts: "ts = us @ [u]" by (metis append_butlast_last_id)
  with assms(1) obtain ms m where "xs = ms @ [m]" "list_all2 P ms us" "P m u" by (auto simp: list_all2_append2 list_all2_Cons2)
  with ts assms(3) [of m] show "list_all2 P xs (set_last_text x ts)" "\<exists>m. P m (last ts)" by (auto simp: set_last_text_def intro!: list_all2_appendI)
qed

lemma fits_new_text: "text_ok x \<Longrightarrow> message_fits m t \<Longrightarrow> message_fits m (t\<lparr>ttext := x\<rparr>)"
    "text_ok x \<Longrightarrow> item_fits m t \<Longrightarrow> item_fits m (t\<lparr>ttext := x\<rparr>)"
  by (simp_all add: message_fits_def item_fits_def split: pyval.splits)

interpretation gateway_forward: request_lens "gateway_extract_turns depth" "gateway_rebuild depth" "gateway_fits depth" "\<lambda>ts. True" for depth
proof
  fix b ts x assume "gateway_fits depth b ts" "ts \<noteq> []"
  then obtain data ms where f: "body_ok depth b data" "dict_get data m_messages = Some (PList ms)" "list_all2 message_fits ms ts"
    by (auto simp: gateway_fits_def)
  show "text_ok (ttext (last ts))"
    using list_all2_last(2) [OF f(3) \<open>ts \<noteq> []\<close>, of "ttext (last ts)"] by (auto simp: message_fits_def)
  show "gateway_fits depth b (set_last_text x ts)" if "text_ok x"
    using f(1,2) list_all2_last(1) [OF f(3) \<open>ts \<noteq> []\<close> fits_new_text(1) [OF that]] unfolding gateway_fits_def by blast
qed

lemma gemini_last:
  assumes "gemini_fits depth b ts" "ts \<noteq> []" "trole (last ts) \<noteq> lit ''system''"
  shows "\<exists>data ms sys us. body_ok depth b data \<and> dict_get data m_contents = Some (PList ms) \<and> 5 \<le> depth \<and>
    us \<noteq> [] \<and> last us = last ts \<and> list_all2 item_fits ms us \<and>
    (\<forall>x. split_system data (set_last_text x ts) = Some (sys, set_last_text x us))"
proof -
  from assms(1) obtain data ms sys us where f: "body_ok depth b data" "dict_get data m_contents = Some (PList ms)" "5 \<le> depth"
    "split_system data ts = Some (sys, us)" "list_all2 item_fits ms us" by (auto simp: gemini_fits_def)
  have "us \<noteq> [] \<and> last us = last ts \<and> split_system data (set_last_text x ts) = Some (sys, set_last_text x us)" for x
  proof (cases "is_dict (get_or data (lit ''system_instruction'') PNone)")
    case True
    with f(4) obtain t where "ts = t # us" "sys = Some t" "trole t = lit ''system''" "ttext t \<noteq> []" "text_ok (ttext t)"
      by (auto simp: split_system_def split: list.splits if_splits)
    with True assms(3) show ?thesis by (auto simp: split_system_def set_last_text_def)
  next
    case False
    with f(4) assms(2) show ?thesis by (auto simp: split_system_def)
  qed
  with f show ?thesis by blast
qed

interpretation gemini_forward: request_lens "gemini_extract_turns depth" "gemini_rebuild depth" "gemini_fits depth"
  "\<lambda>ts. trole (last ts) \<noteq> lit ''system''" for depth
proof
  fix b ts x assume a: "gemini_fits depth b ts" "ts \<noteq> []" and r: "trole (last ts) \<noteq> lit ''system''"
  from gemini_last [OF a r] obtain data ms sys us where f: "body_ok depth b data" "dict_get data m_contents = Some (PList ms)"
    "5 \<le> depth" "us \<noteq> []" "last us = last ts" "list_all2 item_fits ms us"
    and split: "\<forall>x. split_system data (set_last_text x ts) = Some (sys, set_last_text x us)" by (elim exE conjE)
  show "gemini_fits depth b (set_last_text x ts)" if "text_ok x"
    unfolding gemini_fits_def using f(1-3) split list_all2_last(1) [OF f(6,4) fits_new_text(2) [OF that]]
    by (intro conjI exI [of _ data] exI [of _ ms] exI [of _ sys] exI [of _ "set_last_text x us"]) simp_all
  show "text_ok (ttext (last ts))" using f(5) list_all2_last(2) [OF f(6,4), of "ttext (last ts)"] by (auto simp: item_fits_def)
qed

section \<open>A concrete process\<close>

definition sample_pipe_env :: "unit pipe_env" where
  "sample_pipe_env = \<lparr>pe_transform = echo_env, pe_detect = sample_detect_env, pe_policy = fst (seed POLICY_YAML empty_policy_db),
     pe_threshold = Inr (fl (7 / 10)), pe_guard = Inr default_guardrail, pe_depth = 5, pe_admits = (\<lambda>r. True)\<rparr>"

definition sample_sinks :: sinks where
  "sample_sinks = \<lparr>sk_rows = [], sk_seq = 1, sk_lines = [], sk_bus = new_bus, sk_file = (\<lambda>k. True)\<rparr>"

definition sample_pipe_world :: world where
  "sample_pipe_world = sample_world\<lparr>w_acc := Some \<lparr>window_size_turns = 5, combo_cap = 1, repeat_weight = 0, repeat_cap = 0,
     combo_weights = [], velocity_thresholds = []\<rparr>\<rparr>"

definition sample_pipe_state :: "unit pipe_state" where
  "sample_pipe_state = \<lparr>ps_world = sample_pipe_world, ps_rules = None, ps_detect = sample_detect_state, ps_sinks = sample_sinks\<rparr>"

definition chat_body :: "string \<Rightarrow> bytes" where
  "chat_body s = body_of [(m_messages, PList [PDict [(lit ''role'', PStr (lit ''user'')), (m_content, PStr (lit s))]])]"

lemma chat_body_ok: "body_ok 5 (chat_body s) [(m_messages, PList [PDict [(lit ''role'', PStr (lit ''user'')), (m_content, PStr (lit s))]])]"
proof -
  have "json_ok 5 (PDict [(m_messages, PList [PDict [(lit ''role'', PStr (lit ''user'')), (m_content, PStr (lit s))]])])"
    by (simp add: eval_nat_numeral)
  then show ?thesis unfolding chat_body_def by (rule body_of_ok)
qed

lemma chat_select: "select_adapter 5 path hs (chat_body s) = Inr (gateway 5)"
  using chat_body_ok [of s]
  by (simp add: select_adapter_def ADAPTERS_def gemini_def gateway_def gemini_matches_def gateway_matches_def body_ok_def load_body_def is_list_def get_or_def dict_get_def)

lemma chat_extract: "gateway_extract_turns 5 (chat_body s) = Inr [\<lparr>trole = lit ''user'', ttext = lit s\<rparr>]"
  using chat_body_ok [of s]
  by (simp add: gateway_def gateway_extract_turns_def body_ok_def load_body_def as_dict_def get_or_def dict_get_def py_iter_def message_turn_def py_str_def map_filter_simps)

lemma chat_turns: "extract_turns (gateway 5) (chat_body s) = Inr [\<lparr>trole = lit ''user'', ttext = lit s\<rparr>]"
  by (simp add: chat_extract)

lemma chat_fits: "gateway_fits 5 (chat_body s) [\<lparr>trole = lit ''user'', ttext = lit s\<rparr>]"
  unfolding gateway_fits_def using chat_body_ok [of s]
  by (intro exI conjI, assumption) (auto simp: dict_get_def message_fits_def get_or_def py_str_def)

lemma sample_pipe_ok: "env_documented (pe_detect sample_pipe_env)" "detect_state_ok (ps_detect sample_pipe_state)"
  "world_ok (pe_ctx sample_pipe_env) (ps_world sample_pipe_state)"
  using sample_documented sample_world_ok
  by (simp_all add: sample_pipe_env_def sample_pipe_state_def world_ok_def sample_pipe_world_def store_of_def echo_env_def config_ok_def)

lemma sample_run:
  obtains st' c where "run_stages (INPUT_STAGES sample_pipe_env)
      (new_ctx (lit ''s'') (lit ''input'') (lit ''gateway'') None [\<lparr>trole = lit ''user'', ttext = lit ''Kim''\<rparr>]) sample_pipe_state = (st', Inr c)"
    "turns c = [\<lparr>trole = lit ''user'', ttext = lit ''<PII:NAME:1>''\<rparr>]" "\<not> blocked c" "\<not> ihit (injection c)" "risk_score c = 0"
proof -
  let ?r = "run_stages (INPUT_STAGES sample_pipe_env)
      (new_ctx (lit ''s'') (lit ''input'') (lit ''gateway'') None [\<lparr>trole = lit ''user'', ttext = lit ''Kim''\<rparr>]) sample_pipe_state"
  have "map_sum id (\<lambda>c. (turns c, blocked c, ihit (injection c), risk_score c)) (snd ?r) =
      Inr ([\<lparr>trole = lit ''user'', ttext = lit ''<PII:NAME:1>''\<rparr>], False, False, 0)" by code_simp
  then obtain c where "snd ?r = Inr c" "(turns c, blocked c, ihit (injection c), risk_score c) =
      ([\<lparr>trole = lit ''user'', ttext = lit ''<PII:NAME:1>''\<rparr>], False, False, 0)" by (cases "snd ?r") auto
  then show ?thesis by (intro that [of "fst ?r" c]) (auto simp: prod_eq_iff)
qed

lemma sample_verdict:
  fixes path hs b
  defines "d \<equiv> snd (analyze sample_pipe_env (lit ''s'') (lit ''input'') [] [] (chat_body ''Kim'') default_config 3 sample_pipe_state)"
  shows "action d = lit ''transform''"
proof -
  obtain st' c where c: "run_stages (INPUT_STAGES sample_pipe_env)
      (new_ctx (lit ''s'') (lit ''input'') (lit ''gateway'') None [\<lparr>trole = lit ''user'', ttext = lit ''Kim''\<rparr>]) sample_pipe_state = (st', Inr c)"
    "turns c = [\<lparr>trole = lit ''user'', ttext = lit ''<PII:NAME:1>''\<rparr>]" "\<not> blocked c" "\<not> ihit (injection c)" "risk_score c = 0"
    by (rule sample_run)
  have "0 < fl (6 / 10)" "resolve_role (Some []) = None" by code_simp+
  then have "block_check c default_config True = None" using c(3-5) by (simp add: block_check_None default_config_def)
  moreover have "gateway_fits 5 (chat_body ''Kim'') (turns c)"
    using gateway_forward.fits_last [OF chat_fits [of "''Kim''"], where x = "lit ''<PII:NAME:1>''"] by (simp add: c(2) set_last_text_def)
  then obtain b' where "rebuild (gateway 5) (chat_body ''Kim'') (turns c) = Inr b'"
    using gateway_requests.put_get [of 5 "chat_body ''Kim''" "turns c"] by auto
  ultimately have "conclude_input (gateway 5) (chat_body ''Kim'') [\<lparr>trole = lit ''user'', ttext = lit ''Kim''\<rparr>] default_config c =
      Inr (transform_decision c b')" by (simp add: conclude_input_def c(2) bind_result_def)
  moreover have "pe_depth sample_pipe_env = 5" "adapter_name (gateway 5) = lit ''gateway''"
    by (simp_all add: sample_pipe_env_def gateway_def)
  ultimately have "snd (dispatch sample_pipe_env (lit ''s'') (lit ''input'') [] [] (chat_body ''Kim'') default_config sample_pipe_state) =
      Inr (transform_decision c b')"
    using c(1) \<open>resolve_role (Some []) = None\<close> by (simp add: dispatch_def analyze_input_def chat_select chat_extract)
  then show ?thesis by (simp add: d_def analyze_verdict)
qed

section \<open>Properties\<close>

lemma list_all2_left: "list_all2 P xs ys \<Longrightarrow> x \<in> set xs \<Longrightarrow> \<exists>y. P x y"
  by (auto simp: list_all2_conv_all_nth in_set_conv_nth)

text \<open>C2: With fail-closed settings, automaton and model behaving as documented and a well-formed state, a request
  that is not blocked has had the policy applied: every value the detector finds in its last turn has the
  action that the rules in force choose for the purpose of the request, the role of its sender and the risk of its session
  after this turn, none of them block; that risk is below the limit; and what is sent on is the original body, when these
  actions leave the text as it is, and otherwise the body rebuilt with the last text rewritten by them.\<close>

theorem unblocked_request:
  assumes "env_documented (pe_detect env)" "detect_state_ok (ps_detect st)" "world_ok (pe_ctx env) (ps_world st)"
    "fail_action cfg = lit ''block''" "select_adapter (pe_depth env) path hs b = Inr a" "extract_turns a b = Inr ts" "ts \<noteq> []"
    "analyze env sid (lit ''input'') path hs b cfg latency st = (st', d)" "action d \<noteq> lit ''block''"
  shows "\<exists>sas vs risk. policy_applied env sid (resolve_role (Some hs)) ts st (ps_world st') risk sas vs \<and> risk < hard_block (cfg_risk cfg) \<and>
    (let text = rewritten (ttext (last ts)) sas vs
     in if text = ttext (last ts) then transformed_body d = None
        else \<exists>b'. transformed_body d = Some b' \<and> rebuild a b (set_last_text text ts) = Inr b')"
  using assms by (rule unblocked_rewritten)

lemma sample_unblocked:
  "action (snd (analyze sample_pipe_env (lit ''s'') (lit ''input'') [] [] (chat_body ''Kim'') default_config 3 sample_pipe_state)) \<noteq> lit ''block''"
  by (simp add: sample_verdict)

lemma sample_actions:
  assumes "policy_applied sample_pipe_env (lit ''s'') (resolve_role (Some [])) [\<lparr>trole = lit ''user'', ttext = lit ''Kim''\<rparr>] sample_pipe_state w risk sas vs"
  shows "map snd sas = [lit ''tokenize''] \<and> risk = 0"
proof -
  have spans: "map stype (snd (detect (pe_detect sample_pipe_env) (lit ''Kim'') (ps_detect sample_pipe_state))) = [lit ''NAME'']" by code_simp
  have r: "session_risk (pe_ctx sample_pipe_env) (lit ''s'') (snd (detect (pe_detect sample_pipe_env) (lit ''Kim'') (ps_detect sample_pipe_state)))
      (ps_world sample_pipe_state) = Some 0" by code_simp
  have act: "(case rules_in_force (pe_policy sample_pipe_env) (ps_rules sample_pipe_state) True of Inl e \<Rightarrow> False
      | Inr rs \<Rightarrow> pick_action rs (request_purpose [\<lparr>trole = lit ''user'', ttext = lit ''Kim''\<rparr>]) (resolve_role (Some [])) (lit ''NAME'') 0 False = Inr (lit ''tokenize''))"
    by code_simp
  from assms have risk: "risk = 0" using r by (simp add: policy_applied_def)
  obtain s a where sas: "sas = [(s, a)]" "stype s = lit ''NAME''"
    using spans assms by (auto simp: policy_applied_def)
  with assms act risk show ?thesis by (auto simp: policy_applied_def list_all2_Cons1 split: sum.splits)
qed

theorem unblocked_request_witness:
  "let r = analyze sample_pipe_env (lit ''s'') (lit ''input'') [] [] (chat_body ''Kim'') default_config 3 sample_pipe_state
   in \<exists>sas vs. map snd sas = [lit ''tokenize''] \<and>
     policy_applied sample_pipe_env (lit ''s'') (resolve_role (Some [])) [\<lparr>trole = lit ''user'', ttext = lit ''Kim''\<rparr>] sample_pipe_state (ps_world (fst r)) 0 sas vs"
proof -
  have s: "select_adapter (pe_depth sample_pipe_env) [] [] (chat_body ''Kim'') = Inr (gateway 5)" "fail_action default_config = lit ''block''"
    by (simp_all add: chat_select sample_pipe_env_def default_config_def)
  from unblocked_request [OF sample_pipe_ok s(2,1) chat_turns list.distinct(2) prod.collapse [symmetric] sample_unblocked]
  obtain sas vs risk where r: "policy_applied sample_pipe_env (lit ''s'') (resolve_role (Some [])) [\<lparr>trole = lit ''user'', ttext = lit ''Kim''\<rparr>] sample_pipe_state
      (ps_world (fst (analyze sample_pipe_env (lit ''s'') (lit ''input'') [] [] (chat_body ''Kim'') default_config 3 sample_pipe_state))) risk sas vs"
    by (elim exE conjE) (rule that)
  from sample_actions [OF this] have "map snd sas = [lit ''tokenize'']" "risk = 0" by blast+
  with r show ?thesis unfolding Let_def by (intro exI [of _ sas] exI [of _ vs] conjI) (simp_all only:)
qed

definition adapter_fits :: "nat \<Rightarrow> adapter \<Rightarrow> bytes \<Rightarrow> turn list \<Rightarrow> bool" where
  "adapter_fits depth a b ts \<longleftrightarrow> a = gateway depth \<and> gateway_fits depth b ts \<or>
     a = gemini depth \<and> gemini_fits depth b ts \<and> trole (last ts) \<noteq> lit ''system''"


lemma adapter_forward:
  assumes "adapter_fits depth a b ts" "extract_turns a b = Inr ts" "ts \<noteq> []"
  shows "text_ok (ttext (last ts))" "text_ok x \<Longrightarrow>
    if x = ttext (last ts) then body = None else \<exists>b'. body = Some b' \<and> rebuild a b (set_last_text x ts) = Inr b' \<Longrightarrow>
    extract_turns a (case body of None \<Rightarrow> b | Some b' \<Rightarrow> b') = Inr (set_last_text x ts)"
proof -
  from assms(1) consider "a = gateway depth" "gateway_fits depth b ts"
    | "a = gemini depth" "gemini_fits depth b ts" "trole (last ts) \<noteq> lit ''system''" by (auto simp: adapter_fits_def)
  then have "text_ok (ttext (last ts)) \<and> (text_ok x \<longrightarrow>
    (if x = ttext (last ts) then body = None else \<exists>b'. body = Some b' \<and> rebuild a b (set_last_text x ts) = Inr b') \<longrightarrow>
    extract_turns a (case body of None \<Rightarrow> b | Some b' \<Rightarrow> b') = Inr (set_last_text x ts))"
  proof cases
    case 1
    with assms(2) have "gateway_extract_turns depth b = Inr ts" by simp
    from gateway_forward.fits_text [OF 1(2) assms(3) TrueI] gateway_forward.forward [OF 1(2) this assms(3) TrueI, of x body] 1(1)
    show ?thesis by (simp only: gateway_sel) blast
  next
    case 2
    with assms(2) have "gemini_extract_turns depth b = Inr ts" by (simp only: gemini_sel)
    from gemini_forward.fits_text [OF 2(2) assms(3) 2(3)] gemini_forward.forward [OF 2(2) this assms(3) 2(3), of x body] 2(1)
    show ?thesis by (simp only: gemini_sel) blast
  qed
  then show "text_ok (ttext (last ts))" "text_ok x \<Longrightarrow>
    if x = ttext (last ts) then body = None else \<exists>b'. body = Some b' \<and> rebuild a b (set_last_text x ts) = Inr b' \<Longrightarrow>
    extract_turns a (case body of None \<Rightarrow> b | Some b' \<Rightarrow> b') = Inr (set_last_text x ts)" by blast+
qed

text \<open>C1: With the same conditions and for a body of the documented shape of its provider, be it the gateway's or Gemini's (whose
  last turn is then not the system instruction), what the provider reads from the body that is sent on is
  the request itself with the last turn rewritten: each value the detector finds there is replaced as the action that the rules in force choose
  for it says, and every other turn and every character outside these values is as the client sent it.\<close>

theorem forwarded_request:
  assumes "env_documented (pe_detect env)" "detect_state_ok (ps_detect st)" "world_ok (pe_ctx env) (ps_world st)"
    "fail_action cfg = lit ''block''" "select_adapter (pe_depth env) path hs b = Inr a"
    "adapter_fits (pe_depth env) a b ts" "extract_turns a b = Inr ts" "ts \<noteq> []"
    "analyze env sid (lit ''input'') path hs b cfg latency st = (st', d)" "action d \<noteq> lit ''block''"
  shows "\<exists>sas vs risk. policy_applied env sid (resolve_role (Some hs)) ts st (ps_world st') risk sas vs \<and> risk < hard_block (cfg_risk cfg) \<and>
    extract_turns a (case transformed_body d of None \<Rightarrow> b | Some b' \<Rightarrow> b') =
      Inr (set_last_text (rewritten (ttext (last ts)) sas vs) ts)"
proof -
  from unblocked_rewritten [OF assms(1-5,7-10)] obtain sas vs risk where
    r: "policy_applied env sid (resolve_role (Some hs)) ts st (ps_world st') risk sas vs" "risk < hard_block (cfg_risk cfg)"
      "if rewritten (ttext (last ts)) sas vs = ttext (last ts) then transformed_body d = None
       else \<exists>b'. transformed_body d = Some b' \<and> rebuild a b (set_last_text (rewritten (ttext (last ts)) sas vs) ts) = Inr b'"
    unfolding Let_def by (elim exE conjE) (rule that)
  have rend: "list_all2 (\<lambda>(s, x) v. rendered (t_year (pe_transform env)) s x v) sas vs"
    using r(1) unfolding policy_applied_def by (elim exE conjE, elim list_all2_mono) auto
  have "\<forall>(s, x) \<in> set sas. span_of (ttext (last ts)) s"
    using detect_ok [OF assms(1,2) prod.collapse [symmetric], of "ttext (last ts)"] r(1) by (auto simp: policy_applied_def)
  then have "text_ok (rewritten (ttext (last ts)) sas vs)"
    by (rule text_ok_rewritten [OF adapter_forward(1) [OF assms(6-8)] rend])
  from adapter_forward(2) [OF assms(6-8) this r(3)] r(1,2) show ?thesis by blast
qed

theorem forwarded_request_witness:
  "let d = snd (analyze sample_pipe_env (lit ''s'') (lit ''input'') [] [] (chat_body ''Kim'') default_config 3 sample_pipe_state)
   in \<exists>sas vs. map snd sas = [lit ''tokenize''] \<and>
     gateway_extract_turns 5 (case transformed_body d of None \<Rightarrow> chat_body ''Kim'' | Some b' \<Rightarrow> b') =
       Inr [\<lparr>trole = lit ''user'', ttext = rewritten (lit ''Kim'') sas vs\<rparr>]"
proof -
  have s: "select_adapter (pe_depth sample_pipe_env) [] [] (chat_body ''Kim'') = Inr (gateway 5)"
    "fail_action default_config = lit ''block''" "pe_depth sample_pipe_env = 5"
    by (simp_all add: chat_select sample_pipe_env_def default_config_def)
  have f: "adapter_fits (pe_depth sample_pipe_env) (gateway 5) (chat_body ''Kim'') [\<lparr>trole = lit ''user'', ttext = lit ''Kim''\<rparr>]"
    using chat_fits [of "''Kim''"] by (simp add: s(3) adapter_fits_def)
  from forwarded_request [OF sample_pipe_ok s(2,1) f chat_turns list.distinct(2) prod.collapse [symmetric] sample_unblocked]
  obtain sas vs risk where r: "policy_applied sample_pipe_env (lit ''s'') (resolve_role (Some [])) [\<lparr>trole = lit ''user'', ttext = lit ''Kim''\<rparr>] sample_pipe_state
      (ps_world (fst (analyze sample_pipe_env (lit ''s'') (lit ''input'') [] [] (chat_body ''Kim'') default_config 3 sample_pipe_state))) risk sas vs"
    "extract_turns (gateway 5) (case transformed_body (snd (analyze sample_pipe_env (lit ''s'') (lit ''input'') [] [] (chat_body ''Kim'') default_config 3 sample_pipe_state))
        of None \<Rightarrow> chat_body ''Kim'' | Some b' \<Rightarrow> b') =
      Inr (set_last_text (rewritten (ttext (last [\<lparr>trole = lit ''user'', ttext = lit ''Kim''\<rparr>])) sas vs) [\<lparr>trole = lit ''user'', ttext = lit ''Kim''\<rparr>])"
    by (elim exE conjE) (rule that)
  from sample_actions [OF r(1)] have "map snd sas = [lit ''tokenize'']" by blast
  moreover have "set_last_text x [\<lparr>trole = lit ''user'', ttext = lit ''Kim''\<rparr>] = [\<lparr>trole = lit ''user'', ttext = x\<rparr>]" for x
    by (simp add: set_last_text_def)
  ultimately show ?thesis using r(2) unfolding Let_def last.simps turn.select_convs gateway_sel simp_thms if_True
    by (intro exI [of _ sas] exI [of _ vs] conjI) (simp_all only:)
qed

end
