(* ===== verification/Response.thy ===== *)
theory Response
  imports Pipeline_Laws
begin

text \<open>
  What the user reads: a response that is not blocked, followed from its body through the output guard
  and the restoring of tokens into the body that is delivered.
\<close>

section \<open>Restoring as replacement of labels\<close>

text \<open>The text with the \<open>i\<close>-th match exchanged for the \<open>i\<close>-th value.\<close>

fun put_back :: "pystr \<Rightarrow> nat \<Rightarrow> match list \<Rightarrow> pystr list \<Rightarrow> pystr" where
  "put_back t i (m # ms) (v # vs) = slice i (mstart m) t @ v @ put_back t (mend m) ms vs"
| "put_back t i ms vs = drop i t"

lemma sub_state_put_back:
  assumes "\<And>st m. I st \<Longrightarrow> I (fst (f st m)) \<and> P m (snd (f st m))"
  shows "I st \<Longrightarrow> \<exists>vs. list_all2 P ms vs \<and> snd (sub_state f t i ms st) = put_back t i ms vs"
proof (induction ms arbitrary: i st)
  case (Cons m ms)
  from Cons.IH [of "fst (f st m)" "mend m"] assms [OF Cons.prems, of m] obtain vs where
    "list_all2 P ms vs" "snd (sub_state f t (mend m) ms (fst (f st m))) = put_back t (mend m) ms vs" by blast
  with assms [OF Cons.prems, of m] show ?case
    by (intro exI [of _ "snd (f st m) # vs"]) (simp add: case_prod_beta Let_def)
qed simp

text \<open>The value of a label: of a live row of the session that admits role and purpose and has not expired.\<close>

definition may_restore :: "vault_env \<Rightarrow> rat set \<Rightarrow> pystr \<Rightarrow> pystr option \<Rightarrow> pystr option \<Rightarrow> vault_row list \<Rightarrow> pystr \<Rightarrow> pystr \<Rightarrow> bool" where
  "may_restore env instants sid rl pu rows l v \<longleftrightarrow>
     (\<exists>row \<in> set rows. live row \<and> vsession row = coerce_session_uuid env sid \<and> token_label row = l \<and>
        (\<exists>now \<in> instants. now < expires_at row) \<and> fst (scope_allows (access_scope row) rl pu) \<and> decrypt env (cipher_value row) = Inr v)"

lemma detokenize_may_restore:
  assumes "snd (detokenize env up now sid l rl pu st) = Some v" "now \<in> instants"
  shows "may_restore env instants sid rl pu (vrows st) l v"
proof -
  have "detokenize env up now sid l rl pu st = (fst (detokenize env up now sid l rl pu st), Some v)"
    using assms(1) by (simp add: prod_eq_iff)
  from detokenize_Some [OF this] obtain row where
    "select_live_label (vrows st) (coerce_session_uuid env sid) l = Some row" "now < expires_at row"
    "fst (scope_allows (access_scope row) rl pu)" "decrypt env (cipher_value row) = Inr v" by blast
  with assms(2) show ?thesis
    unfolding may_restore_def select_live_label_def by (blast dest: find_Some_iff)
qed

lemma detokenize_text_put_back:
  fixes now :: "nat \<Rightarrow> rat"
  shows "\<exists>vs. list_all2 (\<lambda>m v. v = group0 t m \<or> may_restore env (range now) sid rl pu (vrows st) (group0 t m) v)
      (re_finditer TOKEN_LABEL_RE False t) vs \<and>
    snd (detokenize_text env up now sid t rl pu st) = put_back t 0 (re_finditer TOKEN_LABEL_RE False t) vs"
  unfolding detokenize_text_def
proof (rule sub_state_put_back [where I = "\<lambda>(k, st'). vrows st' = vrows st"])
  fix x :: "nat \<times> vault" and m
  obtain k st' where x: "x = (k, st')" by (cases x)
  assume "(\<lambda>(k, st'). vrows st' = vrows st) x"
  then have r: "vrows st' = vrows st" by (simp add: x)
  let ?d = "detokenize env (up k) (now k) sid (group0 t m) rl pu st'"
  have "vrows (fst ?d) = vrows st" using detokenize_rows [of env "up k" "now k" sid "group0 t m" rl pu st'] r by simp
  moreover have "may_restore env (range now) sid rl pu (vrows st) (group0 t m) v" if "snd ?d = Some v" for v
    using detokenize_may_restore [OF that, of "range now"] r by simp
  ultimately show "(\<lambda>(k, st'). vrows st' = vrows st)
      (fst ((\<lambda>(k, st) m. let (st', original) = detokenize env (up k) (now k) sid (group0 t m) rl pu st
         in ((Suc k, st'), case original of None \<Rightarrow> group0 t m | Some v \<Rightarrow> v)) x m)) \<and>
    (snd ((\<lambda>(k, st) m. let (st', original) = detokenize env (up k) (now k) sid (group0 t m) rl pu st
         in ((Suc k, st'), case original of None \<Rightarrow> group0 t m | Some v \<Rightarrow> v)) x m) = group0 t m \<or>
     may_restore env (range now) sid rl pu (vrows st) (group0 t m)
      (snd ((\<lambda>(k, st) m. let (st', original) = detokenize env (up k) (now k) sid (group0 t m) rl pu st
         in ((Suc k, st'), case original of None \<Rightarrow> group0 t m | Some v \<Rightarrow> v)) x m)))"
    by (auto simp: x case_prod_beta Let_def split: option.splits)
qed simp

lemma put_back_text: "text_ok t \<Longrightarrow> \<forall>v \<in> set vs. text_ok v \<Longrightarrow> text_ok (put_back t i ms vs)"
  by (induction t i ms vs rule: put_back.induct) (auto intro: text_intros)

lemma utf8_take_valid: "utf8_take bs = Some (c, r) \<Longrightarrow> valid_char c"
  by (auto simp: utf8_take_def valid_char_def surrogate_def cont_def Let_def split: list.splits if_splits)

lemma utf8_decode_valid: "utf8_decode bs = Inr s \<Longrightarrow> text_ok s"
proof (induction bs arbitrary: s rule: utf8_decode.induct)
  case (1 bs)
  have "(if bs = [] then Inr [] else case utf8_take bs of None \<Rightarrow> Inl ValueError
      | Some (c, r) \<Rightarrow> bind_result (utf8_decode r) (\<lambda>s. Inr (c # s))) = Inr s"
    using "1.prems" by (subst (asm) utf8_decode.simps)
  then consider "s = []" | c r u where "bs \<noteq> []" "utf8_take bs = Some (c, r)" "utf8_decode r = Inr u" "s = c # u"
    by (auto simp: bind_result_Inr split: option.splits if_splits)
  then show ?case
  proof cases
    case 2
    with "1.IH" [of "(c, r)" c r u] utf8_take_valid [of bs c r] show ?thesis by simp
  qed simp
qed

lemma may_restore_text: "may_restore env instants sid rl pu rows l v \<Longrightarrow> text_ok v"
  by (auto simp: may_restore_def decrypt_def bind_result_Inr intro: utf8_decode_valid)


section \<open>The stages of a response\<close>

lemma guard_single:
  assumes "turns c = [u]" "direction c = lit ''output''" "\<not> blocked (output_guard x c)"
  obtains v where "turns (output_guard x c) = [u\<lparr>ttext := v\<rparr>]" "text_ok (ttext u) \<longrightarrow> text_ok v"
    "session_id (output_guard x c) = session_id c" "direction (output_guard x c) = lit ''output''" "role (output_guard x c) = role c"
    "injection (output_guard x c) = injection c"
proof -
  from assms obtain cfg mt spans where g: "x = Inr cfg" "rescan_and_mask (ttext u) (output_pii_min_confidence cfg) = Inr (mt, spans)"
    "(if output_injection_check cfg then injection_compliance mt else None) = None"
    by (auto simp: output_guard_def guard_error_def Let_def split: sum.splits option.splits prod.splits)
  have masked: "text_ok (foldl (\<lambda>t s. splice (sstart s) (send s) (mask_preview s) t) t ss)"
    if "text_ok t" "\<forall>s \<in> set ss. text_ok (svalue s)" for t ss
    using that
  proof (induction ss arbitrary: t)
    case (Cons s ss)
    then have "text_ok (splice (sstart s) (send s) (mask_preview s) t)"
      by (simp add: splice_def mask_preview_def text_intros)
    with Cons show ?case by simp
  qed simp
  have "text_ok mt" if "text_ok (ttext u)"
  proof -
    obtain ss where ss: "regex_detect (ttext u) = Inr ss" using g(2) by (auto simp: rescan_and_mask_def bind_result_Inr)
    then have "\<forall>s \<in> set ss. text_ok (svalue s)"
      using regex_detect_ok [of "ttext u"] that by (auto simp: regex_span_ok_def span_of_def intro: text_intros)
    with that ss g(2) masked show ?thesis by (auto simp: rescan_and_mask_def Let_def split: if_splits)
  qed
  with that [of mt] assms(1,2) g show thesis by (simp add: output_guard_def Let_def)
qed

lemma restore_single:
  assumes "turns c = [u]" "direction c = lit ''output''" "detokenize_stage env c w = (w', Inr c')"
  obtains w2 pu where "get_last_purpose (t_ctx env) (session_id c) w = (w2, Inr pu)"
    "c' = c\<lparr>turns := [u\<lparr>ttext := snd (detokenize_text (t_vault env) (w_db w2) (w_clock w2) (session_id c) (ttext u) (role c) pu (w_vault w2))\<rparr>]\<rparr>"
proof -
  obtain w2 r where g: "get_last_purpose (t_ctx env) (session_id c) w = (w2, r)" by fastforce
  with assms show thesis by (cases r) (auto simp: detokenize_stage_def case_prod_beta Let_def intro!: that)
qed


text \<open>The look-up of the purpose may revoke tokens and reads the clock; it makes no row live.\<close>

lemma revoke_session_live: "row \<in> set (vrows (revoke_session env up now sid st)) \<Longrightarrow> live row \<Longrightarrow> row \<in> set (vrows st)"
  by (auto simp: revoke_session_def revoke_where_def live_def split: if_splits)

lemma expire_fold_live:
  "row \<in> set (vrows (w_vault (foldl (\<lambda>w s. default_on_expire env s w) w ss))) \<Longrightarrow> live row \<Longrightarrow> row \<in> set (vrows (w_vault w))"
proof (induction ss arbitrary: w)
  case (Cons s ss)
  from Cons.IH [of "default_on_expire env s w"] Cons.prems show ?case by (auto simp: world_simps dest: revoke_session_live)
qed simp

lemma last_purpose_live:
  assumes "get_last_purpose env sid w = (w', r)"
  shows "later env w w'" "row \<in> set (vrows (w_vault w')) \<Longrightarrow> live row \<Longrightarrow> row \<in> set (vrows (w_vault w))"
proof -
  have w': "w' = (if c_loop env then fst (get_store w) else fst (load_session env sid (fst (get_store w))))"
    using get_last_purpose_world [of env sid w] assms by simp
  show "later env w w'" unfolding w' using get_store_later load_session_later later_trans by (metis (full_types))
  have fire: "row \<in> set (vrows (w_vault (fire_on_expire env ss v))) \<Longrightarrow> live row \<Longrightarrow> row \<in> set (vrows (w_vault v))" for ss v row
    by (auto simp: fire_on_expire_def dest: expire_fold_live split: option.splits bool.splits)
  show "row \<in> set (vrows (w_vault w')) \<Longrightarrow> live row \<Longrightarrow> row \<in> set (vrows (w_vault w))"
    unfolding w' by (auto simp: load_session_def case_prod_beta world_simps dest!: fire split: if_splits)
qed

lemma may_restore_mono:
  "may_restore env A sid rl pu rows l v \<Longrightarrow> A \<subseteq> B \<Longrightarrow> (\<And>r. r \<in> set rows \<Longrightarrow> live r \<Longrightarrow> r \<in> set rows') \<Longrightarrow>
    may_restore env B sid rl pu rows' l v"
  unfolding may_restore_def by blast

section \<open>A response that passes both stages\<close>

text \<open>The values a request may put in place of the labels of \<open>x\<close>: the label itself, or what the vault may restore.\<close>

definition label_values :: "'m pipe_env \<Rightarrow> 'm pipe_state \<Rightarrow> pystr \<Rightarrow> pystr option \<Rightarrow> pystr option \<Rightarrow> pystr \<Rightarrow> pystr list \<Rightarrow> bool" where
  "label_values env st sid rl pu x vs \<longleftrightarrow>
     list_all2 (\<lambda>m v. v = group0 x m \<or> may_restore (t_vault (pe_transform env)) (range (w_clock (ps_world st))) sid rl pu
         (vrows (w_vault (ps_world st))) (group0 x m) v) (re_finditer TOKEN_LABEL_RE False x) vs"

lemma list_all2_right: "list_all2 P xs ys \<Longrightarrow> y \<in> set ys \<Longrightarrow> \<exists>x. P x y"
  by (induction xs ys rule: list_all2_induct) auto

lemma label_values_text:
  assumes "label_values env st sid rl pu x vs" "text_ok x"
  shows "\<forall>v \<in> set vs. text_ok v"
proof
  fix v assume "v \<in> set vs"
  from list_all2_right [OF assms(1) [unfolded label_values_def] this] obtain m where
    "v = group0 x m \<or> may_restore (t_vault (pe_transform env)) (range (w_clock (ps_world st))) sid rl pu
      (vrows (w_vault (ps_world st))) (group0 x m) v" by (rule exE)
  then show "text_ok v"
  proof
    assume "v = group0 x m"
    with assms(2) show ?thesis by (simp add: group0_def text_intros)
  qed (rule may_restore_text)
qed

definition reply_ctx :: "pystr \<Rightarrow> headers \<Rightarrow> adapter \<Rightarrow> pystr \<Rightarrow> ctx" where
  "reply_ctx sid hs a t = new_ctx sid (lit ''output'') (adapter_name a) (resolve_role (Some hs)) [\<lparr>trole = lit ''assistant'', ttext = t\<rparr>]"

lemma output_verdict:
  assumes "snd (analyze env sid (lit ''output'') path hs b cfg latency st) = d" "action d \<noteq> lit ''block''" "fail_action cfg = lit ''block''"
    "select_adapter (pe_depth env) path hs b = Inr a" "parse_response a b = Inr t"
  obtains st1 c where "run_stages (OUTPUT_STAGES env) (reply_ctx sid hs a t) st = (st1, Inr c)" "conclude_output a b t cfg c = Inr d"
  using assms by (auto simp: analyze_verdict dispatch_def analyze_output_def reply_ctx_def split: prod.splits sum.splits)

lemma conclude_output_cases:
  assumes "conclude_output a b t cfg c = Inr d" "action d \<noteq> lit ''block''" "turns c = [u]"
  shows "\<not> blocked c \<and> (if ttext u = t then transformed_body d = None
     else \<exists>b'. transformed_body d = Some b' \<and> rebuild_response a b (ttext u) = Inr b')"
proof (cases "block_check c cfg False")
  case None
  with None [unfolded block_check_None] assms(1,3) show ?thesis
    by (auto simp: conclude_output_def bind_result_def split: if_splits sum.splits)
next
  case (Some d')
  then show ?thesis using assms block_check_action [of c cfg False d'] by (simp add: conclude_output_def)
qed

lemma output_run:
  assumes "run_stages (OUTPUT_STAGES env) c0 st = (st', Inr c)" "\<not> blocked c"
  obtains w where "\<not> blocked (output_guard (pe_guard env) c0)"
    "detokenize_stage (pe_transform env) (output_guard (pe_guard env) c0) (ps_world st) = (w, Inr c)" "st' = st\<lparr>ps_world := w\<rparr>"
proof -
  from assms(1) obtain c1 st1 c2 st2 where
    run: "pure_stage (output_guard (pe_guard env)) c0 st = (st1, Inr c1)" "\<not> blocked c1"
      "world_stage (detokenize_stage (pe_transform env)) c1 st1 = (st2, Inr c2)" "run_stages [] c2 st2 = (st', Inr c)"
    unfolding OUTPUT_STAGES_def by (elim run_stages_Cons [OF _ assms(2)]) (rule that)
  with that show thesis by (auto simp: stage_results)
qed

lemma response_through:
  assumes "run_stages (OUTPUT_STAGES env) (reply_ctx sid hs a t) st = (st', Inr c)" "\<not> blocked c"
  shows "\<exists>x vs pu. turns (output_guard (pe_guard env) (reply_ctx sid hs a t)) = [\<lparr>trole = lit ''assistant'', ttext = x\<rparr>] \<and>
    snd (get_last_purpose (t_ctx (pe_transform env)) sid (ps_world st)) = Inr pu \<and> (text_ok t \<longrightarrow> text_ok x) \<and>
    label_values env st sid (resolve_role (Some hs)) pu x vs \<and>
    turns c = [\<lparr>trole = lit ''assistant'', ttext = put_back x 0 (re_finditer TOKEN_LABEL_RE False x) vs\<rparr>]"
proof -
  let ?c0 = "reply_ctx sid hs a t" and ?rl = "resolve_role (Some hs)" and ?v = "t_vault (pe_transform env)"
  let ?g = "output_guard (pe_guard env) ?c0"
  obtain w where run: "\<not> blocked ?g"
    "detokenize_stage (pe_transform env) ?g (ps_world st) = (w, Inr c)" "st' = st\<lparr>ps_world := w\<rparr>" by (rule output_run [OF assms])
  have c0: "turns ?c0 = [\<lparr>trole = lit ''assistant'', ttext = t\<rparr>]" "direction ?c0 = lit ''output''" "session_id ?c0 = sid" "role ?c0 = ?rl"
    by (simp_all add: reply_ctx_def new_ctx_def)
  obtain x where g0: "turns ?g = [\<lparr>trole = lit ''assistant'', ttext = t\<rparr>\<lparr>ttext := x\<rparr>]"
    "text_ok (ttext \<lparr>trole = lit ''assistant'', ttext = t\<rparr>) \<longrightarrow> text_ok x" "session_id ?g = session_id ?c0" "direction ?g = lit ''output''"
    "role ?g = role ?c0" by (rule guard_single [OF c0(1,2) run(1)])
  have g: "turns ?g = [\<lparr>trole = lit ''assistant'', ttext = x\<rparr>]" "text_ok t \<longrightarrow> text_ok x" "session_id ?g = sid" "role ?g = ?rl"
    using g0 c0 by simp_all
  obtain w2 pu where
    r: "get_last_purpose (t_ctx (pe_transform env)) (session_id ?g) (ps_world st) = (w2, Inr pu)"
      "c = ?g\<lparr>turns := [\<lparr>trole = lit ''assistant'', ttext = x\<rparr>\<lparr>ttext := snd (detokenize_text ?v (w_db w2) (w_clock w2)
        (session_id ?g) (ttext \<lparr>trole = lit ''assistant'', ttext = x\<rparr>) (role ?g) pu (w_vault w2))\<rparr>]\<rparr>" by (rule restore_single [OF g(1) g0(4) run(2)])
  have tc: "turns c = [\<lparr>trole = lit ''assistant'', ttext = snd (detokenize_text ?v (w_db w2) (w_clock w2) sid x ?rl pu (w_vault w2))\<rparr>]"
    using r(2) g(3,4) by simp
  from detokenize_text_put_back [of x ?v "w_clock w2" sid ?rl pu "w_vault w2" "w_db w2"] obtain vs where
    v: "list_all2 (\<lambda>m v. v = group0 x m \<or> may_restore ?v (range (w_clock w2)) sid ?rl pu
        (vrows (w_vault w2)) (group0 x m) v) (re_finditer TOKEN_LABEL_RE False x) vs"
      "snd (detokenize_text ?v (w_db w2) (w_clock w2) sid x ?rl pu (w_vault w2)) = put_back x 0 (re_finditer TOKEN_LABEL_RE False x) vs"
    by (elim exE conjE) (rule that)
  note live = last_purpose_live [OF r(1)]
  have clk: "range (w_clock w2) \<subseteq> range (w_clock (ps_world st))" using live(1) by (simp add: later_def)
  have "label_values env st sid ?rl pu x vs"
    unfolding label_values_def
  proof (rule list_all2_mono [OF v(1)])
    fix m v
    assume "v = group0 x m \<or> may_restore ?v (range (w_clock w2)) sid ?rl pu (vrows (w_vault w2)) (group0 x m) v"
    then show "v = group0 x m \<or> may_restore ?v (range (w_clock (ps_world st))) sid ?rl pu (vrows (w_vault (ps_world st))) (group0 x m) v"
      by (rule disj_forward) (assumption, erule may_restore_mono [OF _ clk live(2)])
  qed
  moreover have "snd (get_last_purpose (t_ctx (pe_transform env)) sid (ps_world st)) = Inr pu" using r(1) g(3) by simp
  moreover have "turns c = [\<lparr>trole = lit ''assistant'', ttext = put_back x 0 (re_finditer TOKEN_LABEL_RE False x) vs\<rparr>]" using tc v(2) by simp
  ultimately show ?thesis by (intro exI [of _ x] exI [of _ vs] exI [of _ pu] conjI g(1,2))
qed


section \<open>Properties\<close>

text \<open>C3: With fail-closed settings, what the user reads from a response that is not blocked is the text the output guard
  let through, with some labels exchanged for values; every such value comes from a live,
  unexpired row of this session with this label whose scope admits the requester's role and the purpose the
  session remembers, and every character outside the labels is as the guard left it.\<close>

theorem delivered_response:
  assumes "fail_action cfg = lit ''block''" "select_adapter (pe_depth env) path hs b = Inr (gateway (pe_depth env))"
    "response_fits (pe_depth env) b t" "gateway_parse_response (pe_depth env) b = Inr t"
    "snd (analyze env sid (lit ''output'') path hs b cfg latency st) = d" "action d \<noteq> lit ''block''"
  shows "\<exists>x vs pu. turns (output_guard (pe_guard env) (reply_ctx sid hs (gateway (pe_depth env)) t)) = [\<lparr>trole = lit ''assistant'', ttext = x\<rparr>] \<and>
    snd (get_last_purpose (t_ctx (pe_transform env)) sid (ps_world st)) = Inr pu \<and> label_values env st sid (resolve_role (Some hs)) pu x vs \<and>
    gateway_parse_response (pe_depth env) (case transformed_body d of None \<Rightarrow> b | Some b' \<Rightarrow> b') =
      Inr (put_back x 0 (re_finditer TOKEN_LABEL_RE False x) vs)"
proof -
  let ?a = "gateway (pe_depth env)"
  have pr: "parse_response ?a b = Inr t" using assms(4) by simp
  obtain st1 c where
    c: "run_stages (OUTPUT_STAGES env) (reply_ctx sid hs ?a t) st = (st1, Inr c)" "conclude_output ?a b t cfg c = Inr d" by (rule output_verdict [OF assms(5,6,1,2) pr])
  have "\<not> blocked c"
  proof
    assume "blocked c"
    then have "action d = lit ''block''" using c(2) by (auto simp: conclude_output_def block_check_def)
    with assms(6) show False by simp
  qed
  from response_through [OF c(1) this] obtain x vs pu where
    r: "turns (output_guard (pe_guard env) (reply_ctx sid hs ?a t)) = [\<lparr>trole = lit ''assistant'', ttext = x\<rparr>]"
      "snd (get_last_purpose (t_ctx (pe_transform env)) sid (ps_world st)) = Inr pu" "text_ok t \<longrightarrow> text_ok x"
      "label_values env st sid (resolve_role (Some hs)) pu x vs"
      "turns c = [\<lparr>trole = lit ''assistant'', ttext = put_back x 0 (re_finditer TOKEN_LABEL_RE False x) vs\<rparr>]"
    by (elim exE conjE) (rule that)
  let ?y = "put_back x 0 (re_finditer TOKEN_LABEL_RE False x) vs"
  have "text_ok t" using assms(3) by (simp add: response_fits_def)
  then have x: "text_ok x" using r(3) by simp
  have "text_ok ?y" by (rule put_back_text [OF x label_values_text [OF r(4) x]])
  then have fits: "response_fits (pe_depth env) b ?y" using assms(3) by (simp add: response_fits_def)
  have "gateway_parse_response (pe_depth env) (case transformed_body d of None \<Rightarrow> b | Some b' \<Rightarrow> b') = Inr ?y"
  proof (cases "?y = t")
    case True
    with conclude_output_cases [OF c(2) assms(6) r(5)] assms(4) show ?thesis by simp
  next
    case False
    with conclude_output_cases [OF c(2) assms(6) r(5)] obtain b' where
      "transformed_body d = Some b'" "rebuild_response ?a b ?y = Inr b'" by auto
    with gateway_responses.put_get [OF fits] show ?thesis by simp
  qed
  with r(1,2,4) show ?thesis by (intro exI [of _ x] exI [of _ vs] exI [of _ pu] conjI)
qed

definition reply_data :: "(pystr \<times> pyval) list" where
  "reply_data = [(m_messages, PList []),
     (lit ''choices'', PList [PDict [(lit ''message'', PDict [(m_content, PStr (lit ''hi <PII:RRN:1>!''))])]])]"

text \<open>The process after a request of the session has left the token in the vault.\<close>

definition reply_state :: "unit pipe_state" where
  "reply_state = sample_pipe_state\<lparr>ps_world := fst (transform_stage echo_env echo_ctx echo_world)\<rparr>"

lemma reply_facts: "response_fits 5 (body_of reply_data) (lit ''hi <PII:RRN:1>!'')" "response_fits 5 (body_of reply_data) (lit ''hi ab!'')"
  "select_adapter 5 [] [] (body_of reply_data) = Inr (gateway 5)"
  "gateway_parse_response 5 (body_of reply_data) = Inr (lit ''hi <PII:RRN:1>!'')"
proof -
  have "json_ok 5 (PDict reply_data)" "has_answer reply_data" "text_ok (lit ''hi <PII:RRN:1>!'')" "text_ok (lit ''hi ab!'')" by code_simp+
  then have body: "body_ok 5 (body_of reply_data) reply_data"
    and "response_fits 5 (body_of reply_data) (lit ''hi <PII:RRN:1>!'')" "response_fits 5 (body_of reply_data) (lit ''hi ab!'')"
    by (auto simp: response_fits_def intro: body_of_ok)
  then show "response_fits 5 (body_of reply_data) (lit ''hi <PII:RRN:1>!'')" "response_fits 5 (body_of reply_data) (lit ''hi ab!'')"
    by simp_all
  show "select_adapter 5 [] [] (body_of reply_data) = Inr (gateway 5)"
    using body by (simp add: select_adapter_def ADAPTERS_def gemini_def gateway_def gemini_matches_def gateway_matches_def body_ok_def
      load_body_def is_list_def get_or_def dict_get_def reply_data_def)
  show "gateway_parse_response 5 (body_of reply_data) = Inr (lit ''hi <PII:RRN:1>!'')" by code_simp
qed

lemma reply_not_blocked:
  "action (snd (analyze sample_pipe_env (lit ''s'') (lit ''output'') [] [] (body_of reply_data) default_config 3 reply_state)) = lit ''transform''"
proof -
  let ?r = "run_stages (OUTPUT_STAGES sample_pipe_env) (reply_ctx (lit ''s'') [] (gateway 5) (lit ''hi <PII:RRN:1>!'')) reply_state"
  have "map_sum id (\<lambda>c. (turns c, blocked c, ihit (injection c))) (snd ?r) = Inr ([\<lparr>trole = lit ''assistant'', ttext = lit ''hi ab!''\<rparr>], False, False)"
    by code_simp
  then obtain st' c where c: "?r = (st', Inr c)" "turns c = [\<lparr>trole = lit ''assistant'', ttext = lit ''hi ab!''\<rparr>]" "\<not> blocked c" "\<not> ihit (injection c)"
    by (cases ?r; cases "snd ?r") auto
  obtain b' where b': "gateway_rebuild_response 5 (body_of reply_data) (lit ''hi ab!'') = Inr b'"
    using gateway_responses.put_get [OF reply_facts(2)] by blast
  have "block_check c default_config False = None" using c(3,4) by (simp add: block_check_None default_config_def)
  moreover have other: "lit ''hi ab!'' \<noteq> lit ''hi <PII:RRN:1>!''" by (simp add: lit_def)
  ultimately have "conclude_output (gateway 5) (body_of reply_data) (lit ''hi <PII:RRN:1>!'') default_config c = Inr (transform_decision c b')"
    using other by (simp add: conclude_output_def c(2) bind_result_def b')
  moreover have "pe_depth sample_pipe_env = 5" by (simp add: sample_pipe_env_def)
  ultimately show ?thesis
    using c(1) by (simp add: transform_decision_def analyze_verdict dispatch_def analyze_output_def reply_facts(3,4) reply_ctx_def)
qed

theorem delivered_response_witness:
  "let d = snd (analyze sample_pipe_env (lit ''s'') (lit ''output'') [] [] (body_of reply_data) default_config 3 reply_state)
   in \<exists>v. gateway_parse_response 5 (case transformed_body d of None \<Rightarrow> body_of reply_data | Some b' \<Rightarrow> b') = Inr (lit ''hi '' @ v @ lit ''!'')"
proof -
  let ?t = "lit ''hi <PII:RRN:1>!''" and ?b = "body_of reply_data"
  have depth: "pe_depth sample_pipe_env = 5" by (simp add: sample_pipe_env_def)
  have guard: "turns (output_guard (pe_guard sample_pipe_env) (reply_ctx (lit ''s'') [] (gateway 5) ?t)) = [\<lparr>trole = lit ''assistant'', ttext = ?t\<rparr>]"
    by code_simp
  have found: "map (\<lambda>m. (mstart m, mend m)) (re_finditer TOKEN_LABEL_RE False ?t) = [(3, 14)]" by code_simp
  have fc: "fail_action default_config = lit ''block''" by (simp add: default_config_def)
  have nb: "action (snd (analyze sample_pipe_env (lit ''s'') (lit ''output'') [] [] ?b default_config 3 reply_state)) \<noteq> lit ''block''"
    by (simp add: reply_not_blocked)
  from delivered_response [where env = sample_pipe_env, unfolded depth, OF fc reply_facts(3,1,4) refl nb] obtain x vs pu where
    r: "turns (output_guard (pe_guard sample_pipe_env) (reply_ctx (lit ''s'') [] (gateway 5) ?t)) = [\<lparr>trole = lit ''assistant'', ttext = x\<rparr>]"
    "label_values sample_pipe_env reply_state (lit ''s'') (resolve_role (Some [])) pu x vs"
    "gateway_parse_response 5 (case transformed_body (snd (analyze sample_pipe_env (lit ''s'') (lit ''output'') [] [] ?b default_config 3 reply_state)) of
       None \<Rightarrow> ?b | Some b' \<Rightarrow> b') = Inr (put_back x 0 (re_finditer TOKEN_LABEL_RE False x) vs)"
    by (elim exE conjE) (rule that)
  have x: "x = ?t" using r(1) guard by simp
  from found obtain m where m: "re_finditer TOKEN_LABEL_RE False ?t = [m]" "mstart m = 3" "mend m = 14" by auto
  from r(2) x m(1) obtain v where "vs = [v]" by (auto simp: label_values_def list_all2_Cons1)
  with r(3) x m show ?thesis by (auto simp: Let_def slice_def lit_def intro!: exI [of _ v])
qed

end
