(* ===== verification/Service.thy ===== *)
theory Service
  imports Pipeline_Laws
begin

text \<open>
  The process over time: which states it can reach by serving requests, what a request leaves
  behind in them, and what each verdict looks like and leaves in the audit sinks.
\<close>

section \<open>Changes made for one session\<close>

text \<open>
  Work for the session \<open>sid\<close>: from a sound world to a sound one, its store changed at \<open>sid\<close> only.
\<close>

definition works_for :: "context_env \<Rightarrow> pystr \<Rightarrow> world \<Rightarrow> world \<Rightarrow> bool" where
  "works_for env sid w w' \<longleftrightarrow> (world_ok env w \<longrightarrow>
     world_ok env w' \<and> later env w w' \<and> (own_change sid)\<^sup>*\<^sup>* (store_of w) (store_of w'))"

lemma works_refl [simp]: "works_for env sid w w"
  by (simp add: works_for_def)

lemma works_trans: "works_for env sid w w' \<Longrightarrow> works_for env sid w' w'' \<Longrightarrow> works_for env sid w w''"
  unfolding works_for_def by (metis later_trans rtranclp_trans)

lemma works_own: "(world_ok env w \<Longrightarrow> world_ok env w' \<and> later env w w' \<and> own_change sid (store_of w) (store_of w')) \<Longrightarrow> works_for env sid w w'"
  by (auto simp: works_for_def)

lemma quiet_works: "later env w w' \<Longrightarrow> w_store w' = w_store w \<Longrightarrow> w_acc w' = w_acc w \<Longrightarrow> works_for env sid w w'"
proof -
  assume a: "later env w w'" "w_store w' = w_store w" "w_acc w' = w_acc w"
  then have "store_of w' = store_of w" by (simp add: store_of_def)
  moreover have "world_ok env w'" if "world_ok env w"
    using that by (intro world_okI [OF that a(1)]) (simp_all add: world_ok_def \<open>store_of w' = store_of w\<close> a(3))
  ultimately show "works_for env sid w w'" using a(1) by (simp add: works_for_def)
qed

lemma own_change_inv: "store_inv st \<Longrightarrow> own_change sid st st' \<Longrightarrow> store_inv st'"
  by (auto simp: own_change_def intro: mem.inv_load mem.inv_save)

lemma own_changes_other:
  assumes "(own_change sid)\<^sup>*\<^sup>* st st'" "store_inv st" "sid' \<noteq> sid"
  shows "store_inv st' \<and> snd (mem_load t sid' st') = snd (mem_load t sid' st)"
  using assms by (induction rule: rtranclp_induct) (auto dest: own_change_inv own_change_other [of _ sid _ sid' t])

lemma works_open:
  assumes "works_for env sid w w'" "world_ok env w" "sid' \<noteq> sid" "open_session sid' s w"
  shows "open_session sid' s w'"
proof -
  have l: "later env w w'" and o: "(own_change sid)\<^sup>*\<^sup>* (store_of w) (store_of w')" using assms(1,2) by (auto simp: works_for_def)
  have "snd (mem_load (w_clock w 0) sid' (store_of w')) = Some s"
    using own_changes_other [OF o _ assms(3)] assms(2) open_session_load [OF assms(4), of "w_clock w 0"] by (auto simp: world_ok_def)
  then have "map_of (states (store_of w')) sid' = Some s" by (auto simp: snd_mem_load split: option.splits if_splits)
  with l assms(4) show ?thesis unfolding open_session_def later_def by blast
qed

section \<open>Every stage works for its session\<close>

definition stage_sound :: "'m pipe_env \<Rightarrow> pystr \<Rightarrow> 'm pipe_stage \<Rightarrow> bool" where
  "stage_sound env sid f \<longleftrightarrow> (\<forall>c st st' r. f c st = (st', r) \<and> session_id c = sid \<longrightarrow>
     works_for (pe_ctx env) sid (ps_world st) (ps_world st') \<and> ps_sinks st' = ps_sinks st \<and>
     (env_documented (pe_detect env) \<and> detect_state_ok (ps_detect st) \<longrightarrow> detect_state_ok (ps_detect st')) \<and>
     (\<forall>c'. r = Inr c' \<longrightarrow> session_id c' = sid))"

lemma run_stages_sound:
  assumes "\<forall>f \<in> set fs. stage_sound env sid f"
  shows "stage_sound env sid (run_stages fs)"
  using assms
proof (induction fs)
  case (Cons f fs)
  show ?case unfolding stage_sound_def
  proof (intro allI impI, elim conjE)
    fix c st st' r assume run: "run_stages (f # fs) c st = (st', r)" and sid: "session_id c = sid"
    obtain st1 r1 where f: "f c st = (st1, r1)" by fastforce
    have fs: "stage_sound env sid f" "stage_sound env sid (run_stages fs)" using Cons by simp_all
    note one = fs(1) [unfolded stage_sound_def, rule_format, OF conjI, OF f sid]
    show "works_for (pe_ctx env) sid (ps_world st) (ps_world st') \<and> ps_sinks st' = ps_sinks st \<and>
     (env_documented (pe_detect env) \<and> detect_state_ok (ps_detect st) \<longrightarrow> detect_state_ok (ps_detect st')) \<and>
     (\<forall>c'. r = Inr c' \<longrightarrow> session_id c' = sid)"
    proof (cases "\<exists>c1. r1 = Inr c1 \<and> \<not> blocked c1")
      case True
      then obtain c1 where c1: "r1 = Inr c1" "run_stages fs c1 st1 = (st', r)" using run f by auto
      note rest = fs(2) [unfolded stage_sound_def, rule_format, OF conjI, OF c1(2)]
      show ?thesis using one rest c1(1) by (auto intro: works_trans)
    next
      case False
      then have "st' = st1" "r = r1" using run f by (auto split: sum.splits)
      with one show ?thesis by simp
    qed
  qed
qed (simp add: stage_sound_def)

lemma input_stages_sound: "f \<in> set (INPUT_STAGES env) \<Longrightarrow> stage_sound env sid f"
proof -
  assume "f \<in> set (INPUT_STAGES env)"
  then consider "f = pure_stage (injection_guard (pe_threshold env))" | "f = detect_stage env"
    | "f = world_stage (multiturn_stage (pe_ctx env))" | "f = policy_stage env"
    | "f = world_stage (remember_purpose_stage (pe_ctx env))" | "f = world_stage (transform_stage (pe_transform env))"
    by (auto simp: INPUT_STAGES_def)
  then show ?thesis
  proof cases
    case 1
    then show ?thesis by (simp add: stage_sound_def stage_results pipe_simps)
  next
    case 2
    have "detect_state_ok ds'" if "pii_detect_stage (pe_detect env) c ds = (ds', c')" "env_documented (pe_detect env)" "detect_state_ok ds" for c c' ds ds'
      using that detect_ok [of "pe_detect env" ds] by (auto simp: pii_detect_stage_def analyze_turn_def split: prod.splits if_splits)
    moreover have "session_id c' = session_id c" if "pii_detect_stage (pe_detect env) c ds = (ds', c')" for c c' ds ds'
      using that by (auto simp: pii_detect_stage_def analyze_turn_def split: prod.splits if_splits)
    ultimately show ?thesis by (auto simp: 2 stage_sound_def stage_results)
  next
    case 3
    have "session_id c' = session_id c" if "multiturn_stage (pe_ctx env) c w = (w', Inr c')" for c c' w w'
      using multiturn_fields [of "pe_ctx env" c w c'] that by auto
    then show ?thesis by (auto simp: 3 stage_sound_def stage_results intro!: works_own dest: multiturn_ok)
  next
    case 4
    have "works_for (pe_ctx env) (session_id c) w w' \<and> session_id c' = session_id c"
      if "purpose_policy_stage (pe_policy env) c (cache, w) = ((cache', w'), c')" for c c' cache cache' w w'
      using policy_keeps(1,8) [OF that] by (auto intro!: works_own simp: connect_ok own_change_def)
    then show ?thesis by (auto simp: 4 stage_sound_def stage_results)
  next
    case 5
    have "session_id c' = session_id c" if "remember_purpose_stage (pe_ctx env) c w = (w', Inr c')" for c c' w w'
      using remember_keeps [of "pe_ctx env" c w c'] that by simp
    then show ?thesis by (auto simp: 5 stage_sound_def stage_results intro!: works_own dest: remember_ok)
  next
    case 6
    then show ?thesis by (auto simp: stage_sound_def stage_results intro!: quiet_works dest: transform_ok)
  qed
qed

lemma output_guard_session [simp]: "session_id (output_guard x c) = session_id c"
  by (auto simp: output_guard_def guard_error_def Let_def split: list.splits sum.splits option.splits)

lemma output_stages_sound: "f \<in> set (OUTPUT_STAGES env) \<Longrightarrow> stage_sound env sid f"
proof -
  assume "f \<in> set (OUTPUT_STAGES env)"
  then consider "f = pure_stage (output_guard (pe_guard env))" | "f = world_stage (detokenize_stage (pe_transform env))"
    by (auto simp: OUTPUT_STAGES_def)
  then show ?thesis
  proof cases
    case 1
    then show ?thesis by (simp add: stage_sound_def stage_results)
  next
    case 2
    have "session_id c' = session_id c" if "detokenize_stage (pe_transform env) c w = (w', Inr c')" for c c' w w'
      using that by (auto simp: detokenize_stage_def case_prod_beta Let_def split: if_splits list.splits prod.splits sum.splits)
    then show ?thesis by (auto simp: 2 stage_sound_def stage_results intro!: works_own dest: detokenize_ok)
  qed
qed

section \<open>A request works for its session\<close>

lemma input_sound: "stage_sound env sid (run_stages (INPUT_STAGES env))"
  by (intro run_stages_sound ballI input_stages_sound)

lemma output_sound: "stage_sound env sid (run_stages (OUTPUT_STAGES env))"
  by (intro run_stages_sound ballI output_stages_sound)

lemmas stages_soundD = input_sound [unfolded stage_sound_def, rule_format, OF conjI] output_sound [unfolded stage_sound_def, rule_format, OF conjI]

lemma new_ctx_session [simp]: "session_id (new_ctx sid dir prov r ts) = sid"
  by (simp add: new_ctx_def)

lemma dispatch_sound:
  assumes "dispatch env sid dir path hs b cfg st = (st', r)"
  shows "works_for (pe_ctx env) sid (ps_world st) (ps_world st') \<and> ps_sinks st' = ps_sinks st \<and>
     (env_documented (pe_detect env) \<and> detect_state_ok (ps_detect st) \<longrightarrow> detect_state_ok (ps_detect st'))"
  using assms stages_soundD(1) [where env = env and sid = sid and st = st] stages_soundD(2) [where env = env and sid = sid and st = st]
  by (fastforce simp: dispatch_def analyze_input_def analyze_output_def split: if_splits sum.splits prod.splits)

lemma reads_keep [simp]: "w_store (fst (read_clock w)) = w_store w" "w_store (fst (connect w)) = w_store w"
  by (simp_all add: read_clock_def connect_def)

lemma write_event_quiet:
  "later env' (ps_world st) (ps_world (fst (write_event env e cfg st))) \<and>
   w_store (ps_world (fst (write_event env e cfg st))) = w_store (ps_world st) \<and>
   w_acc (ps_world (fst (write_event env e cfg st))) = w_acc (ps_world st) \<and>
   ps_detect (fst (write_event env e cfg st)) = ps_detect st"
proof -
  have l: "ps_world (fst (log_event_now e st)) = ps_world st \<and> ps_detect (fst (log_event_now e st)) = ps_detect st" for st
    by (simp add: log_event_now_def case_prod_beta)
  have p: "ps_detect (fst (write_pg_now env e st)) = ps_detect st \<and>
      ps_world (fst (write_pg_now env e st)) = fst (read_clock (fst (connect (ps_world st))))"
    by (simp add: write_pg_now_def case_prod_beta Let_def)
  have "later env' w (fst (read_clock (fst (connect w))))" for w
    by (auto simp: later_def world_simps)
  with l p show ?thesis
    by (auto simp: write_event_def case_prod_beta world_simps split: sum.splits prod.splits)
qed

lemma analyze_sound:
  assumes "analyze env sid dir path hs b cfg latency st = (st', d)"
  shows "works_for (pe_ctx env) sid (ps_world st) (ps_world st') \<and>
     (env_documented (pe_detect env) \<and> detect_state_ok (ps_detect st) \<longrightarrow> detect_state_ok (ps_detect st'))"
proof -
  obtain st1 r where r: "dispatch env sid dir path hs b cfg st = (st1, r)" by fastforce
  let ?st = "st1\<lparr>ps_world := fst (read_clock (ps_world st1))\<rparr>"
  obtain e where st': "st' = fst (write_event env e cfg ?st)"
    using assms r by (auto simp: analyze_def emit_log_def case_prod_beta Let_def)
  have "works_for (pe_ctx env) sid (ps_world st1) (ps_world ?st)"
    by (intro quiet_works) (simp_all add: read_clock_later world_simps)
  moreover have "works_for (pe_ctx env) sid (ps_world ?st) (ps_world st')"
    unfolding st' using write_event_quiet [of _ ?st] by (intro quiet_works) blast+
  ultimately show ?thesis using dispatch_sound [OF r] write_event_quiet [of "pe_ctx env" ?st env e cfg]
    by (auto simp: st' intro: works_trans)
qed

text \<open>Serving: requests of the sessions in \<open>S\<close> in any order, with any bodies and settings, and sweeps.\<close>

inductive serves :: "'m pipe_env \<Rightarrow> pystr set \<Rightarrow> 'm pipe_state \<Rightarrow> 'm pipe_state \<Rightarrow> bool" for env S where
  serve_request: "sid \<in> S \<Longrightarrow> analyze env sid dir path hs b cfg latency st = (st', d) \<Longrightarrow> serves env S st st'"
| serve_sweep: "serves env S st (st\<lparr>ps_world := sweep_sessions (pe_ctx env) (ps_world st)\<rparr>)"

definition pipe_ok :: "'m pipe_env \<Rightarrow> 'm pipe_state \<Rightarrow> bool" where
  "pipe_ok env st \<longleftrightarrow> world_ok (pe_ctx env) (ps_world st) \<and> detect_state_ok (ps_detect st)"

lemma serves_ok:
  assumes "serves env S st st'" "env_documented (pe_detect env)" "pipe_ok env st"
  shows "pipe_ok env st' \<and> (\<forall>sid s. sid \<notin> S \<and> open_session sid s (ps_world st) \<longrightarrow> open_session sid s (ps_world st'))"
  using assms(1)
proof cases
  case (serve_request sid dir path hs b cfg latency d)
  have w: "works_for (pe_ctx env) sid (ps_world st) (ps_world st')" "detect_state_ok (ps_detect st')"
    using analyze_sound [OF serve_request(2)] assms(2,3) by (auto simp: pipe_ok_def)
  have "open_session k s (ps_world st')" if "k \<notin> S" "open_session k s (ps_world st)" for k s
    using works_open [OF w(1) _ _ that(2)] that(1) serve_request(1) assms(3) by (auto simp: pipe_ok_def)
  with w assms(3) show ?thesis by (auto simp: pipe_ok_def works_for_def)
next
  case serve_sweep
  from session_step_ok [OF step_sweep] session_step_others [OF step_sweep] assms(3) show ?thesis
    by (auto simp: serve_sweep pipe_ok_def)
qed

lemma serves_star_ok:
  assumes "(serves env S)\<^sup>*\<^sup>* st st'" "env_documented (pe_detect env)" "pipe_ok env st"
  shows "pipe_ok env st' \<and> (\<forall>sid s. sid \<notin> S \<and> open_session sid s (ps_world st) \<longrightarrow> open_session sid s (ps_world st'))"
  using assms by (induction rule: rtranclp_induct) (simp, metis serves_ok)

section \<open>Verdicts\<close>

lemma block_check_verdict: "block_check c cfg chk = Some d \<Longrightarrow> \<exists>x. d = block_decision c [x] \<and> fst x \<noteq> lit ''verdict''"
  by (auto simp: block_check_def lit_inject split: if_splits)

lemma reason_verdict: "\<forall>x \<in> set ex. fst x \<noteq> lit ''verdict'' \<Longrightarrow> length ex \<le> 1 \<Longrightarrow> dict_get (reason_of c v ex) (lit ''verdict'') = Some (PStr v)"
  by (cases ex; cases "tl ex") (auto simp: reason_of_def dict_update_def dict_get_def)

definition verdict_ok :: "verdict \<Rightarrow> bool" where
  "verdict_ok d \<longleftrightarrow> action d \<in> set WIRE_ACTIONS \<and> (transformed_body d \<noteq> None \<longleftrightarrow> action d = lit ''transform'') \<and>
     dict_get (reason_obj d) (lit ''verdict'') \<in> {None, Some (PStr (action d))}"

lemma decisions_ok: "verdict_ok (allow_decision c)" "verdict_ok (transform_decision c b)"
  "block_check c cfg chk = Some d \<Longrightarrow> verdict_ok d" "config_valid cfg \<Longrightarrow> verdict_ok (fail_decision cfg)"
proof -
  show "verdict_ok (allow_decision c)" "verdict_ok (transform_decision c b)"
    by (simp_all add: verdict_ok_def WIRE_ACTIONS_def) (simp_all add: allow_decision_def transform_decision_def reason_verdict)
  show "verdict_ok d" if "block_check c cfg chk = Some d"
    using block_check_verdict [OF that] by (auto simp: verdict_ok_def WIRE_ACTIONS_def) (simp add: block_decision_def reason_verdict)
  show "verdict_ok (fail_decision cfg)" if "config_valid cfg"
    using that by (auto simp: verdict_ok_def WIRE_ACTIONS_def config_valid_def fail_decision_def dict_get_def)
qed

lemma conclude_ok:
  "conclude_input a b ts cfg c = Inr d \<Longrightarrow> verdict_ok d" "conclude_output a b t cfg c = Inr d \<Longrightarrow> verdict_ok d"
  by (auto simp: conclude_input_def conclude_output_def bind_result_def Let_def decisions_ok split: option.splits if_splits sum.splits)

lemma dispatch_ok: "dispatch env sid dir path hs b cfg st = (st', Inr d) \<Longrightarrow> verdict_ok d"
  by (auto simp: dispatch_def analyze_input_def analyze_output_def conclude_ok verdict_ok_def WIRE_ACTIONS_def dict_get_def
      split: if_splits sum.splits prod.splits dest: conclude_ok)

lemma analyze_verdict_ok: "config_valid cfg \<Longrightarrow> verdict_ok (snd (analyze env sid dir path hs b cfg latency st))"
  using dispatch_ok [of env sid dir path hs b cfg st] decisions_ok(4) [of cfg]
  by (auto simp: analyze_verdict split: sum.splits) (metis prod.collapse)

section \<open>Requests that go no further\<close>

lemma bad_body_matches:
  assumes "load_body depth b = Inl e \<or> (\<exists>v. load_body depth b = Inr v \<and> \<not> is_dict v)"
  shows "(\<exists>e. select_adapter depth path hs b = Inl e) \<or> select_adapter depth path hs b = Inr (gateway depth)"
    "\<exists>e. gateway_extract_turns depth b = Inl e" "\<exists>e. gateway_parse_response depth b = Inl e"
proof -
  have sel: "matches (gemini depth) = gemini_matches depth" "matches (gateway depth) = gateway_matches depth"
    by (simp_all add: gemini_def gateway_def)
  let ?goal = "((\<exists>e. select_adapter depth path hs b = Inl e) \<or> select_adapter depth path hs b = Inr (gateway depth)) \<and>
    (\<exists>e. gateway_extract_turns depth b = Inl e) \<and> (\<exists>e. gateway_parse_response depth b = Inl e)"
  have ?goal
  proof (cases "load_body depth b")
    case (Inl e)
    then show ?thesis
      by (simp add: select_adapter_def ADAPTERS_def sel gemini_matches_def gateway_matches_def gateway_extract_turns_def
          gateway_parse_response_def bind_result_def)
  next
    case (Inr v)
    with assms have "\<not> is_dict v" by simp
    with Inr show ?thesis
      by (cases v) (simp_all add: select_adapter_def ADAPTERS_def sel gemini_matches_def gateway_matches_def gateway_extract_turns_def
          gateway_parse_response_def bind_result_def as_dict_def is_dict_def)
  qed
  then show "(\<exists>e. select_adapter depth path hs b = Inl e) \<or> select_adapter depth path hs b = Inr (gateway depth)"
    "\<exists>e. gateway_extract_turns depth b = Inl e" "\<exists>e. gateway_parse_response depth b = Inl e" by blast+
qed

lemma bad_body_dispatch:
  assumes "load_body (pe_depth env) b = Inl e \<or> (\<exists>v. load_body (pe_depth env) b = Inr v \<and> \<not> is_dict v)"
    "dir = lit ''input'' \<or> dir = lit ''output''"
  shows "\<exists>e. dispatch env sid dir path hs b cfg st = (st, Inl e)"
  using bad_body_matches(1) [OF assms(1), of path hs] bad_body_matches(2,3) [OF assms(1)] assms(2)
  by (auto simp: dispatch_def analyze_input_def analyze_output_def)

lemma blocked_at_once:
  assumes "select_adapter (pe_depth env) path hs b = Inr a" "extract_turns a b = Inr ts"
    "blocked (injection_guard (pe_threshold env) (new_ctx sid (lit ''input'') (adapter_name a) (resolve_role (Some hs)) ts))"
  shows "\<exists>d. dispatch env sid (lit ''input'') path hs b cfg st = (st, Inr d) \<and>
     block_check (injection_guard (pe_threshold env) (new_ctx sid (lit ''input'') (adapter_name a) (resolve_role (Some hs)) ts)) cfg True = Some d"
  using assms(3)
  by (simp add: dispatch_def analyze_input_def assms(1,2) INPUT_STAGES_def pure_stage_def conclude_input_def block_check_def)

section \<open>The audit record\<close>

lemma log_event_now_sinks:
  assumes "sk_file (ps_sinks st) 0" "event_line e = Inr l"
  shows "ps_sinks (fst (log_event_now e st)) = (ps_sinks st)\<lparr>sk_file := (\<lambda>k. sk_file (ps_sinks st) (Suc k)), sk_lines := sk_lines (ps_sinks st) @ [l]\<rparr>"
  using assms by (simp add: log_event_now_def log_event_def Let_def)

lemma write_pg_now_sinks:
  fixes env :: "'m pipe_env" and e st
  defines "t \<equiv> snd (read_clock (fst (connect (ps_world st))))"
  defines "row \<equiv> log_row_of (c_vault (pe_ctx env)) (sk_seq (ps_sinks st)) t e"
  shows "write_pg_now env e st =
    (if w_db (ps_world st) 0 \<and> pe_admits env row
     then (st\<lparr>ps_world := fst (read_clock (fst (connect (ps_world st)))),
              ps_sinks := (ps_sinks st)\<lparr>sk_rows := sk_rows (ps_sinks st) @ [row], sk_seq := sk_seq (ps_sinks st) + 1,
                 sk_bus := publish (serialize_event row False) (sk_bus (ps_sinks st))\<rparr>\<rparr>, Inr ())
     else (st\<lparr>ps_world := fst (read_clock (fst (connect (ps_world st))))\<rparr>, Inl DbError))"
  by (simp add: write_pg_now_def write_pg_def case_prod_beta Let_def t_def row_def connect_def)

lemma write_event_sinks:
  fixes env :: "'m pipe_env" and e l cfg st
  assumes "sk_file (ps_sinks st) 0" "event_line e = Inr l"
  defines "row \<equiv> log_row_of (c_vault (pe_ctx env)) (sk_seq (ps_sinks st)) (snd (read_clock (fst (connect (ps_world st))))) e"
  defines "stored \<equiv> log_sink cfg \<noteq> lit ''jsonl'' \<and> w_db (ps_world st) 0 \<and> pe_admits env row"
  shows "sk_rows (ps_sinks (fst (write_event env e cfg st))) = sk_rows (ps_sinks st) @ (if stored then [row] else []) \<and>
    sk_lines (ps_sinks (fst (write_event env e cfg st))) =
      sk_lines (ps_sinks st) @ (if stored \<and> log_sink cfg \<noteq> lit ''both'' then [] else [l]) \<and>
    sk_bus (ps_sinks (fst (write_event env e cfg st))) =
      (if stored then publish (serialize_event row False) (sk_bus (ps_sinks st)) else sk_bus (ps_sinks st))"
  unfolding write_event_def write_pg_now_sinks row_def [symmetric] stored_def
  using assms(1) by (simp add: log_event_now_sinks [OF _ assms(2)])

lemma dispatch_sinks: "ps_sinks (fst (dispatch env sid dir path hs b cfg st)) = ps_sinks st"
  using dispatch_sound [of env sid dir path hs b cfg st] by (metis prod.collapse)

lemma analyze_sinks:
  assumes "world_ok (pe_ctx env) (ps_world st)" "analyze env sid dir path hs b cfg latency st = (st', d)" "sk_file (ps_sinks st) 0"
    "\<forall>now \<in> range (w_clock (ps_world st)). \<exists>l. event_line (audit_of sid dir d latency now) = Inr l"
  shows "\<exists>now t l. let e = audit_of sid dir d latency now; row = log_row_of (c_vault (pe_ctx env)) (sk_seq (ps_sinks st)) t e;
      stored = (log_sink cfg \<noteq> lit ''jsonl'' \<and> w_db (ps_world (fst (dispatch env sid dir path hs b cfg st))) 0 \<and> pe_admits env row)
    in event_line e = Inr l \<and> sk_rows (ps_sinks st') = sk_rows (ps_sinks st) @ (if stored then [row] else []) \<and>
       sk_lines (ps_sinks st') = sk_lines (ps_sinks st) @ (if stored \<and> log_sink cfg \<noteq> lit ''both'' then [] else [l]) \<and>
       sk_bus (ps_sinks st') = (if stored then publish (serialize_event row False) (sk_bus (ps_sinks st)) else sk_bus (ps_sinks st)) \<and>
       t \<in> range (w_clock (ps_world st))"
proof -
  let ?st1 = "fst (dispatch env sid dir path hs b cfg st)"
  let ?now = "snd (read_clock (ps_world ?st1))"
  let ?st = "?st1\<lparr>ps_world := fst (read_clock (ps_world ?st1))\<rparr>"
  let ?e = "audit_of sid dir d latency ?now"
  let ?t = "snd (read_clock (fst (connect (ps_world ?st))))"
  have "?now \<in> range (w_clock (ps_world ?st1))" by (simp add: read_clock_def)
  moreover have "?t \<in> range (w_clock (ps_world ?st1))" by (simp add: read_clock_def connect_def)
  ultimately have clock: "?now \<in> range (w_clock (ps_world st))" "?t \<in> range (w_clock (ps_world st))"
    using dispatch_sound [of env sid dir path hs b cfg st ?st1, OF prod.collapse [symmetric]] assms(1)
    unfolding works_for_def later_def by blast+
  then obtain l where l: "event_line ?e = Inr l" using assms(4) by blast
  have st': "st' = fst (write_event env ?e cfg ?st)"
    using assms(2) by (auto simp: analyze_def emit_log_def case_prod_beta Let_def)
  have "sk_file (ps_sinks ?st) 0" "w_db (ps_world ?st) 0 = w_db (ps_world ?st1) 0" "ps_sinks ?st = ps_sinks st"
    using assms(3) by (simp_all add: dispatch_sinks read_clock_def)
  with write_event_sinks [where st = ?st and e = ?e and l = l and env = env and cfg = cfg] l clock(2) show ?thesis unfolding st' Let_def
    by (intro exI [of _ ?now] exI [of _ ?t] exI [of _ l]) simp
qed

text \<open>The concrete process on a response that is not an object.\<close>

lemma sample_failure_dispatch:
  "\<exists>e. dispatch sample_pipe_env (lit ''s'') (lit ''output'') [] [] (lit ''[1]'') default_config sample_pipe_state = (sample_pipe_state, Inl e)"
proof -
  have "load_body 5 (lit ''[1]'') = Inr (PList [PInt 1])" by code_simp
  then show ?thesis by (intro bad_body_dispatch) (simp_all add: sample_pipe_env_def is_dict_def)
qed

lemma sample_failure:
  "analyze sample_pipe_env (lit ''s'') (lit ''output'') [] [] (lit ''[1]'') default_config 3 sample_pipe_state =
    (emit_log sample_pipe_env (lit ''s'') (lit ''output'') (fail_decision default_config) 3 default_config sample_pipe_state, fail_decision default_config)"
  using sample_failure_dispatch by (auto simp: analyze_def Let_def)

lemma sample_failure_facts:
  "log_sink default_config = lit ''pg''" "\<And>r. pe_admits sample_pipe_env r" "sk_rows (ps_sinks sample_pipe_state) = []"
  "w_db (ps_world (fst (dispatch sample_pipe_env (lit ''s'') (lit ''output'') [] [] (lit ''[1]'') default_config sample_pipe_state))) 0"
  "sk_file (ps_sinks sample_pipe_state) 0"
  using sample_failure_dispatch
  by (auto simp: sample_pipe_state_def sample_sinks_def sample_pipe_env_def sample_pipe_world_def sample_world_def default_config_def)

lemma sample_failure_line:
  "\<forall>now \<in> range (w_clock (ps_world sample_pipe_state)). \<exists>l. event_line (audit_of (lit ''s'') (lit ''output'') (fail_decision default_config) 3 now) = Inr l"
proof -
  have "case event_line (audit_of (lit ''s'') (lit ''output'') (fail_decision default_config) 3 0) of Inr l \<Rightarrow> True | Inl e \<Rightarrow> False" by code_simp
  then show ?thesis by (auto simp: sample_pipe_state_def sample_pipe_world_def sample_world_def split: sum.splits)
qed

section \<open>Properties\<close>

text \<open>C13: Whatever the request, the database, the model and the files do, the verdict is one of the three actions of
  the wire, carries a body exactly when it is transform, and its reason does not name another action.\<close>

theorem verdict_wellformed:
  assumes "config_valid cfg"
  shows "let d = snd (analyze env sid dir path hs b cfg latency st)
    in action d \<in> set WIRE_ACTIONS \<and> (transformed_body d \<noteq> None \<longleftrightarrow> action d = lit ''transform'') \<and>
       dict_get (reason_obj d) (lit ''verdict'') \<in> {None, Some (PStr (action d))}"
  using analyze_verdict_ok [OF assms] by (simp add: verdict_ok_def Let_def)

lemma default_valid: "config_valid default_config"
  by (simp add: config_valid_def default_config_def)

theorem verdict_wellformed_witness:
  "transformed_body (snd (analyze sample_pipe_env (lit ''s'') (lit ''input'') [] [] (chat_body ''Kim'') default_config 3 sample_pipe_state)) \<noteq> None"
  using verdict_wellformed [OF default_valid, of sample_pipe_env "lit ''s''" "lit ''input''" "[]" "[]" "chat_body ''Kim''" 3 sample_pipe_state]
    sample_verdict by (simp add: Let_def)

text \<open>C20: A body that is not a JSON object, in either direction, gets the configured verdict for failures, and the
  process changes nothing but the audit record.\<close>

theorem malformed_body_fails:
  assumes "load_body (pe_depth env) b = Inl e \<or> (\<exists>v. load_body (pe_depth env) b = Inr v \<and> \<not> is_dict v)"
    "dir = lit ''input'' \<or> dir = lit ''output''"
  shows "analyze env sid dir path hs b cfg latency st = (emit_log env sid dir (fail_decision cfg) latency cfg st, fail_decision cfg)"
  using bad_body_dispatch [OF assms, of sid path hs cfg st] by (auto simp: analyze_def Let_def)

theorem malformed_body_fails_witness:
  "action (snd (analyze sample_pipe_env (lit ''s'') (lit ''output'') [] [] (lit ''[1]'') default_config 3 sample_pipe_state)) = lit ''block''"
proof -
  have "load_body 5 (lit ''[1]'') = Inr (PList [PInt 1])" by code_simp
  then have "\<exists>v. load_body (pe_depth sample_pipe_env) (lit ''[1]'') = Inr v \<and> \<not> is_dict v"
    by (simp add: sample_pipe_env_def is_dict_def)
  then have "analyze sample_pipe_env (lit ''s'') (lit ''output'') [] [] (lit ''[1]'') default_config 3 sample_pipe_state =
    (emit_log sample_pipe_env (lit ''s'') (lit ''output'') (fail_decision default_config) 3 default_config sample_pipe_state, fail_decision default_config)"
    by (intro malformed_body_fails) simp_all
  then show ?thesis by (simp add: default_config_def)
qed

text \<open>C19: When the threshold of the input guard can be loaded, a request whose last user turn matches a pattern
  whose score reaches the threshold is blocked before any other stage runs: sessions, vault, detector and rules are as they were,
  only the audit record is written, and the reason names the first pattern of the greatest score among those that
  match, and nothing else. The default threshold 0.7 is reached by every pattern. (When the threshold cannot be loaded
  the guard lets every request through.)\<close>

theorem injection_stops_request:
  assumes "pe_threshold env = Inr x" "select_adapter (pe_depth env) path hs b = Inr a"
    "extract_turns a b = Inr ts" "last_user_text ts = Some t" "t \<noteq> []" "r \<in> set INPUT_RULES" "rule_hits t r" "x \<le> score r"
  shows "\<exists>d best. analyze env sid (lit ''input'') path hs b cfg latency st = (emit_log env sid (lit ''input'') d latency cfg st, d) \<and>
    action d = lit ''block'' \<and>
    List.find (\<lambda>q. rule_hits t q \<and> (\<forall>q' \<in> set INPUT_RULES. rule_hits t q' \<longrightarrow> score q' \<le> score q)) INPUT_RULES = Some best \<and>
    dict_get (reason_obj d) (lit ''guardrail_hits'') =
      Some (PList [PDict [(lit ''type'', PStr (lit ''injection'')), (lit ''pattern'', PStr (rule_name best))]])"
proof -
  let ?start = "new_ctx sid (lit ''input'') (adapter_name a) (resolve_role (Some hs)) ts"
  let ?c = "injection_guard (pe_threshold env) ?start"
  obtain s n where b: "best_rule t INPUT_RULES 0 None = (s, n)" by fastforce
  have s: "x \<le> s" "s \<noteq> 0"
    using best_rule_spec [OF b] INPUT_RULES_scores INPUT_RULES_positive assms(6-8) by fastforce+
  obtain best where best: "List.find (\<lambda>q. rule_hits t q \<and> score q = s) INPUT_RULES = Some best" "n = Some (rule_name best)"
    using best_rule_spec [OF b] s(2) by (auto split: if_splits)
  have top: "rule_hits t q \<and> score q = s \<longleftrightarrow>
      rule_hits t q \<and> (\<forall>q' \<in> set INPUT_RULES. rule_hits t q' \<longrightarrow> score q' \<le> score q)" if "q \<in> set INPUT_RULES" for q
    using that best_rule_spec [OF b] best_rule_attained [OF b] s(2) by (auto intro: order.antisym)
  have first: "List.find (\<lambda>q. rule_hits t q \<and> (\<forall>q' \<in> set INPUT_RULES. rule_hits t q' \<longrightarrow> score q' \<le> score q)) INPUT_RULES = Some best"
    unfolding best(1) [symmetric] by (rule find_cong [OF refl]) (simp only: top)
  have t: "last_user_text (turns ?start) = Some t" using assms(4) by (simp add: new_ctx_def)
  have c: "?c = ?start\<lparr>injection := \<lparr>ihit = True, iscore = s, ipattern = n\<rparr>, blocked := True,
      block_reason := Some [(lit ''type'', PStr (lit ''injection'')), (lit ''pattern'', opt_str n)]\<rparr>"
    using s assms(5) by (simp add: injection_guard_def t assms(1) scan_def engine_scan_def b Let_def)
  then have "blocked ?c" by simp
  from blocked_at_once [OF assms(2,3) this] obtain d where
    d: "dispatch env sid (lit ''input'') path hs b cfg st = (st, Inr d)" "block_check ?c cfg True = Some d" by blast
  have dd: "d = block_decision ?c [(lit ''guardrail_hits'', PList [PDict [(lit ''type'', PStr (lit ''injection'')), (lit ''pattern'', PStr (rule_name best))]])]"
    using d(2) by (simp add: block_check_def c best(2) opt_str_def)
  have "dict_get (reason_obj d) (lit ''guardrail_hits'') =
      Some (PList [PDict [(lit ''type'', PStr (lit ''injection'')), (lit ''pattern'', PStr (rule_name best))]])"
    by (simp add: dd block_decision_def reason_of_def dict_update_def dict_get_def)
  moreover have "action d = lit ''block''" by (simp add: dd)
  ultimately show ?thesis using d(1) first by (auto simp: analyze_def Let_def)
qed

theorem injection_stops_request_witness:
  "dict_get (reason_obj (snd (analyze sample_pipe_env (lit ''s'') (lit ''input'') [] [] (chat_body ''dev mode select * from x'') default_config 3 sample_pipe_state)))
     (lit ''guardrail_hits'') =
   Some (PList [PDict [(lit ''type'', PStr (lit ''injection'')), (lit ''pattern'', PStr (lit ''bulk_exfiltration.select_star''))]])"
proof -
  let ?t = "lit ''dev mode select * from x''"
  have r: "INPUT_RULES ! 4 \<in> set INPUT_RULES" by (rule nth_mem) (simp add: INPUT_RULES_def)
  have hit: "rule_hits ?t (INPUT_RULES ! 4)" by code_simp
  have x: "pe_threshold sample_pipe_env = Inr (fl (7 / 10))" "select_adapter (pe_depth sample_pipe_env) [] [] (chat_body ''dev mode select * from x'') = Inr (gateway 5)"
    by (simp_all add: sample_pipe_env_def chat_select)
  have l: "last_user_text [\<lparr>trole = lit ''user'', ttext = ?t\<rparr>] = Some ?t" by (simp add: last_user_text_def)
  have ne: "?t \<noteq> []" by (simp add: lit_def)
  have sc: "fl (7 / 10) \<le> score (INPUT_RULES ! 4)" using INPUT_RULES_scores r by blast
  have f: "map_option rule_name (List.find (\<lambda>q. rule_hits ?t q \<and> (\<forall>q' \<in> set INPUT_RULES. rule_hits ?t q' \<longrightarrow> score q' \<le> score q)) INPUT_RULES) =
      Some (lit ''bulk_exfiltration.select_star'')" by code_simp
  from injection_stops_request [OF x(1,2) chat_turns l ne r hit sc, of "lit ''s''" default_config 3 sample_pipe_state] f
  show ?thesis by (elim exE conjE) (simp only: option.map option.inject snd_conv)
qed

text \<open>C12: Every verdict is recorded exactly once: as a row of the audit table, which is also broadcast, when the sink
  asks for it, the database answers and accepts it, and as a line of the file otherwise (as both with the
  sink both), provided the file can be written and the line encoded.\<close>

theorem verdict_recorded:
  assumes "world_ok (pe_ctx env) (ps_world st)" "analyze env sid dir path hs b cfg latency st = (st', d)" "sk_file (ps_sinks st) 0"
    "\<forall>now \<in> range (w_clock (ps_world st)). \<exists>l. event_line (audit_of sid dir d latency now) = Inr l"
  shows "\<exists>now t l. let e = audit_of sid dir d latency now; row = log_row_of (c_vault (pe_ctx env)) (sk_seq (ps_sinks st)) t e;
      stored = (log_sink cfg \<noteq> lit ''jsonl'' \<and> w_db (ps_world (fst (dispatch env sid dir path hs b cfg st))) 0 \<and> pe_admits env row)
    in event_line e = Inr l \<and> sk_rows (ps_sinks st') = sk_rows (ps_sinks st) @ (if stored then [row] else []) \<and>
       sk_lines (ps_sinks st') = sk_lines (ps_sinks st) @ (if stored \<and> log_sink cfg \<noteq> lit ''both'' then [] else [l]) \<and>
       sk_bus (ps_sinks st') = (if stored then publish (serialize_event row False) (sk_bus (ps_sinks st)) else sk_bus (ps_sinks st)) \<and>
       t \<in> range (w_clock (ps_world st))"
  using assms by (rule analyze_sinks)

theorem verdict_recorded_witness:
  "length (sk_rows (ps_sinks (fst (analyze sample_pipe_env (lit ''s'') (lit ''output'') [] [] (lit ''[1]'') default_config 3 sample_pipe_state)))) = 1"
proof -
  note facts = sample_failure sample_failure_facts sample_failure_line
  show ?thesis using verdict_recorded [OF sample_pipe_ok(3) facts(1) facts(6,7)] by (auto simp: facts Let_def)
qed

text \<open>C7: The process keeps its invariant while it serves, and a session that is alive is not touched by any number of
  requests of other sessions and sweeps: it loads to the same state at every time to come.\<close>

theorem other_sessions_undisturbed:
  assumes "(serves env S)\<^sup>*\<^sup>* st st'" "env_documented (pe_detect env)" "pipe_ok env st" "sid \<notin> S" "open_session sid s (ps_world st)"
  shows "pipe_ok env st' \<and> (\<forall>t \<in> range (w_clock (ps_world st')). snd (mem_load t sid (store_of (ps_world st'))) = Some s)"
  using serves_star_ok [OF assms(1-3)] assms(4,5) open_session_load by blast

theorem other_sessions_undisturbed_witness:
  "let s = new_session 0 (lit ''a'') None new_store;
       st = sample_pipe_state\<lparr>ps_world := sample_pipe_world\<lparr>w_store := Some (store_save s new_store, True)\<rparr>\<rparr>;
       st' = fst (analyze sample_pipe_env (lit ''s'') (lit ''input'') [] [] (chat_body ''Kim'') default_config 3 st)
   in snd (mem_load (w_clock (ps_world st') 0) (lit ''a'') (store_of (ps_world st'))) = Some s"
proof -
  let ?s = "new_session 0 (lit ''a'') None new_store"
  let ?w = "sample_pipe_world\<lparr>w_store := Some (store_save ?s new_store, True)\<rparr>"
  let ?st = "sample_pipe_state\<lparr>ps_world := ?w\<rparr>"
  let ?st' = "fst (analyze sample_pipe_env (lit ''s'') (lit ''input'') [] [] (chat_body ''Kim'') default_config 3 ?st)"
  have "world_ok (pe_ctx sample_pipe_env) ?w" using sample_pipe_ok(3)
    by (simp add: world_ok_def store_of_def store_save_def new_store_def store_inv_def sample_pipe_state_def new_session_def
      session_ok_def entities_ok_def sample_pipe_world_def sample_world_def)
  then have "pipe_ok sample_pipe_env ?st" using sample_pipe_ok(2) by (simp add: pipe_ok_def)
  moreover have "serves sample_pipe_env {lit ''s''} ?st ?st'" by (rule serve_request [OF _ prod.collapse [symmetric]]) simp
  moreover have "\<not> is_expired 0 ?s" by code_simp
  then have "open_session (lit ''a'') ?s ?w"
    by (auto simp: open_session_def store_of_def store_save_def new_store_def new_session_def sample_pipe_world_def sample_world_def)
  ultimately show ?thesis
    using other_sessions_undisturbed [OF r_into_rtranclp, of sample_pipe_env "{lit ''s''}" ?st ?st' "lit ''a''" ?s] sample_pipe_ok(1)
    by (simp add: Let_def)
qed

end
