(* ===== verification/Api.thy ===== *)
theory Api
  imports Service "HOL-Library.Product_Lexorder"
begin

text \<open>
  \<open>app/api.py\<close>: the read-only routes over the audit table. A route reads
  one connection from the world and answers with a value or an HTTP status: 422 where the code
  raises \<open>HTTPException\<close> or FastAPI refuses a parameter, 500 where an exception escapes. The SELECT
  statements are functions of the rows. \<open>datetime.fromisoformat\<close> is a parameter: it gives the wall-clock
  time and, when the string has one, its offset, both in seconds. So are the aggregates
  of PostgreSQL (\<open>avg\<close>, \<open>percentile_cont\<close>), \<open>date_trunc\<close> in the time zone of the connection, the text of a JSONB value that
  is not a string, the rank of a text in the collation, and the order of groups that
  ORDER BY leaves open. The route over the restore log is in \<open>Vault_Audit\<close>, the middleware in \<open>Boot\<close>.
\<close>

datatype 'a reply = Reply 'a | Status nat

definition EVENTS_LIMIT_MAX :: int where "EVENTS_LIMIT_MAX = 500"

definition DIRECTIONS :: "pystr list" where "DIRECTIONS = map lit [''input'', ''output'']"

definition VERDICTS :: "pystr list" where "VERDICTS = map lit [''allow'', ''block'', ''transform'']"

record api_env =
  fromisoformat :: "pystr \<Rightarrow> (pyfloat \<times> pyfloat option) option"
  sql_avg :: "int list \<Rightarrow> pyfloat"
  sql_p95 :: "int list \<Rightarrow> pyfloat"
  sql_trunc :: "pystr \<Rightarrow> pyfloat \<Rightarrow> pyfloat"
  sql_text :: "pyval \<Rightarrow> pystr"
  sql_rank :: "pystr \<Rightarrow> nat"
  sql_ties :: "(pystr \<times> nat) list \<Rightarrow> (pystr \<times> nat) list"

section \<open>Parameters\<close>

definition parse_since :: "api_env \<Rightarrow> pystr \<Rightarrow> pyfloat reply" where
  "parse_since ae s =
     (case fromisoformat ae s of
        None \<Rightarrow> Status 422
      | Some (wall, offset) \<Rightarrow> Reply (wall - (case offset of None \<Rightarrow> of_int (KST * 3600) | Some x \<Rightarrow> x)))"

text \<open>\<open>(\d+)([mh])\<close>; \<open>int\<close> refuses more than 4300 digits.\<close>

definition WINDOW_RE :: re where
  "WINDOW_RE = seqs [Grp 1 (Plus Digit), Grp 2 (Cls False [Lit 109, Lit 104])]"

definition py_int_digits :: "pystr \<Rightarrow> int result" where
  "py_int_digits s = (if 4300 < length s then Inl ValueError
     else map_sum id (foldl (\<lambda>a d. 10 * a + d) 0) (py_ints s))"

definition parse_window :: "pystr \<Rightarrow> int reply" where
  "parse_window w =
     (let w = strip w in
      case re_fullmatch WINDOW_RE False w of
        None \<Rightarrow> Status 422
      | Some m \<Rightarrow>
          (case py_int_digits (the (group w m 1)) of
             Inl e \<Rightarrow> Status 500
           | Inr n \<Rightarrow> if n = 0 then Status 422
                      else Reply (if group w m 2 = Some (lit ''m'') then n else n * 60)))"

section \<open>Reading the audit table\<close>

datatype cond =
    Direction pystr
  | Verdict_action pystr
  | Session int
  | Since pyfloat

primrec cond_holds :: "cond \<Rightarrow> log_row \<Rightarrow> bool" where
  "cond_holds (Direction d) r = (lr_direction r = d)"
| "cond_holds (Verdict_action v) r = (lr_verdict_action r = v)"
| "cond_holds (Session u) r = (lr_session r = u)"
| "cond_holds (Since t) r = (case lr_created_at r of None \<Rightarrow> False | Some x \<Rightarrow> t \<le> x)"

text \<open>\<open>ORDER BY created_at, event_id\<close>; \<open>created_at\<close> is NOT NULL in the schema.\<close>

datatype position = Position (instant: pyfloat) (number: int)

instantiation position :: linorder
begin

definition less_eq_position :: "position \<Rightarrow> position \<Rightarrow> bool" where
  "less_eq_position p q \<longleftrightarrow> instant p < instant q \<or> instant p = instant q \<and> number p \<le> number q"

definition less_position :: "position \<Rightarrow> position \<Rightarrow> bool" where
  "less_position p q \<longleftrightarrow> instant p < instant q \<or> instant p = instant q \<and> number p < number q"

instance
  by standard (auto simp: less_eq_position_def less_position_def position.expand)

end

definition position_of :: "log_row \<Rightarrow> position" where
  "position_of r = Position (case lr_created_at r of None \<Rightarrow> 0 | Some t \<Rightarrow> t) (lr_event_id r)"

datatype order = Newest_first | Oldest_first

definition order_by :: "order \<Rightarrow> log_row list \<Rightarrow> log_row list" where
  "order_by ord rows = (case ord of Newest_first \<Rightarrow> sort_desc position_of rows | Oldest_first \<Rightarrow> sort_key position_of rows)"

text \<open>One SELECT in a connection of its own.\<close>

definition run_sql :: "(log_row list \<Rightarrow> 'a) \<Rightarrow> 'm pipe_state \<Rightarrow> 'm pipe_state \<times> 'a result" where
  "run_sql select st = (let (w, up) = connect (ps_world st) in
     (st\<lparr>ps_world := w\<rparr>, if \<not> up then Inl DbError else Inr (select (sk_rows (ps_sinks st)))))"

definition fetch_events :: "cond list \<Rightarrow> order \<Rightarrow> int option \<Rightarrow> 'm pipe_state \<Rightarrow> 'm pipe_state \<times> log_row list result" where
  "fetch_events conds ord limit st =
     run_sql (\<lambda>table. let rows = order_by ord (filter (\<lambda>r. \<forall>c \<in> set conds. cond_holds c r) table)
       in case limit of None \<Rightarrow> rows | Some n \<Rightarrow> take (nat n) rows) st"

definition answer :: "('a \<Rightarrow> 'b) \<Rightarrow> 'a result \<Rightarrow> 'b reply" where
  "answer f r = (case r of Inl e \<Rightarrow> Status 500 | Inr x \<Rightarrow> Reply (f x))"

section \<open>Routes\<close>

definition health :: "'m pipe_state \<Rightarrow> 'm pipe_state \<times> dict" where
  "health st = (let (w, up) = connect (ps_world st)
     in (st\<lparr>ps_world := w\<rparr>, [(lit ''status'', PStr (lit ''ok'')), (lit ''db'', PStr (if up then lit ''ok'' else lit ''down''))]))"

definition opt_cond :: "('a \<Rightarrow> cond) \<Rightarrow> 'a option \<Rightarrow> cond list" where
  "opt_cond f x = (case x of None \<Rightarrow> [] | Some v \<Rightarrow> [f v])"

definition bad_choice :: "pystr list \<Rightarrow> pystr option \<Rightarrow> bool" where
  "bad_choice choices x = (case x of None \<Rightarrow> False | Some v \<Rightarrow> v \<notin> set choices)"

definition events :: "api_env \<Rightarrow> vault_env \<Rightarrow> int \<Rightarrow> pystr option \<Rightarrow> pystr option \<Rightarrow> pystr option \<Rightarrow> pystr option \<Rightarrow>
    'm pipe_state \<Rightarrow> 'm pipe_state \<times> dict list reply" where
  "events ae env limit dir ver sid since st =
     (if limit < 1 then (st, Status 422)
      else if bad_choice DIRECTIONS dir then (st, Status 422)
      else if bad_choice VERDICTS ver then (st, Status 422)
      else
        let base = opt_cond Direction dir @ opt_cond Verdict_action ver @ opt_cond (\<lambda>s. Session (coerce_session_uuid env s)) sid;
            conds = (case since of None \<Rightarrow> Reply base
                     | Some s \<Rightarrow> (case parse_since ae s of Status c \<Rightarrow> Status c | Reply t \<Rightarrow> Reply (base @ [Since t])))
        in case conds of
             Status c \<Rightarrow> (st, Status c)
           | Reply cs \<Rightarrow>
               let (st, r) = fetch_events cs Newest_first (Some (min limit EVENTS_LIMIT_MAX)) st
               in (st, answer (map (\<lambda>row. serialize_event row False)) r))"

definition session_timeline :: "vault_env \<Rightarrow> pystr \<Rightarrow> 'm pipe_state \<Rightarrow> 'm pipe_state \<times> dict list reply" where
  "session_timeline env sid st =
     (let (st, r) = fetch_events [Session (coerce_session_uuid env sid)] Oldest_first None st
      in (st, answer (map (\<lambda>row. serialize_event row True)) r))"

section \<open>Statistics\<close>

definition STATS_TOP_N :: nat where "STATS_TOP_N = 10"

text \<open>\<open>datetime.now(_KST) - timedelta(minutes=n)\<close>: raises \<open>OverflowError\<close> before the year 1.\<close>

definition stats_since :: "pyfloat \<Rightarrow> int \<Rightarrow> pyfloat reply" where
  "stats_since now n = (let t = now - of_int (60 * n) in if t + of_int (KST * 3600) < - 62135596800 then Status 500 else Reply t)"

definition count_if :: "('a \<Rightarrow> bool) \<Rightarrow> 'a list \<Rightarrow> nat" where
  "count_if P xs = length (filter P xs)"

definition group_counts :: "'k list \<Rightarrow> ('k \<times> nat) list" where
  "group_counts ks = map (\<lambda>k. (k, count_if (\<lambda>x. x = k) ks)) (remdups ks)"

definition has_verdict :: "string \<Rightarrow> log_row \<Rightarrow> bool" where
  "has_verdict v r = (lr_verdict_action r = lit v)"

definition verdict_counts :: "log_row list \<Rightarrow> dict" where
  "verdict_counts rows = map (\<lambda>v. (lit v, PInt (int (count_if (has_verdict v) rows)))) [''allow'', ''block'', ''transform'']"

definition array_elems :: "pyval \<Rightarrow> pyval list" where
  "array_elems v = (case v of PList vs \<Rightarrow> vs | _ \<Rightarrow> [])"

definition elem_text :: "api_env \<Rightarrow> pystr \<Rightarrow> pyval \<Rightarrow> pystr option" where
  "elem_text ae k e =
     (case e of
        PDict d \<Rightarrow> (case dict_get d k of None \<Rightarrow> None | Some PNone \<Rightarrow> None | Some (PStr s) \<Rightarrow> Some s | Some v \<Rightarrow> Some (sql_text ae v))
      | _ \<Rightarrow> None)"

text \<open>\<open>ORDER BY 2 DESC, 1 LIMIT n\<close>; NULL comes after every text.\<close>

definition top_counts :: "api_env \<Rightarrow> pystr option list \<Rightarrow> (pystr option \<times> nat) list" where
  "top_counts ae ks = take STATS_TOP_N (sort_key (\<lambda>(k, n). (- int n, k = None, case k of None \<Rightarrow> 0 | Some t \<Rightarrow> sql_rank ae t)) (group_counts ks))"

definition by_purpose :: "api_env \<Rightarrow> log_row list \<Rightarrow> pyval" where
  "by_purpose ae rows =
     PList (map (\<lambda>(p, n). PDict [(lit ''purpose'', PStr p), (lit ''count'', PInt (int n))])
       (sort_desc snd (sql_ties ae (group_counts (map (\<lambda>r. case lr_purpose r of PStr p \<Rightarrow> p | _ \<Rightarrow> lit ''(none)'') rows)))))"

definition by_element :: "api_env \<Rightarrow> pystr \<Rightarrow> (log_row \<Rightarrow> pyval) \<Rightarrow> log_row list \<Rightarrow> pyval" where
  "by_element ae k col rows =
     PList (map (\<lambda>(t, n). PDict [(k, case t of None \<Rightarrow> PNone | Some t \<Rightarrow> PStr t), (lit ''count'', PInt (int n))])
       (top_counts ae (map (elem_text ae k) (concat (map (\<lambda>r. array_elems (col r)) rows)))))"

definition trunc_of :: "api_env \<Rightarrow> pystr \<Rightarrow> log_row \<Rightarrow> pyfloat" where
  "trunc_of ae bucket r = sql_trunc ae bucket (instant (position_of r))"

definition time_buckets :: "api_env \<Rightarrow> pystr \<Rightarrow> log_row list \<Rightarrow> pyval" where
  "time_buckets ae bucket rows =
     PList (map (\<lambda>t. PDict ((lit ''ts'', PStr (iso_format KST t)) # verdict_counts (filter (\<lambda>r. trunc_of ae bucket r = t) rows)))
       (sort (remdups (map (trunc_of ae bucket) rows))))"

definition stats_summary :: "api_env \<Rightarrow> log_row list \<Rightarrow> dict" where
  "stats_summary ae rows =
     [(lit ''totals'', PDict
        [(lit ''events'', PInt (int (length rows))),
         (lit ''sessions'', PInt (int (length (remdups (map lr_session rows))))),
         (lit ''input'', PInt (int (count_if (\<lambda>r. lr_direction r = lit ''input'') rows))),
         (lit ''output'', PInt (int (count_if (\<lambda>r. lr_direction r = lit ''output'') rows)))]),
      (lit ''verdict'', PDict (verdict_counts rows)),
      (lit ''guardrail_hits'', PInt (int (count_if (\<lambda>r. array_elems (lr_guardrail_hits r) \<noteq> []) rows))),
      (lit ''fail_closed'', PInt (int (count_if lr_fail_policy_applied rows))),
      (lit ''latency_ms'', PDict
        [(lit ''avg'', PFloat (py_round (if rows = [] then 0 else sql_avg ae (map lr_latency_ms rows)) 1)),
         (lit ''p95'', PFloat (py_round (if rows = [] then 0 else sql_p95 ae (map lr_latency_ms rows)) 1))])]"

text \<open>The queries of the route one after the other; the first that fails ends it.\<close>

definition sql_then :: "('m pipe_state \<Rightarrow> 'm pipe_state \<times> 'a result) \<Rightarrow> ('a \<Rightarrow> 'm pipe_state \<Rightarrow> 'm pipe_state \<times> 'b reply) \<Rightarrow>
    'm pipe_state \<Rightarrow> 'm pipe_state \<times> 'b reply" where
  "sql_then q f st = (case q st of (st, Inl e) \<Rightarrow> (st, Status 500) | (st, Inr x) \<Rightarrow> f x st)"

definition stats :: "api_env \<Rightarrow> pystr \<Rightarrow> 'm pipe_state \<Rightarrow> 'm pipe_state \<times> dict reply" where
  "stats ae window st =
     (case parse_window window of
        Status c \<Rightarrow> (st, Status c)
      | Reply minutes \<Rightarrow>
          let (w, now) = read_clock (ps_world st); st = st\<lparr>ps_world := w\<rparr>;
              bucket = (if minutes \<le> 120 then lit ''minute'' else lit ''hour'')
          in case stats_since now minutes of
               Status c \<Rightarrow> (st, Status c)
             | Reply since \<Rightarrow>
                 let recent = filter (cond_holds (Since since)) in
                 sql_then (run_sql (\<lambda>rows. stats_summary ae (recent rows))) (\<lambda>summary.
                 sql_then (run_sql (\<lambda>rows. by_purpose ae (recent rows))) (\<lambda>purposes.
                 sql_then (run_sql (\<lambda>rows. by_element ae (lit ''type'') lr_entities_summary (recent rows))) (\<lambda>types.
                 sql_then (run_sql (\<lambda>rows. by_element ae (lit ''action'') lr_transforms (recent rows))) (\<lambda>actions.
                 sql_then (run_sql (\<lambda>rows. time_buckets ae bucket (recent rows))) (\<lambda>buckets st.
                   let (w, now) = read_clock (ps_world st)
                   in (st\<lparr>ps_world := w\<rparr>, Reply
                        ([(lit ''window'', PStr window), (lit ''generated_at'', PStr (iso_format KST now))] @ summary @
                         [(lit ''by_purpose'', purposes), (lit ''by_entity_type'', types), (lit ''by_action'', actions),
                          (lit ''buckets'', buckets)]))))))) st)"

abbreviation "ser r \<equiv> serialize_event r False"

section \<open>Reading back\<close>

definition event_matches :: "api_env \<Rightarrow> vault_env \<Rightarrow> pystr option \<Rightarrow> pystr option \<Rightarrow> pystr option \<Rightarrow> pystr option \<Rightarrow> log_row \<Rightarrow> bool" where
  "event_matches ae env dir ver sid since r \<longleftrightarrow>
     (\<forall>d \<in> set_option dir. lr_direction r = d) \<and> (\<forall>v \<in> set_option ver. lr_verdict_action r = v) \<and>
     (\<forall>s \<in> set_option sid. lr_session r = coerce_session_uuid env s) \<and>
     (\<forall>s \<in> set_option since. \<exists>t x. parse_since ae s = Reply t \<and> lr_created_at r = Some x \<and> t \<le> x)"

definition bad_query :: "api_env \<Rightarrow> int \<Rightarrow> pystr option \<Rightarrow> pystr option \<Rightarrow> pystr option \<Rightarrow> bool" where
  "bad_query ae limit dir ver since \<longleftrightarrow>
     limit < 1 \<or> bad_choice DIRECTIONS dir \<or> bad_choice VERDICTS ver \<or> (\<exists>s \<in> set_option since. fromisoformat ae s = None)"

lemma opt_cond_holds: "(\<forall>c \<in> set (opt_cond f x). cond_holds c r) \<longleftrightarrow> (\<forall>v \<in> set_option x. cond_holds (f v) r)"
  by (cases x) (simp_all add: opt_cond_def)

lemma events_reply:
  assumes "1 \<le> limit" "\<not> bad_choice DIRECTIONS dir" "\<not> bad_choice VERDICTS ver" "\<forall>s \<in> set_option since. \<exists>t. parse_since ae s = Reply t"
  shows "events ae env limit dir ver sid since st = (st\<lparr>ps_world := fst (connect (ps_world st))\<rparr>,
    if w_db (ps_world st) 0
    then Reply (map ser (take (nat (min limit EVENTS_LIMIT_MAX))
           (sort_desc position_of (filter (event_matches ae env dir ver sid since) (sk_rows (ps_sinks st))))))
    else Status 500)"
proof -
  let ?base = "opt_cond Direction dir @ opt_cond Verdict_action ver @ opt_cond (\<lambda>s. Session (coerce_session_uuid env s)) sid"
  have "\<exists>cs. (case since of None \<Rightarrow> Reply ?base
      | Some s \<Rightarrow> (case parse_since ae s of Status c \<Rightarrow> Status c | Reply t \<Rightarrow> Reply (?base @ [Since t]))) = Reply cs \<and>
      (\<lambda>r. \<forall>c \<in> set cs. cond_holds c r) = event_matches ae env dir ver sid since"
    using assms(4)
    by (cases since) (auto simp: event_matches_def ball_Un opt_cond_holds fun_eq_iff split: option.splits)
  then obtain cs where cs: "(case since of None \<Rightarrow> Reply ?base
      | Some s \<Rightarrow> (case parse_since ae s of Status c \<Rightarrow> Status c | Reply t \<Rightarrow> Reply (?base @ [Since t]))) = Reply cs"
    "(\<lambda>r. \<forall>c \<in> set cs. cond_holds c r) = event_matches ae env dir ver sid since" by blast
  show ?thesis
    using assms(1-3) unfolding events_def Let_def cs(1) reply.case
    by (simp add: fetch_events_def run_sql_def cs(2) order_by_def answer_def connect_def Let_def)
qed

lemma events_bad:
  assumes "limit < 1 \<or> bad_choice DIRECTIONS dir \<or> bad_choice VERDICTS ver \<or> (\<exists>s \<in> set_option since. fromisoformat ae s = None)"
  shows "events ae env limit dir ver sid since st = (st, Status 422)"
  using assms by (auto simp: events_def parse_since_def Let_def)

lemma position_inj: "distinct (map lr_event_id rows) \<Longrightarrow> inj_on position_of (set rows)"
  by (auto simp: position_of_def inj_on_def distinct_map)

lemma sorted_wrt_strict:
  assumes "sorted_wrt (\<lambda>x y. k y \<le> (k x :: 'k::linorder)) xs" "distinct xs" "inj_on k (set xs)"
  shows "sorted_wrt (\<lambda>x y. k y < k x) xs"
  using assms by (induction xs) (auto simp: less_le inj_on_def)

lemma newest_rows:
  fixes rows n P
  assumes "distinct (map lr_event_id rows)"
  defines "res \<equiv> take n (sort_desc position_of (filter P rows))"
  shows "sorted_wrt (\<lambda>x y. position_of y < position_of x) res" "set res \<subseteq> {r \<in> set rows. P r}"
    "length res = min n (length (filter P rows))"
    "\<forall>r \<in> {r \<in> set rows. P r} - set res. \<forall>x \<in> set res. position_of r < position_of x"
proof -
  let ?all = "sort_desc position_of (filter P rows)"
  have "distinct ?all" using assms(1)
    by (metis distinct_filter distinct_map distinct_rev distinct_sort sort_desc_def)
  moreover have "inj_on position_of (set ?all)" using position_inj [OF assms(1)] by (auto intro: inj_on_subset)
  ultimately have s: "sorted_wrt (\<lambda>x y. position_of y < position_of x) ?all"
    using sorted_wrt_strict [OF sorted_sort_desc] by blast
  then have "sorted_wrt (\<lambda>x y. position_of y < position_of x) (take n ?all @ drop n ?all)" by simp
  then have c: "\<forall>x \<in> set (take n ?all). \<forall>y \<in> set (drop n ?all). position_of y < position_of x" "sorted_wrt (\<lambda>x y. position_of y < position_of x) (take n ?all)"
    unfolding sorted_wrt_append by auto
  have all: "set (take n ?all) \<union> set (drop n ?all) = {r \<in> set rows. P r}"
    by (metis append_take_drop_id set_append set_filter set_sort_desc)
  show "sorted_wrt (\<lambda>x y. position_of y < position_of x) res" using c(2) by (simp add: res_def)
  show "set res \<subseteq> {r \<in> set rows. P r}" using all by (auto simp: res_def)
  show "length res = min n (length (filter P rows))" by (simp add: res_def)
  show "\<forall>r \<in> {r \<in> set rows. P r} - set res. \<forall>x \<in> set res. position_of r < position_of x" using c(1) all unfolding res_def by blast
qed

section \<open>Windows\<close>

lemma parse_huge: "parse_window (lit ''9999999999h'') = Reply 599999999940"
  by code_simp
lemma parse_quarter: "parse_window (lit '' 15m '') = Reply 15"
  by code_simp
lemma parse_zero: "parse_window (lit ''0h'') = Status 422"
  by code_simp

lemma huge_window_fails:
  assumes "w_clock (ps_world st) 0 < 253402300800"
  shows "snd (stats ae (lit ''9999999999h'') st) = Status 500"
  using assms by (simp add: stats_def parse_huge stats_since_def read_clock_def KST_def Let_def)

section \<open>The statistics agree\<close>

lemma count_if_partition:
  "finite A \<Longrightarrow> f ` set xs \<subseteq> A \<Longrightarrow> (\<Sum>k\<in>A. count_if P (filter (\<lambda>x. f x = k) xs)) = count_if P xs"
proof (induction xs)
  case (Cons x xs)
  have "(\<Sum>k\<in>A. count_if P (filter (\<lambda>y. f y = k) (x # xs))) =
      (\<Sum>k\<in>A. count_if P (filter (\<lambda>y. f y = k) xs) + (if k = f x \<and> P x then 1 else 0))"
    by (intro sum.cong) (auto simp: count_if_def)
  then show ?case using Cons by (simp add: sum.distrib count_if_def)
qed (simp add: count_if_def)

lemma group_counts_total: "(\<Sum>(k, n) \<leftarrow> group_counts ks. n) = length ks"
proof -
  have "(\<Sum>(k, n) \<leftarrow> group_counts ks. n) = (\<Sum>k\<in>set ks. count_if (\<lambda>x. x = k) ks)"
    by (simp add: group_counts_def sum_list_distinct_conv_sum_set split_def comp_def)
  also have "\<dots> = (\<Sum>k\<in>set ks. count_if (\<lambda>x. True) (filter (\<lambda>x. x = k) ks))" by (simp add: count_if_def)
  finally show ?thesis using count_if_partition [of "set ks" "\<lambda>x. x" ks "\<lambda>x. True"] by (simp add: count_if_def)
qed

lemma verdicts_total:
  "\<forall>r \<in> set rows. lr_verdict_action r \<in> set VERDICTS \<Longrightarrow>
    count_if (has_verdict ''allow'') rows + count_if (has_verdict ''block'') rows + count_if (has_verdict ''transform'') rows = length rows"
  by (induction rows) (auto simp: count_if_def has_verdict_def VERDICTS_def)

text \<open>The buckets split the verdict counts of the window.\<close>

lemma buckets_total:
  "(\<Sum>t \<leftarrow> sort (remdups (map (trunc_of ae bucket) rows)). count_if P (filter (\<lambda>r. trunc_of ae bucket r = t) rows)) = count_if P rows"
  using count_if_partition [of "trunc_of ae bucket ` set rows" "trunc_of ae bucket" rows P]
  by (simp add: sum_list_distinct_conv_sum_set)

definition timeline_of :: "int \<Rightarrow> log_row list \<Rightarrow> dict list" where
  "timeline_of u rows = map (\<lambda>r. serialize_event r True) (sort_key position_of (filter (\<lambda>r. lr_session r = u) rows))"

lemma timeline_reply: "snd (session_timeline env sid st) =
    (if w_db (ps_world st) 0 then Reply (timeline_of (coerce_session_uuid env sid) (sk_rows (ps_sinks st))) else Status 500)"
  by (simp add: session_timeline_def fetch_events_def run_sql_def order_by_def answer_def timeline_of_def connect_def Let_def)

lemma sort_key_snoc_max: "\<forall>x \<in> set xs. k x \<le> k y \<Longrightarrow> sort_key k (xs @ [y]) = sort_key k xs @ [y]"
proof (rule properties_for_sort_key)
  assume m: "\<forall>x \<in> set xs. k x \<le> k y"
  show "mset (sort_key k xs @ [y]) = mset (xs @ [y])" by simp
  show "filter (\<lambda>x. k z = k x) (sort_key k xs @ [y]) = filter (\<lambda>x. k z = k x) (xs @ [y])" for z
    using sort_key_stable [of k "k z" xs] by (simp add: eq_commute [of "k z"])
  show "sorted (map k (sort_key k xs @ [y]))" using m by (auto simp: sorted_append)
qed

lemma timeline_snoc:
  "\<forall>r \<in> set rows. position_of r \<le> position_of row \<Longrightarrow>
    timeline_of u (rows @ [row]) = timeline_of u rows @ (if lr_session row = u then [serialize_event row True] else [])"
  by (auto simp: timeline_of_def sort_key_snoc_max)

lemma log_row_fields:
  "lr_session (log_row_of env i t (audit_of sid dir d latency now)) = coerce_session_uuid env sid"
  "lr_direction (log_row_of env i t (audit_of sid dir d latency now)) = dir"
  "lr_verdict_action (log_row_of env i t (audit_of sid dir d latency now)) = action d"
  "lr_reason (log_row_of env i t (audit_of sid dir d latency now)) = Some (dict_set (lit ''session_id_raw'') (PStr sid) (reason_obj d))"
  "position_of (log_row_of env i t e) = Position t i"
  by (simp_all add: log_row_of_def audit_of_def position_of_def Let_def)

section \<open>Properties\<close>

definition sample_row :: "int \<Rightarrow> log_row" where
  "sample_row i = \<lparr>lr_event_id = i, lr_session = 7, lr_direction = lit ''input'', lr_provider = PNone, lr_purpose = PNone,
     lr_verdict_action = lit ''allow'', lr_transforms = PList [], lr_entities_summary = PList [], lr_guardrail_hits = PList [],
     lr_fail_policy_applied = False, lr_latency_ms = 1, lr_reason = None, lr_created_at = Some (of_int i)\<rparr>"

text \<open>C18: The route of the audit table refuses exactly the malformed queries, fails when the database is down, and else
  answers with the newest matching rows, newest first and at most 500, and no matching row that is
  left out is newer than one that is returned.\<close>

theorem events_newest:
  assumes "distinct (map lr_event_id (sk_rows (ps_sinks st)))"
  shows "case snd (events ae env limit dir ver sid since st) of
      Status c \<Rightarrow> c = (if bad_query ae limit dir ver since then 422 else 500) \<and> (bad_query ae limit dir ver since \<or> \<not> w_db (ps_world st) 0)
    | Reply out \<Rightarrow> \<not> bad_query ae limit dir ver since \<and> w_db (ps_world st) 0 \<and>
        (\<exists>res. out = map (\<lambda>r. serialize_event r False) res \<and> sorted_wrt (\<lambda>x y. position_of y < position_of x) res \<and>
          set res \<subseteq> {r \<in> set (sk_rows (ps_sinks st)). event_matches ae env dir ver sid since r} \<and>
          length res = min (nat (min limit EVENTS_LIMIT_MAX)) (length (filter (event_matches ae env dir ver sid since) (sk_rows (ps_sinks st)))) \<and>
          (\<forall>r \<in> {r \<in> set (sk_rows (ps_sinks st)). event_matches ae env dir ver sid since r} - set res. \<forall>x \<in> set res. position_of r < position_of x))"
proof (cases "bad_query ae limit dir ver since")
  case True
  then show ?thesis using events_bad [of limit dir ver since ae env sid st] by (simp add: bad_query_def)
next
  case False
  then have "\<forall>s \<in> set_option since. \<exists>t. parse_since ae s = Reply t"
    by (auto simp: bad_query_def parse_since_def split: option.splits)
  with False have "snd (events ae env limit dir ver sid since st) = (if w_db (ps_world st) 0
      then Reply (map (\<lambda>r. serialize_event r False) (take (nat (min limit EVENTS_LIMIT_MAX))
             (sort_desc position_of (filter (event_matches ae env dir ver sid since) (sk_rows (ps_sinks st))))))
      else Status 500)"
    by (simp add: bad_query_def events_reply)
  note reply = this
  let ?P = "event_matches ae env dir ver sid since" and ?n = "nat (min limit EVENTS_LIMIT_MAX)"
  let ?res = "take ?n (sort_desc position_of (filter ?P (sk_rows (ps_sinks st))))"
  note newest = newest_rows [OF assms, where P = ?P and n = ?n]
  show ?thesis
  proof (cases "w_db (ps_world st) 0")
    case True
    show ?thesis unfolding reply if_P [OF True] reply.case
      using False True by (intro conjI exI [of _ ?res] refl newest) simp_all
  qed (use False reply in simp)
qed

definition sample_api_env :: api_env where
  "sample_api_env = \<lparr>fromisoformat = (\<lambda>s. None), sql_avg = (\<lambda>xs. 0), sql_p95 = (\<lambda>xs. 0), sql_trunc = (\<lambda>b t. t),
     sql_text = (\<lambda>v. []), sql_rank = (\<lambda>t. 0), sql_ties = (\<lambda>xs. xs)\<rparr>"

theorem events_newest_witness:
  "let st = sample_pipe_state\<lparr>ps_sinks := sample_sinks\<lparr>sk_rows := [sample_row 1, sample_row 2]\<rparr>\<rparr>
   in case snd (events sample_api_env (c_vault (pe_ctx sample_pipe_env)) 1 (Some (lit ''input'')) None None None st) of
     Status c \<Rightarrow> False | Reply out \<Rightarrow> length out = 1"
proof -
  let ?st = "sample_pipe_state\<lparr>ps_sinks := sample_sinks\<lparr>sk_rows := [sample_row 1, sample_row 2]\<rparr>\<rparr>"
  have d: "distinct (map lr_event_id (sk_rows (ps_sinks ?st)))" by (simp add: sample_row_def)
  have g: "\<not> bad_query sample_api_env 1 (Some (lit ''input'')) None None" "w_db (ps_world ?st) 0"
    by (simp_all add: bad_query_def bad_choice_def DIRECTIONS_def sample_pipe_state_def sample_pipe_world_def sample_world_def)
  have m: "length (filter (event_matches sample_api_env (c_vault (pe_ctx sample_pipe_env)) (Some (lit ''input'')) None None None) (sk_rows (ps_sinks ?st))) = 2"
    by (simp add: event_matches_def sample_row_def)
  show ?thesis
    using events_newest [OF d, where ae = sample_api_env and env = "c_vault (pe_ctx sample_pipe_env)" and limit = 1
      and dir = "Some (lit ''input'')" and ver = None and sid = None and since = None] g m
    by (auto simp: Let_def EVENTS_LIMIT_MAX_def split: reply.splits)
qed

text \<open>C14: The timeline of a session, asked for under any spelling of its id, ends with the verdict just reached, with its
  direction, action and whole reason, as soon as it was stored as a row; the timelines of the other
  sessions are as they were.\<close>

theorem verdict_in_timeline:
  assumes "world_ok (pe_ctx env) (ps_world st)" "analyze env sid dir path hs b cfg latency st = (st', d)" "sk_file (ps_sinks st) 0"
    "\<forall>now \<in> range (w_clock (ps_world st)). \<exists>l. event_line (audit_of sid dir d latency now) = Inr l"
    "\<forall>r \<in> set (sk_rows (ps_sinks st)). lr_event_id r < sk_seq (ps_sinks st) \<and> (\<forall>t \<in> range (w_clock (ps_world st)). instant (position_of r) \<le> t)"
    "w_db (ps_world st') 0"
  shows "\<exists>row. lr_session row = coerce_session_uuid (c_vault (pe_ctx env)) sid \<and> lr_direction row = dir \<and> lr_verdict_action row = action d \<and>
    lr_reason row = Some (dict_set (lit ''session_id_raw'') (PStr sid) (reason_obj d)) \<and>
    snd (session_timeline (c_vault (pe_ctx env)) other st') =
      Reply (timeline_of (coerce_session_uuid (c_vault (pe_ctx env)) other) (sk_rows (ps_sinks st)) @
        (if log_sink cfg \<noteq> lit ''jsonl'' \<and> w_db (ps_world (fst (dispatch env sid dir path hs b cfg st))) 0 \<and> pe_admits env row \<and>
            coerce_session_uuid (c_vault (pe_ctx env)) other = coerce_session_uuid (c_vault (pe_ctx env)) sid
         then [serialize_event row True] else []))"
proof -
  obtain now t where r: "sk_rows (ps_sinks st') = sk_rows (ps_sinks st) @
      (if log_sink cfg \<noteq> lit ''jsonl'' \<and> w_db (ps_world (fst (dispatch env sid dir path hs b cfg st))) 0 \<and>
          pe_admits env (log_row_of (c_vault (pe_ctx env)) (sk_seq (ps_sinks st)) t (audit_of sid dir d latency now))
       then [log_row_of (c_vault (pe_ctx env)) (sk_seq (ps_sinks st)) t (audit_of sid dir d latency now)] else [])"
    and t: "t \<in> range (w_clock (ps_world st))"
    using analyze_sinks [OF assms(1-4)] unfolding Let_def by blast
  let ?row = "log_row_of (c_vault (pe_ctx env)) (sk_seq (ps_sinks st)) t (audit_of sid dir d latency now)"
  have "\<forall>r \<in> set (sk_rows (ps_sinks st)). position_of r \<le> position_of ?row"
  proof
    fix r assume "r \<in> set (sk_rows (ps_sinks st))"
    with assms(5) t have "instant (position_of r) \<le> t" "number (position_of r) \<le> sk_seq (ps_sinks st)" by (auto simp: position_of_def)
    then show "position_of r \<le> position_of ?row" unfolding log_row_fields by (auto simp: less_eq_position_def)
  qed
  then have snoc: "timeline_of u (sk_rows (ps_sinks st) @ [?row]) = timeline_of u (sk_rows (ps_sinks st)) @ (if lr_session ?row = u then [serialize_event ?row True] else [])" for u
    by (rule timeline_snoc)
  show ?thesis
    by (rule exI [of _ ?row]) (auto simp: r log_row_fields timeline_reply snoc assms(6))
qed

theorem verdict_in_timeline_witness:
  "\<exists>e. snd (session_timeline (c_vault (pe_ctx sample_pipe_env)) (lit ''s'')
      (fst (analyze sample_pipe_env (lit ''s'') (lit ''output'') [] [] (lit ''[1]'') default_config 3 sample_pipe_state))) = Reply [e] \<and>
    dict_get e (lit ''verdict_action'') = Some (PStr (lit ''block''))"
proof -
  let ?st' = "emit_log sample_pipe_env (lit ''s'') (lit ''output'') (fail_decision default_config) 3 default_config sample_pipe_state"
  have "range (w_db (ps_world ?st')) \<subseteq> range (w_db (ps_world sample_pipe_state))"
    using analyze_sound [OF sample_failure] sample_pipe_ok(3) unfolding works_for_def later_def by blast
  then have up: "w_db (ps_world ?st') 0" by (auto simp: sample_pipe_state_def sample_pipe_world_def sample_world_def)
  note facts = sample_failure sample_failure_facts sample_failure_line
  have "\<forall>r \<in> set (sk_rows (ps_sinks sample_pipe_state)). lr_event_id r < sk_seq (ps_sinks sample_pipe_state) \<and>
      (\<forall>t \<in> range (w_clock (ps_world sample_pipe_state)). instant (position_of r) \<le> t)" by (simp add: facts(4))
  from verdict_in_timeline [OF sample_pipe_ok(3) facts(1,6,7) this up, of "lit ''s''"] obtain row where
    r: "lr_verdict_action row = action (fail_decision default_config)"
    "snd (session_timeline (c_vault (pe_ctx sample_pipe_env)) (lit ''s'') ?st') = Reply [serialize_event row True]"
    by (auto simp: facts(2-5) timeline_of_def)
  have "dict_get (serialize_event row True) (lit ''verdict_action'') = Some (PStr (lit ''block''))"
    using r(1) by (simp add: serialize_event_def dict_get_def fail_decision_def default_config_def Let_def)
  with r(2) show ?thesis by (simp add: facts(1))
qed

end
