(* ===== verification/Vault_Audit.thy ===== *)
theory Vault_Audit
  imports Response Api
begin

text \<open>
  The route \<open>/vault-access\<close> of \<open>app/api.py\<close> over \<open>token_vault_access_log\<close>, and what it shows of the values that
  were restored into a text (\<open>app/transform/vault.py\<close>). The columns that PostgreSQL fills in are functions of the
  position of a row in the append-only table: its number, its time, and the UUID of a token. Rows of the same time come in an
  order PostgreSQL chooses: a parameter that rearranges the rows before the stable sort.
\<close>

definition VAULT_LIMIT_MAX :: int where "VAULT_LIMIT_MAX = 500"

record access_columns =
  ac_id :: "nat \<Rightarrow> int"
  ac_at :: "nat \<Rightarrow> pyfloat"
  ac_token :: "nat \<Rightarrow> int"
  ac_ties :: "(nat \<times> access_row) list \<Rightarrow> (nat \<times> access_row) list"

text \<open>The row as it is answered; a look-up that found no token has the nil UUID.\<close>

definition access_dict :: "access_columns \<Rightarrow> nat \<times> access_row \<Rightarrow> dict" where
  "access_dict cols p =
     (let (n, r) = p in
      [(lit ''access_id'', PInt (ac_id cols n)),
       (lit ''token_id'', PStr (uuid_str (case atoken r of None \<Rightarrow> 0 | Some t \<Rightarrow> ac_token cols t))),
       (lit ''session_id'', PStr (uuid_str (asession r))), (lit ''token_label'', PStr (alabel r)),
       (lit ''requested_role'', PStr (requested_role r)), (lit ''requested_purpose'', opt_str (requested_purpose r)),
       (lit ''granted'', PBool (granted r)), (lit ''denied_reason'', opt_str (denied_reason r)),
       (lit ''accessed_at'', PStr (iso_format KST (ac_at cols n)))])"

text \<open>\<open>WHERE session_id = .. ORDER BY accessed_at DESC LIMIT ..\<close>.\<close>

definition select_access :: "access_columns \<Rightarrow> int \<Rightarrow> nat \<Rightarrow> access_row list \<Rightarrow> (nat \<times> access_row) list" where
  "select_access cols u n rows =
     take n (sort_desc (\<lambda>(n, r). ac_at cols n) (ac_ties cols (filter (\<lambda>(n, r). asession r = u) (List.enumerate 0 rows))))"

definition vault_access :: "access_columns \<Rightarrow> vault_env \<Rightarrow> pystr \<Rightarrow> int \<Rightarrow> 'm pipe_state \<Rightarrow> 'm pipe_state \<times> dict list reply" where
  "vault_access cols env sid limit st =
     (if limit < 1 then (st, Status 422)
      else let (w, up) = connect (ps_world st) in
        (st\<lparr>ps_world := w\<rparr>,
         if \<not> up then Status 500
         else Reply (map (access_dict cols)
           (select_access cols (coerce_session_uuid env sid) (nat (min limit VAULT_LIMIT_MAX)) (vlog (w_vault w))))))"

section \<open>Every value that is restored is logged\<close>

text \<open>The entry of a granted look-up of \<open>l\<close>.\<close>

definition grant_of :: "vault_env \<Rightarrow> pystr \<Rightarrow> pystr option \<Rightarrow> pystr option \<Rightarrow> pystr \<Rightarrow> access_row \<Rightarrow> bool" where
  "grant_of env sid rl pu l e \<longleftrightarrow> granted e \<and> asession e = coerce_session_uuid env sid \<and> varchar64 l = Inr (alabel e) \<and>
     varchar64 (case rl of None \<Rightarrow> [] | Some r \<Rightarrow> r) = Inr (requested_role e) \<and> requested_purpose e = pu"

lemma fail_closed_log: "fst (fail_closed st (log_access env tid sid l rl pu ok reason st) x) = st \<or>
    (\<exists>e. vlog (fst (fail_closed st (log_access env tid sid l rl pu ok reason st) x)) = vlog st @ [e])"
  by (auto simp: fail_closed_def log_access_def bind_result_def split: sum.splits)

lemma detokenize_log:
  shows "\<exists>es. vlog (fst (detokenize env up now sid l rl pu st)) = vlog st @ es \<and>
    (snd (detokenize env up now sid l rl pu st) \<noteq> None \<longrightarrow> (\<exists>e \<in> set es. grant_of env sid rl pu l e))"
proof (cases rule: detokenize_cases [where up = up and env = env and now = now and sid = sid and l = l and rl = rl and pu = pu and st = st])
  case (denied tid reason)
  have "snd (detokenize env up now sid l rl pu st) = None" unfolding denied(2) by (simp add: fail_closed_def split: sum.split)
  moreover have "\<exists>es. vlog (fst (detokenize env up now sid l rl pu st)) = vlog st @ es" unfolding denied(2)
    using fail_closed_log [of st env tid sid l rl pu False reason None] by (metis append_Nil2)
  ultimately show ?thesis by blast
next
  case (granted row v)
  show ?thesis
  proof (cases "log_access env (Some (token_id row)) sid l rl pu True None st")
    case (Inl e)
    then show ?thesis unfolding granted(6) by (simp add: fail_closed_def)
  next
    case (Inr st')
    then obtain x y where xy: "varchar64 l = Inr x" "varchar64 (case rl of None \<Rightarrow> [] | Some r \<Rightarrow> r) = Inr y"
      "st' = st\<lparr>vlog := vlog st @ [\<lparr>atoken = Some (token_id row), asession = coerce_session_uuid env sid, alabel = x,
        requested_role = y, requested_purpose = pu, granted = True, denied_reason = None\<rparr>]\<rparr>"
      by (auto simp: log_access_def bind_result_Inr dest!: pg_text_Some)
    then show ?thesis unfolding granted(6) Inr
      by (intro exI [of _ "[_]"]) (auto simp: fail_closed_def grant_of_def)
  qed
qed simp_all

lemma sub_state_log:
  assumes "\<And>k st m. \<exists>es. vlog (snd (fst (f (k, st) m))) = vlog st @ es \<and> (snd (f (k, st) m) = g m \<or> (\<exists>e \<in> set es. P m e))"
  shows "\<exists>vs es. snd (sub_state f t i ms (k, st)) = put_back t i ms vs \<and> vlog (snd (fst (sub_state f t i ms (k, st)))) = vlog st @ es \<and>
    list_all2 (\<lambda>m v. v = g m \<or> (\<exists>e \<in> set es. P m e)) ms vs"
proof (induction ms arbitrary: i k st)
  case (Cons m ms)
  obtain k1 st1 v where f: "f (k, st) m = ((k1, st1), v)" by (metis prod.collapse)
  from assms [of k st m] f obtain es1 where e1: "vlog st1 = vlog st @ es1" "v = g m \<or> (\<exists>e \<in> set es1. P m e)" by auto
  from Cons.IH [of "mend m" k1 st1] obtain vs es2 where
    i: "snd (sub_state f t (mend m) ms (k1, st1)) = put_back t (mend m) ms vs"
      "vlog (snd (fst (sub_state f t (mend m) ms (k1, st1)))) = vlog st1 @ es2"
      "list_all2 (\<lambda>m v. v = g m \<or> (\<exists>e \<in> set es2. P m e)) ms vs" by (elim exE conjE) (rule that)
  have "list_all2 (\<lambda>m v. v = g m \<or> (\<exists>e \<in> set (es1 @ es2). P m e)) ms vs" by (rule list_all2_mono [OF i(3)]) auto
  moreover have "v = g m \<or> (\<exists>e \<in> set (es1 @ es2). P m e)" using e1(2) by auto
  ultimately show ?case
    using f i(1,2) e1(1) by (intro exI [of _ "v # vs"] exI [of _ "es1 @ es2"]) (simp add: case_prod_beta Let_def)
qed simp

lemma detokenize_text_log:
  "\<exists>vs es. snd (detokenize_text env up now sid t rl pu st) = put_back t 0 (re_finditer TOKEN_LABEL_RE False t) vs \<and>
    vlog (snd (fst (detokenize_text env up now sid t rl pu st))) = vlog st @ es \<and>
    list_all2 (\<lambda>m v. v = group0 t m \<or> (\<exists>e \<in> set es. grant_of env sid rl pu (group0 t m) e)) (re_finditer TOKEN_LABEL_RE False t) vs"
  unfolding detokenize_text_def
proof (rule sub_state_log)
  fix k st m
  let ?d = "detokenize env (up k) (now k) sid (group0 t m) rl pu st"
  from detokenize_log [of env "up k" "now k" sid "group0 t m" rl pu st] obtain es where
    "vlog (fst ?d) = vlog st @ es" "snd ?d \<noteq> None \<longrightarrow> (\<exists>e \<in> set es. grant_of env sid rl pu (group0 t m) e)" by blast
  then show "\<exists>es. vlog (snd (fst ((\<lambda>(k, st) m. let (st', original) = detokenize env (up k) (now k) sid (group0 t m) rl pu st
         in ((Suc k, st'), case original of None \<Rightarrow> group0 t m | Some v \<Rightarrow> v)) (k, st) m))) = vlog st @ es \<and>
      (snd ((\<lambda>(k, st) m. let (st', original) = detokenize env (up k) (now k) sid (group0 t m) rl pu st
         in ((Suc k, st'), case original of None \<Rightarrow> group0 t m | Some v \<Rightarrow> v)) (k, st) m) = group0 t m \<or>
       (\<exists>e \<in> set es. grant_of env sid rl pu (group0 t m) e))"
    by (intro exI [of _ es]) (auto simp: case_prod_beta Let_def split: option.split)
qed

section \<open>What the route shows\<close>

lemma select_access_all:
  assumes "\<And>xs. mset (ac_ties cols xs) = mset xs" "length (filter (\<lambda>r. asession r = u) rows) \<le> n"
  shows "snd ` set (select_access cols u n rows) = {r \<in> set rows. asession r = u}"
proof -
  let ?f = "filter (\<lambda>(n, r). asession r = u) (List.enumerate 0 rows)"
  have "length (filter (\<lambda>(n, r). asession r = u) (List.enumerate k rows)) = length (filter (\<lambda>r. asession r = u) rows)" for k
    by (induction rows arbitrary: k) auto
  then have "length (ac_ties cols ?f) \<le> n" using assms(2) mset_eq_length [OF assms(1), of ?f] by simp
  then have "set (select_access cols u n rows) = set ?f"
    using mset_eq_setD [OF assms(1), of ?f] by (simp add: select_access_def)
  moreover have "snd ` set ?f = {r \<in> set rows. asession r = u}" proof -
    have "snd ` set (List.enumerate 0 rows) = set rows" by (metis map_snd_enumerate set_map)
    moreover have "snd ` {p \<in> E. asession (snd p) = u} = {r \<in> snd ` E. asession r = u}" for E :: "(nat \<times> access_row) set" by auto
    ultimately show ?thesis by (simp add: case_prod_beta)
  qed
  ultimately show ?thesis by simp
qed

lemma select_access_sorted: "sorted_wrt (\<lambda>p q. ac_at cols (fst q) \<le> ac_at cols (fst p)) (select_access cols u n rows)"
  unfolding select_access_def case_prod_beta by (rule sorted_wrt_take [OF sorted_sort_desc])

lemma access_dict_get: "dict_get (access_dict cols p) (lit ''granted'') = Some (PBool (granted (snd p)))"
  "dict_get (access_dict cols p) (lit ''session_id'') = Some (PStr (uuid_str (asession (snd p))))"
  "dict_get (access_dict cols p) (lit ''token_label'') = Some (PStr (alabel (snd p)))"
  "dict_get (access_dict cols p) (lit ''requested_purpose'') = Some (opt_str (requested_purpose (snd p)))"
  by (simp_all add: access_dict_def dict_get_def case_prod_beta Let_def)

section \<open>Properties\<close>

text \<open>C11: Every value that was put in place of a label shows in the restore audit: the route, asked for the session under
  any spelling of its id, answers newest first with an entry for it that is granted and names the label and the
  purpose, as long as the session has at most 500 entries.\<close>

theorem restored_labels_audited:
  assumes "\<And>xs. mset (ac_ties cols xs) = mset xs" "w_db (ps_world st) 0" "w_vault (ps_world st) = snd (fst (detokenize_text env up now sid t rl pu v))"
    "length (filter (\<lambda>r. asession r = coerce_session_uuid env sid) (vlog (w_vault (ps_world st)))) \<le> 500"
    "coerce_session_uuid env other = coerce_session_uuid env sid"
  shows "\<exists>vs ps. snd (detokenize_text env up now sid t rl pu v) = put_back t 0 (re_finditer TOKEN_LABEL_RE False t) vs \<and>
    snd (vault_access cols env other 500 st) = Reply (map (access_dict cols) ps) \<and>
    sorted_wrt (\<lambda>p q. ac_at cols (fst q) \<le> ac_at cols (fst p)) ps \<and>
    list_all2 (\<lambda>m x. x = group0 t m \<or> (\<exists>a \<in> set (map (access_dict cols) ps). dict_get a (lit ''granted'') = Some (PBool True) \<and>
        dict_get a (lit ''requested_purpose'') = Some (opt_str pu) \<and>
        (\<exists>l. varchar64 (group0 t m) = Inr l \<and> dict_get a (lit ''token_label'') = Some (PStr l))))
      (re_finditer TOKEN_LABEL_RE False t) vs"
proof -
  let ?u = "coerce_session_uuid env sid" and ?rows = "vlog (w_vault (ps_world st))" and ?ms = "re_finditer TOKEN_LABEL_RE False t"
  let ?ps = "select_access cols ?u 500 ?rows"
  from detokenize_text_log [of env up now sid t rl pu v] obtain vs es where
    d: "snd (detokenize_text env up now sid t rl pu v) = put_back t 0 ?ms vs" "?rows = vlog v @ es"
      "list_all2 (\<lambda>m x. x = group0 t m \<or> (\<exists>e \<in> set es. grant_of env sid rl pu (group0 t m) e)) ?ms vs"
    unfolding assms(3) [symmetric] by (elim exE conjE) (rule that)
  have route: "snd (vault_access cols env other 500 st) = Reply (map (access_dict cols) ?ps)"
    using assms(2,5) by (simp add: vault_access_def connect_def VAULT_LIMIT_MAX_def)
  have shown: "e \<in> snd ` set ?ps" if "e \<in> set es" "asession e = ?u" for e
    using select_access_all [OF assms(1,4)] that d(2) by auto
  have "list_all2 (\<lambda>m x. x = group0 t m \<or> (\<exists>a \<in> set (map (access_dict cols) ?ps). dict_get a (lit ''granted'') = Some (PBool True) \<and>
        dict_get a (lit ''requested_purpose'') = Some (opt_str pu) \<and>
        (\<exists>l. varchar64 (group0 t m) = Inr l \<and> dict_get a (lit ''token_label'') = Some (PStr l)))) ?ms vs"
  proof (rule list_all2_mono [OF d(3)], elim disj_forward bexE)
    fix m e
    assume "e \<in> set es" "grant_of env sid rl pu (group0 t m) e"
    with shown [of e] obtain p where p: "p \<in> set ?ps" "granted (snd p)" "requested_purpose (snd p) = pu" "varchar64 (group0 t m) = Inr (alabel (snd p))"
      by (auto simp: grant_of_def)
    then show "\<exists>a \<in> set (map (access_dict cols) ?ps). dict_get a (lit ''granted'') = Some (PBool True) \<and>
        dict_get a (lit ''requested_purpose'') = Some (opt_str pu) \<and>
        (\<exists>l. varchar64 (group0 t m) = Inr l \<and> dict_get a (lit ''token_label'') = Some (PStr l))"
      by (intro bexI [of _ "access_dict cols p"]) (simp_all add: access_dict_get)
  qed
  with d(1) route select_access_sorted show ?thesis by (intro exI conjI)
qed

definition sample_columns :: access_columns where
  "sample_columns = \<lparr>ac_id = int, ac_at = of_nat, ac_token = int, ac_ties = (\<lambda>xs. xs)\<rparr>"

text \<open>The token of \<open>reply_state\<close>, restored.\<close>

definition restored_text :: "(nat \<times> vault) \<times> pystr" where
  "restored_text = detokenize_text sample_env (\<lambda>k. True) (\<lambda>k. 0) (lit ''s'') (lit ''hi <PII:RRN:1>!'') None (Some (lit ''code_help''))
     (w_vault (ps_world reply_state))"

theorem restored_labels_audited_witness:
  "\<exists>out. snd (vault_access sample_columns sample_env (lit ''s'') 500 (sample_pipe_state\<lparr>ps_world := sample_world\<lparr>w_vault := snd (fst restored_text)\<rparr>\<rparr>)) =
     Reply out \<and> (\<exists>a \<in> set out. dict_get a (lit ''granted'') = Some (PBool True))"
proof -
  let ?st = "sample_pipe_state\<lparr>ps_world := sample_world\<lparr>w_vault := snd (fst restored_text)\<rparr>\<rparr>" and ?t = "lit ''hi <PII:RRN:1>!''"
  have n: "length (vlog (snd (fst restored_text))) = 1" and x: "snd restored_text = lit ''hi ab!''" by code_simp+
  have w: "w_db (ps_world ?st) 0" "w_vault (ps_world ?st) = snd (fst restored_text)" by (simp_all add: sample_world_def)
  have "length (filter (\<lambda>r. asession r = coerce_session_uuid sample_env (lit ''s'')) (vlog (w_vault (ps_world ?st)))) \<le> 500"
    unfolding w(2) using n by (intro order_trans [OF length_filter_le]) simp
  note few = this
  have v: "w_vault (ps_world ?st) = snd (fst (detokenize_text sample_env (\<lambda>k. True) (\<lambda>k. 0) (lit ''s'') ?t None (Some (lit ''code_help''))
      (w_vault (ps_world reply_state))))" by (simp add: restored_text_def)
  have ties: "mset (ac_ties sample_columns xs) = mset xs" for xs by (simp add: sample_columns_def)
  from restored_labels_audited [where cols = sample_columns and other = "lit ''s''", OF ties w(1) v few refl] obtain vs ps where
    r: "lit ''hi ab!'' = put_back ?t 0 (re_finditer TOKEN_LABEL_RE False ?t) vs"
      "snd (vault_access sample_columns sample_env (lit ''s'') 500 ?st) = Reply (map (access_dict sample_columns) ps)"
      "list_all2 (\<lambda>m x. x = group0 ?t m \<or> (\<exists>a \<in> set (map (access_dict sample_columns) ps). dict_get a (lit ''granted'') = Some (PBool True)))
        (re_finditer TOKEN_LABEL_RE False ?t) vs"
    unfolding restored_text_def [symmetric] x
    by (elim exE conjE) (auto simp: sample_columns_def elim!: list_all2_mono intro: that)
  have "map (\<lambda>m. (mstart m, mend m)) (re_finditer TOKEN_LABEL_RE False ?t) = [(3, 14)]" by code_simp
  then obtain m where m: "re_finditer TOKEN_LABEL_RE False ?t = [m]" "mstart m = 3" "mend m = 14" by auto
  from r(3) m(1) obtain v where v: "vs = [v]" by (auto simp: list_all2_Cons1)
  have "v \<noteq> group0 ?t m" using r(1) unfolding m(1) v by (auto simp: m group0_def slice_def lit_def)
  with r(2,3) m(1) v show ?thesis by auto
qed

end
