(* ===== verification/Live_Stream.thy ===== *)
theory Live_Stream
  imports Api
begin

text \<open>
  The live stream of \<open>app/api.py\<close>: \<open>_event_stream\<close> is a generator that a task drives while other threads
  publish to the bus, so its steps interleave with theirs. \<open>event_stream_step\<close> is one step of it, up to the next
  \<open>await\<close> or \<open>yield\<close>; \<open>tick\<close> lists what may happen in between.
\<close>

section \<open>The live stream\<close>

record filters =
  f_direction :: "pystr option"
  f_verdict :: "pystr option"
  f_session :: "pystr option"

definition CONNECTED :: pystr where "CONNECTED = lit '': connected'' @ [10, 10]"

definition PING :: pystr where "PING = lit '': ping'' @ [10, 10]"

definition event_chunk :: "dict \<Rightarrow> pystr result" where
  "event_chunk e =
     map_sum id (\<lambda>i. lit ''id: '' @ py_str i @ [10] @ lit ''data: '' @ json_dumps (PDict e) @ [10, 10])
       (the_result KeyError (dict_get e (lit ''event_id'')))"

definition mismatch :: "dict \<Rightarrow> string \<Rightarrow> pystr option \<Rightarrow> bool result" where
  "mismatch e k x = (case x of None \<Rightarrow> Inr False
     | Some v \<Rightarrow> map_sum id (\<lambda>y. y \<noteq> PStr v) (the_result KeyError (dict_get e (lit k))))"

text \<open>What the loop yields for an event: \<open>None\<close> when a filter skips it.\<close>

definition stream_event :: "filters \<Rightarrow> dict \<Rightarrow> pystr option result" where
  "stream_event flt e =
     bind_result (mismatch e ''direction'' (f_direction flt)) (\<lambda>x. if x then Inr None else
     bind_result (mismatch e ''verdict_action'' (f_verdict flt)) (\<lambda>x. if x then Inr None else
     bind_result (mismatch e ''session_id'' (f_session flt)) (\<lambda>x. if x then Inr None else
       map_sum id Some (event_chunk e))))"

text \<open>
  Where the generator is: not started, before \<open>is_disconnected\<close>, before \<open>q.get\<close>, or ended, its
  \<open>finally\<close> included.
\<close>

datatype phase = Started | Polling nat | Waiting nat | Closed

record stream =
  st_phase :: phase
  st_out :: "pystr list"

definition new_stream :: stream where "new_stream = \<lparr>st_phase = Started, st_out = []\<rparr>"

text \<open>One step of the generator. \<open>gone\<close> is the answer of \<open>is_disconnected\<close>.\<close>

definition event_stream_step :: "filters \<Rightarrow> bool \<Rightarrow> stream \<times> bus \<Rightarrow> stream \<times> bus" where
  "event_stream_step flt gone = (\<lambda>(s, b).
     case st_phase s of
       Started \<Rightarrow> (let (b, q) = subscribe b in (s\<lparr>st_phase := Polling q, st_out := st_out s @ [CONNECTED]\<rparr>, b))
     | Polling q \<Rightarrow> if gone then (s\<lparr>st_phase := Closed\<rparr>, unsubscribe q b) else (s\<lparr>st_phase := Waiting q\<rparr>, b)
     | Waiting q \<Rightarrow>
         (case take_event q b of
            (b, None) \<Rightarrow> (s\<lparr>st_phase := Polling q, st_out := st_out s @ [PING]\<rparr>, b)
          | (b, Some e) \<Rightarrow>
              (case stream_event flt e of
                 Inl x \<Rightarrow> (s\<lparr>st_phase := Closed\<rparr>, unsubscribe q b)
               | Inr None \<Rightarrow> (s\<lparr>st_phase := Polling q\<rparr>, b)
               | Inr (Some chunk) \<Rightarrow> (s\<lparr>st_phase := Polling q, st_out := st_out s @ [chunk]\<rparr>, b)))
     | Closed \<Rightarrow> (s, b))"

text \<open>The server cancels the task at an \<open>await\<close> or closes the generator at a \<open>yield\<close>: the \<open>finally\<close> clause runs.\<close>

definition event_stream_cancel :: "stream \<times> bus \<Rightarrow> stream \<times> bus" where
  "event_stream_cancel = (\<lambda>(s, b). (s\<lparr>st_phase := Closed\<rparr>,
     case st_phase s of Polling q \<Rightarrow> unsubscribe q b | Waiting q \<Rightarrow> unsubscribe q b | _ \<Rightarrow> b))"

text \<open>\<open>GET /events/stream\<close>: the filters it hands to the generator, or a refusal.\<close>

definition events_stream :: "vault_env \<Rightarrow> pystr option \<Rightarrow> pystr option \<Rightarrow> pystr option \<Rightarrow> filters reply" where
  "events_stream env dir ver sid =
     (if bad_choice DIRECTIONS dir then Status 422
      else if bad_choice VERDICTS ver then Status 422
      else Reply \<lparr>f_direction = dir, f_verdict = ver, f_session = map_option (\<lambda>s. uuid_str (coerce_session_uuid env s)) sid\<rparr>)"

section \<open>The stream among other threads\<close>

text \<open>
  A schedule lists what happens, in order: a step of the generator, a row published by
  \<open>write_pg\<close>, the client closing the connection, another stream subscribing, reading or leaving. The trace keeps
  what was published since the generator subscribed and what it took.
\<close>

datatype tick =
    Own
  | Publish log_row
  | Disconnect
  | Cancel
  | Other_subscribe
  | Other_take nat
  | Other_unsubscribe nat

record live =
  lv_stream :: stream
  lv_bus :: bus
  lv_gone :: bool
  lv_feed :: feed

primrec queue_held :: "phase \<Rightarrow> nat option" where
  "queue_held Started = None"
| "queue_held (Polling q) = Some q"
| "queue_held (Waiting q) = Some q"
| "queue_held Closed = None"

definition start_live :: "bus \<Rightarrow> live" where
  "start_live b = \<lparr>lv_stream = new_stream, lv_bus = b, lv_gone = False, lv_feed = \<lparr>published = [], taken = [], dropped = False\<rparr>\<rparr>"

definition full_queue :: "bus \<Rightarrow> nat \<Rightarrow> bool" where
  "full_queue b q = (\<exists>es \<in> set_option (queue_of b q). SUBSCRIBER_MAXSIZE \<le> length es)"

definition note_taken :: "live \<Rightarrow> feed" where
  "note_taken l = (case st_phase (lv_stream l) of
     Waiting q \<Rightarrow> (case snd (take_event q (lv_bus l)) of None \<Rightarrow> lv_feed l | Some e \<Rightarrow> (lv_feed l)\<lparr>taken := taken (lv_feed l) @ [e]\<rparr>)
   | _ \<Rightarrow> lv_feed l)"

definition note_published :: "dict \<Rightarrow> live \<Rightarrow> feed" where
  "note_published e l = (case queue_held (st_phase (lv_stream l)) of
     None \<Rightarrow> lv_feed l
   | Some q \<Rightarrow> (lv_feed l)\<lparr>published := published (lv_feed l) @ [e], dropped := dropped (lv_feed l) \<or> full_queue (lv_bus l) q\<rparr>)"

definition own_step :: "(stream \<times> bus \<Rightarrow> stream \<times> bus) \<Rightarrow> live \<Rightarrow> live" where
  "own_step f l = (let (s, b) = f (lv_stream l, lv_bus l) in l\<lparr>lv_stream := s, lv_bus := b\<rparr>)"

primrec tick_step :: "filters \<Rightarrow> tick \<Rightarrow> live \<Rightarrow> live" where
  "tick_step flt Own l = (own_step (event_stream_step flt (lv_gone l)) l)\<lparr>lv_feed := note_taken l\<rparr>"
| "tick_step flt (Publish r) l =
     l\<lparr>lv_bus := publish (serialize_event r False) (lv_bus l), lv_feed := note_published (serialize_event r False) l\<rparr>"
| "tick_step flt Disconnect l = l\<lparr>lv_gone := True\<rparr>"
| "tick_step flt Cancel l = own_step event_stream_cancel l"
| "tick_step flt Other_subscribe l = l\<lparr>lv_bus := fst (subscribe (lv_bus l))\<rparr>"
| "tick_step flt (Other_take i) l =
     (if queue_held (st_phase (lv_stream l)) = Some i then l else l\<lparr>lv_bus := fst (take_event i (lv_bus l))\<rparr>)"
| "tick_step flt (Other_unsubscribe i) l =
     (if queue_held (st_phase (lv_stream l)) = Some i then l else l\<lparr>lv_bus := unsubscribe i (lv_bus l)\<rparr>)"

definition run_live :: "filters \<Rightarrow> tick list \<Rightarrow> live \<Rightarrow> live" where
  "run_live flt ticks l = fold (tick_step flt) ticks l"

text \<open>What a published row yields.\<close>

definition row_wanted :: "filters \<Rightarrow> log_row \<Rightarrow> bool" where
  "row_wanted flt r \<longleftrightarrow>
     (\<forall>d \<in> set_option (f_direction flt). lr_direction r = d) \<and> (\<forall>v \<in> set_option (f_verdict flt). lr_verdict_action r = v) \<and>
     (\<forall>u \<in> set_option (f_session flt). uuid_str (lr_session r) = u)"

definition row_chunk :: "log_row \<Rightarrow> pystr" where
  "row_chunk r = lit ''id: '' @ py_str_int (lr_event_id r) @ [10] @ lit ''data: '' @ json_dumps (PDict (serialize_event r False)) @ [10, 10]"

lemma stream_event_row: "stream_event flt (serialize_event r False) = Inr (if row_wanted flt r then Some (row_chunk r) else None)"
proof -
  have "dict_get (serialize_event r False) (lit ''direction'') = Some (PStr (lr_direction r))"
    "dict_get (serialize_event r False) (lit ''verdict_action'') = Some (PStr (lr_verdict_action r))"
    "dict_get (serialize_event r False) (lit ''session_id'') = Some (PStr (uuid_str (lr_session r)))"
    "dict_get (serialize_event r False) (lit ''event_id'') = Some (PInt (lr_event_id r))"
    by (simp_all add: serialize_event_def dict_get_def Let_def)
  then show ?thesis
    by (auto simp: stream_event_def mismatch_def event_chunk_def row_wanted_def row_chunk_def py_str_def split: option.splits)
qed

lemma chunk_not_ping: "row_chunk r \<noteq> PING" "CONNECTED \<noteq> PING"
  by (simp_all add: row_chunk_def PING_def CONNECTED_def lit_def)

text \<open>
  The invariant: the output without heartbeats is the greeting and the chunks of the wanted rows among
  those taken; the queue holds the rest of what was published unless it overflowed.
\<close>

definition stream_output :: "filters \<Rightarrow> stream \<Rightarrow> log_row list \<Rightarrow> bool" where
  "stream_output flt s rs \<longleftrightarrow> (if st_out s = [] then rs = []
     else filter (\<lambda>x. x \<noteq> PING) (st_out s) = CONNECTED # map row_chunk (filter (row_wanted flt) rs))"

definition no_feed :: feed where "no_feed = \<lparr>published = [], taken = [], dropped = False\<rparr>"

definition live_inv :: "filters \<Rightarrow> live \<Rightarrow> bool" where
  "live_inv flt l \<longleftrightarrow> bus_ok (lv_bus l) \<and> (st_phase (lv_stream l) = Started \<longrightarrow> st_out (lv_stream l) = [] \<and> lv_feed l = no_feed) \<and>
     (\<exists>rs qs. taken (lv_feed l) = map ser rs \<and> stream_output flt (lv_stream l) rs \<and>
        (dropped (lv_feed l) \<or> taken (lv_feed l) @ map ser qs = published (lv_feed l)) \<and>
        (\<forall>q \<in> set_option (queue_held (st_phase (lv_stream l))). st_out (lv_stream l) \<noteq> [] \<and> queue_of (lv_bus l) q = Some (map ser qs)))"

lemma live_invI:
  assumes "bus_ok (lv_bus l)" "st_phase (lv_stream l) = Started \<Longrightarrow> st_out (lv_stream l) = [] \<and> lv_feed l = no_feed"
    "taken (lv_feed l) = map ser rs" "stream_output flt (lv_stream l) rs"
    "dropped (lv_feed l) \<or> taken (lv_feed l) @ map ser qs = published (lv_feed l)"
    "\<And>q. queue_held (st_phase (lv_stream l)) = Some q \<Longrightarrow> st_out (lv_stream l) \<noteq> [] \<and> queue_of (lv_bus l) q = Some (map ser qs)"
  shows "live_inv flt l"
  using assms unfolding live_inv_def by (metis option.set_cases)

lemma live_inv_start: "bus_ok b \<Longrightarrow> live_inv flt (start_live b)"
  by (rule live_invI [where rs = "[]" and qs = "[]"]) (simp_all add: start_live_def new_stream_def stream_output_def no_feed_def)

lemma queue_of_new: "bus_ok b \<Longrightarrow> queue_of (fst (subscribe b)) (next_queue b) = Some []"
  by (auto simp: queue_of_def subscribe_def bus_ok_def map_add_def map_of_eq_None_iff split: option.splits)

lemma take_empty: "queue_of b q = Some [] \<Longrightarrow> take_event q b = (b, None)"
  by (simp add: queue_of_def take_event_def)

lemma take_next:
  assumes "queue_of b q = Some (e # es)" "bus_ok b"
  obtains b' where "take_event q b = (b', Some e)" "queue_of b' q = Some es" "bus_ok b'"
  using assms bus_ok_take [of b q] by (auto simp: queue_of_def take_event_def map_of_map_subs)

lemma queue_of_other_take: "i \<noteq> q \<Longrightarrow> queue_of (fst (take_event i b)) q = queue_of b q"
  by (cases rule: take_event_cases [of b i]) (auto simp: queue_of_def map_of_map_subs option.map_ident)

lemma own_inv:
  assumes "live_inv flt l"
  shows "live_inv flt (tick_step flt Own l)"
proof -
  obtain rs qs where i: "bus_ok (lv_bus l)" "taken (lv_feed l) = map ser rs" "stream_output flt (lv_stream l) rs"
      "dropped (lv_feed l) \<or> taken (lv_feed l) @ map ser qs = published (lv_feed l)"
      "\<forall>q \<in> set_option (queue_held (st_phase (lv_stream l))). st_out (lv_stream l) \<noteq> [] \<and> queue_of (lv_bus l) q = Some (map ser qs)"
    and st: "st_phase (lv_stream l) = Started \<Longrightarrow> st_out (lv_stream l) = [] \<and> lv_feed l = no_feed"
    using assms unfolding live_inv_def by blast
  show ?thesis
  proof (cases "st_phase (lv_stream l)")
    case Started
    let ?b = "fst (subscribe (lv_bus l))"
    have f: "st_out (lv_stream l) = []" "lv_feed l = no_feed" using st [OF Started] by simp_all
    show ?thesis using i(1) Started f bus_ok_subscribe [OF i(1)] queue_of_new [OF i(1)]
      by (intro live_invI [where rs = "[]" and qs = "[]"])
         (simp_all add: own_step_def event_stream_step_def note_taken_def case_prod_beta Let_def stream_output_def chunk_not_ping subscribe_def no_feed_def)
  next
    case (Polling q)
    with i show ?thesis
      by (intro live_invI [where rs = rs and qs = qs])
         (auto simp: own_step_def event_stream_step_def note_taken_def stream_output_def bus_ok_unsubscribe split: if_splits)
  next
    case (Waiting q)
    with i have q: "queue_of (lv_bus l) q = Some (map ser qs)" "st_out (lv_stream l) \<noteq> []" by simp_all
    show ?thesis
    proof (cases qs)
      case Nil
      with take_empty [of "lv_bus l" q] i q Waiting show ?thesis
        by (intro live_invI [where rs = rs and qs = qs])
           (auto simp: own_step_def event_stream_step_def note_taken_def stream_output_def)
    next
      case (Cons r qs')
      with q obtain b' where t: "take_event q (lv_bus l) = (b', Some (ser r))" "queue_of b' q = Some (map ser qs')" "bus_ok b'"
        using take_next [OF _ i(1), of q "ser r" "map ser qs'"] by auto
      have "tick_step flt Own l = l\<lparr>lv_stream := (lv_stream l)\<lparr>st_phase := Polling q,
            st_out := st_out (lv_stream l) @ (if row_wanted flt r then [row_chunk r] else [])\<rparr>, lv_bus := b',
          lv_feed := (lv_feed l)\<lparr>taken := taken (lv_feed l) @ [ser r]\<rparr>\<rparr>"
        using t Waiting by (simp add: own_step_def event_stream_step_def note_taken_def stream_event_row)
      with i(2-4) q(2) t(2,3) Cons show ?thesis
        by (intro live_invI [where rs = "rs @ [r]" and qs = qs']) (auto simp: stream_output_def chunk_not_ping)
    qed
  next
    case Closed
    with i show ?thesis
      by (intro live_invI [where rs = rs and qs = qs]) (auto simp: own_step_def event_stream_step_def note_taken_def)
  qed
qed

lemma queue_of_map_put: "queue_of (publish e b) q = Some es' \<longleftrightarrow> (\<exists>es. queue_of b q = Some es \<and> es' = put_nowait e es)"
  by auto

lemma publish_inv: "live_inv flt l \<Longrightarrow> live_inv flt (tick_step flt (Publish r) l)"
proof -
  assume "live_inv flt l"
  then obtain rs qs where i: "bus_ok (lv_bus l)" "taken (lv_feed l) = map ser rs" "stream_output flt (lv_stream l) rs"
      "dropped (lv_feed l) \<or> taken (lv_feed l) @ map ser qs = published (lv_feed l)"
      "\<forall>q \<in> set_option (queue_held (st_phase (lv_stream l))). st_out (lv_stream l) \<noteq> [] \<and> queue_of (lv_bus l) q = Some (map ser qs)"
    and st: "st_phase (lv_stream l) = Started \<Longrightarrow> st_out (lv_stream l) = [] \<and> lv_feed l = no_feed"
    unfolding live_inv_def by blast
  show ?thesis
  proof (cases "queue_held (st_phase (lv_stream l))")
    case None
    with None i st show ?thesis
      by (intro live_invI [where rs = rs and qs = qs]) (auto simp: note_published_def bus_ok_publish)
  next
    case (Some q)
    then have q: "queue_of (lv_bus l) q = Some (map ser qs)" "st_out (lv_stream l) \<noteq> []" "st_phase (lv_stream l) \<noteq> Started" using i(5) by auto
    show ?thesis
    proof (cases "length qs < SUBSCRIBER_MAXSIZE")
      case True
      with Some i q show ?thesis
        by (intro live_invI [where rs = rs and qs = "qs @ [r]"]) (auto simp: note_published_def bus_ok_publish put_nowait_def full_queue_def)
    next
      case False
      with Some i q show ?thesis
        by (intro live_invI [where rs = rs and qs = qs]) (auto simp: note_published_def bus_ok_publish put_nowait_def full_queue_def)
    qed
  qed
qed

text \<open>Steps that leave the stream, its feed and its queue as they are.\<close>

lemma other_inv:
  assumes "live_inv flt l" "bus_ok b" "\<And>q es. queue_held (st_phase (lv_stream l)) = Some q \<Longrightarrow> queue_of (lv_bus l) q = Some es \<Longrightarrow> queue_of b q = Some es"
  shows "live_inv flt (l\<lparr>lv_bus := b, lv_gone := g\<rparr>)"
  using assms unfolding live_inv_def by auto metis+

lemma cancel_inv: "live_inv flt l \<Longrightarrow> live_inv flt (tick_step flt Cancel l)"
  unfolding live_inv_def
  by (cases "st_phase (lv_stream l)")
     (auto simp: own_step_def event_stream_cancel_def stream_output_def bus_ok_unsubscribe)

lemma live_inv_bus: "live_inv flt l \<Longrightarrow> bus_ok (lv_bus l)"
  by (simp add: live_inv_def)

lemma tick_inv:
  assumes "live_inv flt l"
  shows "live_inv flt (tick_step flt t l)"
proof -
  note other = other_inv [OF assms, where g = "lv_gone l", simplified] and ok = live_inv_bus [OF assms]
  show ?thesis
  proof (cases t)
    case Own with own_inv [OF assms] show ?thesis by simp
  next
    case (Publish r) with publish_inv [OF assms] show ?thesis by simp
  next
    case Disconnect with other_inv [OF assms ok, where g = True] show ?thesis by simp
  next
    case Cancel with cancel_inv [OF assms] show ?thesis by simp
  next
    case Other_subscribe with other [OF bus_ok_subscribe [OF ok]] show ?thesis by (simp add: queue_of_subscribe)
  next
    case (Other_take i)
    have "queue_held (st_phase (lv_stream l)) \<noteq> Some i \<Longrightarrow> live_inv flt (l\<lparr>lv_bus := fst (take_event i (lv_bus l))\<rparr>)"
      by (rule other [OF bus_ok_take [OF ok]]) (metis queue_of_other_take)
    with Other_take assms show ?thesis by simp
  next
    case (Other_unsubscribe i)
    have "queue_held (st_phase (lv_stream l)) \<noteq> Some i \<Longrightarrow> live_inv flt (l\<lparr>lv_bus := unsubscribe i (lv_bus l)\<rparr>)"
      by (rule other [OF bus_ok_unsubscribe [OF ok]]) (metis queue_of_unsubscribe)
    with Other_unsubscribe assms show ?thesis by simp
  qed
qed

lemma run_live_inv: "live_inv flt l \<Longrightarrow> live_inv flt (run_live flt ts l)"
  unfolding run_live_def by (induction ts arbitrary: l) (simp_all add: tick_inv)

text \<open>Once the client is gone, two more steps of the generator close it; a closed stream's queue stays gone.\<close>

definition queue_gone :: "nat \<Rightarrow> live \<Rightarrow> bool" where
  "queue_gone q l \<longleftrightarrow> st_phase (lv_stream l) = Closed \<and> queue_of (lv_bus l) q = None \<and> q < next_queue (lv_bus l)"

definition queue_known :: "nat \<Rightarrow> live \<Rightarrow> bool" where
  "queue_known q l \<longleftrightarrow> queue_held (st_phase (lv_stream l)) = Some q \<and> q < next_queue (lv_bus l) \<or> queue_gone q l"

lemma queue_of_unsubscribed: "queue_of (unsubscribe q b) q = None"
proof -
  have "map_of (filter (\<lambda>(j, es). j \<noteq> q) xs) q = None" for xs :: "(nat \<times> dict list) list" by (induction xs) auto
  then show ?thesis by (simp add: queue_of_def unsubscribe_def)
qed

lemma next_queue_keep [simp]: "next_queue (unsubscribe q b) = next_queue b" "next_queue (publish e b) = next_queue b"
  "next_queue (fst (take_event i b)) = next_queue b" "next_queue (fst (subscribe b)) = Suc (next_queue b)"
  by (simp_all add: unsubscribe_def publish_def take_event_def subscribe_def split: option.splits list.splits)

lemma queue_of_take_None: "queue_of b q = None \<Longrightarrow> queue_of (fst (take_event i b)) q = None"
  by (cases rule: take_event_cases [of b i]) (auto simp: queue_of_def map_of_map_subs)

lemma queue_of_subscribe_None: "queue_of b q = None \<Longrightarrow> q < next_queue b \<Longrightarrow> queue_of (fst (subscribe b)) q = None"
  by (simp add: queue_of_def subscribe_def map_add_def)

lemma queue_of_unsubscribe_None: "queue_of b q = None \<Longrightarrow> queue_of (unsubscribe i b) q = None"
  by (cases "i = q") (simp_all add: queue_of_unsubscribe queue_of_unsubscribed)

lemmas queue_None = queue_of_take_None queue_of_subscribe_None queue_of_unsubscribe_None queue_of_unsubscribed

lemma queue_gone_step: "queue_gone q l \<Longrightarrow> queue_gone q (tick_step flt t l)"
  by (cases t) (auto simp: queue_gone_def own_step_def event_stream_step_def event_stream_cancel_def queue_None)

lemma take_event_next: "take_event i b = (b', x) \<Longrightarrow> next_queue b' = next_queue b"
  by (metis fst_conv next_queue_keep(3))

lemma queue_known_step:
  assumes "queue_known q l"
  shows "queue_known q (tick_step flt t l)"
proof (cases "queue_gone q l")
  case True
  then show ?thesis by (simp add: queue_known_def queue_gone_step)
next
  case False
  with assms have h: "queue_held (st_phase (lv_stream l)) = Some q" "q < next_queue (lv_bus l)" by (simp_all add: queue_known_def)
  then show ?thesis
    by (cases t; cases "st_phase (lv_stream l)")
       (auto simp: queue_known_def queue_gone_def own_step_def event_stream_step_def event_stream_cancel_def queue_None
             split: prod.splits option.splits sum.splits dest: take_event_next)
qed

lemma queue_held_bound: "bus_ok b \<Longrightarrow> queue_of b q = Some es \<Longrightarrow> q < next_queue b"
  by (auto simp: bus_ok_def queue_of_def dest: map_of_SomeD)

definition steps_left :: "phase \<Rightarrow> nat" where
  "steps_left p = (case p of Closed \<Rightarrow> 0 | Polling q \<Rightarrow> 1 | _ \<Rightarrow> 2)"

lemma gone_step: "lv_gone l \<Longrightarrow> lv_gone (tick_step flt t l)"
  by (cases t) (simp_all add: own_step_def case_prod_beta)

lemma steps_left_step: "lv_gone l \<Longrightarrow> steps_left (st_phase (lv_stream (tick_step flt t l))) \<le> steps_left (st_phase (lv_stream l)) - (if t = Own then 1 else 0)"
  by (cases t; cases "st_phase (lv_stream l)")
     (auto simp: steps_left_def own_step_def event_stream_step_def event_stream_cancel_def split: prod.splits option.splits sum.splits)

lemma run_live_gone:
  "lv_gone l \<Longrightarrow> steps_left (st_phase (lv_stream (run_live flt ts l))) \<le> steps_left (st_phase (lv_stream l)) - count_list ts Own"
proof (induction ts arbitrary: l)
  case (Cons t ts)
  from Cons.IH [OF gone_step [OF Cons.prems, of flt t]] steps_left_step [OF Cons.prems, of flt t] show ?case
    by (auto simp: run_live_def split: if_splits)
qed (simp add: run_live_def)

lemma run_live_known: "queue_known q l \<Longrightarrow> queue_known q (run_live flt ts l)"
  unfolding run_live_def by (induction ts arbitrary: l) (simp_all add: queue_known_step)

section \<open>Properties\<close>

text \<open>C16: The live stream, under every interleaving with publishers and other streams, has sent its greeting and then
  exactly the chunks of the rows it took that pass the filters, in order, heartbeats aside; what it
  took is a prefix of what was published since it subscribed unless its queue was full.\<close>

theorem stream_exact:
  assumes "bus_ok b" "l = run_live flt ts (start_live b)"
  shows "\<exists>rs qs. taken (lv_feed l) = map (\<lambda>r. serialize_event r False) rs \<and>
     (dropped (lv_feed l) \<or> published (lv_feed l) = map (\<lambda>r. serialize_event r False) (rs @ qs)) \<and>
     (st_out (lv_stream l) = [] \<and> rs = [] \<or>
      filter (\<lambda>x. x \<noteq> PING) (st_out (lv_stream l)) = CONNECTED # map row_chunk (filter (row_wanted flt) rs))"
  using run_live_inv [OF live_inv_start [OF assms(1)], of flt ts] unfolding assms(2) [symmetric] live_inv_def stream_output_def
  by (metis map_append)

definition no_filters :: filters where
  "no_filters = \<lparr>f_direction = None, f_verdict = None, f_session = None\<rparr>"

lemma new_bus_ok: "bus_ok new_bus"
  by (simp add: bus_ok_def new_bus_def)

theorem stream_exact_witness:
  "let l = run_live no_filters [Publish (sample_row 1), Own, Publish (sample_row 2), Own, Own] (start_live new_bus)
   in taken (lv_feed l) \<noteq> [] \<and> (\<exists>rs. taken (lv_feed l) = map (\<lambda>r. serialize_event r False) rs)"
proof -
  let ?l = "run_live no_filters [Publish (sample_row 1), Own, Publish (sample_row 2), Own, Own] (start_live new_bus)"
  have "taken (lv_feed ?l) \<noteq> []" by code_simp
  then show ?thesis using stream_exact [OF new_bus_ok refl, of no_filters "[Publish (sample_row 1), Own, Publish (sample_row 2), Own, Own]"]
    by (auto simp: Let_def)
qed

text \<open>C17: Once the client has gone, the generator ends after at most two more of its own steps, whatever the other
  threads do in between, and its queue is off the bus for good.\<close>

theorem stream_closes:
  assumes "bus_ok b" "l = run_live flt ts (start_live b)" "lv_gone l" "2 \<le> count_list ts' Own" "l' = run_live flt ts' l"
  shows "st_phase (lv_stream l') = Closed \<and> (\<forall>q. queue_held (st_phase (lv_stream l)) = Some q \<longrightarrow> queue_of (lv_bus l') q = None)"
proof -
  have "steps_left (st_phase (lv_stream l')) = 0"
    using run_live_gone [OF assms(3), of flt ts'] assms(4,5) by (auto simp: steps_left_def split: phase.splits)
  then have c: "st_phase (lv_stream l') = Closed" by (simp add: steps_left_def split: phase.splits)
  moreover have "queue_of (lv_bus l') q = None" if q: "queue_held (st_phase (lv_stream l)) = Some q" for q
  proof -
    have "live_inv flt l" using run_live_inv [OF live_inv_start [OF assms(1)], of flt ts] assms(2) by simp
    then have "queue_known q l" using q unfolding live_inv_def queue_known_def by (metis option.set_intros queue_held_bound)
    then have "queue_known q l'" unfolding assms(5) by (rule run_live_known)
    with c show ?thesis by (simp add: queue_known_def queue_gone_def)
  qed
  ultimately show ?thesis by blast
qed

theorem stream_closes_witness:
  "st_phase (lv_stream (run_live no_filters [Own, Publish (sample_row 3), Own] (run_live no_filters [Own, Own, Disconnect] (start_live new_bus)))) = Closed"
proof -
  have "lv_gone (run_live no_filters [Own, Own, Disconnect] (start_live new_bus))" by code_simp
  then show ?thesis using stream_closes [OF new_bus_ok refl _ _ refl, of no_filters "[Own, Own, Disconnect]" "[Own, Publish (sample_row 3), Own]"] by simp
qed

end
