(* ===== verification/Grpc.thy ===== *)
theory Grpc
  imports Service
begin

text \<open>
  \<open>app/grpc_server.py\<close>: the servicer. The protobuf messages are records with the fields of \<open>InspectRequest\<close> and
  \<open>Verdict\<close>; a string field holds what its UTF-8 encoding holds, so that building a \<open>Verdict\<close> raises on a
  reason with a lone surrogate. \<open>analyze\<close> of the model returns for every request, so the
  \<open>except\<close> branch of \<open>Inspect\<close>, \<open>grpc_failure\<close>, only answers what raises outside of it. The server
  that calls it is created in \<open>Boot\<close>.
\<close>

record inspect_request =
  rq_session_id :: pystr
  rq_direction :: pystr
  rq_method :: pystr
  rq_path :: pystr
  rq_headers :: headers
  rq_body :: bytes

record wire_verdict =
  wv_action :: pystr
  wv_body :: bytes
  wv_reason :: bytes

definition wire_of :: "pystr \<Rightarrow> bytes \<Rightarrow> dict \<Rightarrow> wire_verdict result" where
  "wire_of act body reason = bind_result (json_bytes (PDict reason)) (\<lambda>r. Inr \<lparr>wv_action = act, wv_body = body, wv_reason = r\<rparr>)"

definition grpc_failure :: "config \<Rightarrow> wire_verdict result" where
  "grpc_failure cfg = wire_of (fail_action cfg) [] [(lit ''fail_policy_applied'', PBool True), (lit ''stage'', PStr (lit ''grpc''))]"

definition Inspect :: "'m pipe_env \<Rightarrow> config \<Rightarrow> int \<Rightarrow> inspect_request \<Rightarrow> 'm pipe_state \<Rightarrow> 'm pipe_state \<times> wire_verdict result" where
  "Inspect env cfg latency rq st =
     (let (st, d) = analyze env (rq_session_id rq) (rq_direction rq) (rq_path rq) (rq_headers rq) (rq_body rq) cfg latency st
      in (st, wire_of (action d) (case transformed_body d of None \<Rightarrow> [] | Some b \<Rightarrow> b) (reason_obj d)))"

section \<open>What the proxy reads\<close>

lemma wire_of_readable:
  assumes "json_ok depth (PDict reason)"
  obtains r where "wire_of act body reason = Inr \<lparr>wv_action = act, wv_body = body, wv_reason = r\<rparr>" "json_loads depth r = Inr (PDict reason)"
  using json_loads_bytes [OF assms] by (auto simp: wire_of_def)

lemma analyze_total_wire:
  assumes "Inspect env cfg latency rq st = (st', r)"
  obtains d where "analyze env (rq_session_id rq) (rq_direction rq) (rq_path rq) (rq_headers rq) (rq_body rq) cfg latency st = (st', d)"
    "r = wire_of (action d) (case transformed_body d of None \<Rightarrow> [] | Some b \<Rightarrow> b) (reason_obj d)"
  using assms by (auto simp: Inspect_def split: prod.splits)

text \<open>A lone surrogate in the reason cannot be encoded: the call fails although the verdict was reached.\<close>

lemma surrogate_reason_fails: "\<exists>e. wire_of (lit ''allow'') [] [(lit ''note'', PStr [0xD800])] = Inl e"
proof -
  have "case wire_of (lit ''allow'') [] [(lit ''note'', PStr [0xD800])] of Inl e \<Rightarrow> True | Inr w \<Rightarrow> False" by code_simp
  then show ?thesis by (auto split: sum.splits)
qed

section \<open>Properties\<close>

text \<open>C15: The message on the wire has the action of the verdict, one of the three, a body only for transform, and a
  reason that decodes to the reason of the verdict; the call fails only where that reason
  cannot be written as UTF-8.\<close>

theorem inspect_reports_verdict:
  assumes "config_valid cfg" "Inspect env cfg latency rq st = (st', r)"
  shows "\<exists>d. analyze env (rq_session_id rq) (rq_direction rq) (rq_path rq) (rq_headers rq) (rq_body rq) cfg latency st = (st', d) \<and>
    (case r of
       Inl e \<Rightarrow> json_bytes (PDict (reason_obj d)) = Inl e \<and> \<not> json_ok depth (PDict (reason_obj d))
     | Inr w \<Rightarrow> wv_action w = action d \<and> action d \<in> set WIRE_ACTIONS \<and> (action d \<noteq> lit ''transform'' \<longrightarrow> wv_body w = []) \<and>
         (\<forall>b. transformed_body d = Some b \<longrightarrow> wv_body w = b) \<and>
         (json_ok depth (PDict (reason_obj d)) \<longrightarrow> json_loads depth (wv_reason w) = Inr (PDict (reason_obj d))))"
proof -
  obtain d where d: "analyze env (rq_session_id rq) (rq_direction rq) (rq_path rq) (rq_headers rq) (rq_body rq) cfg latency st = (st', d)"
    "r = wire_of (action d) (case transformed_body d of None \<Rightarrow> [] | Some b \<Rightarrow> b) (reason_obj d)"
    using analyze_total_wire [OF assms(2)] by blast
  have "verdict_ok d" using analyze_verdict_ok [OF assms(1)] d(1) by (metis snd_conv)
  with json_loads_bytes [of depth "PDict (reason_obj d)"] d show ?thesis
    by (cases "json_bytes (PDict (reason_obj d))") (auto simp: wire_of_def verdict_ok_def split: option.splits)
qed

theorem inspect_reports_verdict_witness:
  "\<exists>w. snd (Inspect sample_pipe_env default_config 3 \<lparr>rq_session_id = lit ''s'', rq_direction = lit ''output'', rq_method = [], rq_path = [],
      rq_headers = [], rq_body = lit ''[1]''\<rparr> sample_pipe_state) = Inr w \<and> wv_body w = [] \<and>
    json_loads 5 (wv_reason w) = Inr (PDict [(lit ''fail_policy_applied'', PBool True), (lit ''stage'', PStr (lit ''pipeline''))])"
proof -
  let ?rq = "\<lparr>rq_session_id = lit ''s'', rq_direction = lit ''output'', rq_method = [], rq_path = [], rq_headers = [], rq_body = lit ''[1]''\<rparr>"
  have j: "json_ok 5 (PDict (reason_obj (fail_decision default_config)))" by code_simp
  obtain d where d: "analyze sample_pipe_env (lit ''s'') (lit ''output'') [] [] (lit ''[1]'') default_config 3 sample_pipe_state =
      (fst (Inspect sample_pipe_env default_config 3 ?rq sample_pipe_state), d)"
    "case snd (Inspect sample_pipe_env default_config 3 ?rq sample_pipe_state) of
       Inl e \<Rightarrow> json_bytes (PDict (reason_obj d)) = Inl e \<and> \<not> json_ok 5 (PDict (reason_obj d))
     | Inr w \<Rightarrow> wv_action w = action d \<and> action d \<in> set WIRE_ACTIONS \<and> (action d \<noteq> lit ''transform'' \<longrightarrow> wv_body w = []) \<and>
         (\<forall>b. transformed_body d = Some b \<longrightarrow> wv_body w = b) \<and>
         (json_ok 5 (PDict (reason_obj d)) \<longrightarrow> json_loads 5 (wv_reason w) = Inr (PDict (reason_obj d)))"
    using inspect_reports_verdict [OF default_valid prod.collapse [symmetric], where env = sample_pipe_env and latency = 3 and rq = ?rq
      and st = sample_pipe_state and depth = 5] by auto
  then have "d = fail_decision default_config" using sample_failure by simp
  with d(2) j show ?thesis by (auto simp: fail_decision_def default_config_def lit_def split: sum.splits)
qed

end
