(* ===== verification/Tool_Scripts.thy ===== *)
theory Tool_Scripts
  imports Grpc Db_Scripts
begin

text \<open>
  The other developer tools: \<open>src/scripts/gen_proto.py\<close>, \<open>src/scripts/test_grpc_client.py\<close> and
  \<open>src/scripts/verify_detect_pipeline.py\<close>. The compiler of protocol buffers, the network and the files are parameters; what is
  printed is kept where it carries the result. A JSON integer of more than 4300 digits counts as a line that cannot be decoded.
\<close>

section \<open>Substrings\<close>

text \<open>\<open>old in s\<close> and \<open>s.replace(old, new)\<close> for a nonempty \<open>old\<close>.\<close>

definition occurs_at :: "pystr \<Rightarrow> pystr \<Rightarrow> bool" where
  "occurs_at old s = (take (length old) s = old)"

fun occurs_in :: "pystr \<Rightarrow> pystr \<Rightarrow> bool" where
  "occurs_in old [] = (old = [])"
| "occurs_in old (c # s) = (occurs_at old (c # s) \<or> occurs_in old s)"

function str_replace :: "pystr \<Rightarrow> pystr \<Rightarrow> pystr \<Rightarrow> pystr" where
  "str_replace old new s =
     (if s = [] then []
      else if old \<noteq> [] \<and> occurs_at old s then new @ str_replace old new (drop (length old) s)
      else hd s # str_replace old new (tl s))"
  by pat_completeness auto
termination by (relation "measure (\<lambda>(old, new, s). length s)") auto

declare str_replace.simps [simp del]

lemma occurs_in_iff: "occurs_in old s \<longleftrightarrow> (\<exists>a b. s = a @ old @ b)"
proof (induction s)
  case (Cons c s)
  have "occurs_at old (c # s) \<longleftrightarrow> (\<exists>b. c # s = old @ b)" by (metis append_eq_conv_conj append_take_drop_id occurs_at_def)
  moreover have "(\<exists>a b. c # s = a @ old @ b) \<longleftrightarrow> (\<exists>b. c # s = old @ b) \<or> (\<exists>a b. s = a @ old @ b)"
    by (metis append_Cons append_Nil list.exhaust list.inject)
  ultimately show ?case using Cons by simp
qed simp

section \<open>Generating the protocol module\<close>

record out_dir =
  grpc_file :: "pystr option"
  init_file :: "pystr option"

definition BARE_IMPORT :: pystr where "BARE_IMPORT = lit ''import dlp_pb2 as dlp__pb2''"

definition PACKAGE_IMPORT :: pystr where "PACKAGE_IMPORT = lit ''from app.proto import dlp_pb2 as dlp__pb2''"

datatype import_note = No_file | Rewritten | Already_rewritten | Unexpected

definition fix_grpc_import :: "out_dir \<Rightarrow> out_dir \<times> import_note" where
  "fix_grpc_import d =
     (case grpc_file d of
        None \<Rightarrow> (d, No_file)
      | Some text \<Rightarrow>
          if occurs_in BARE_IMPORT text then (d\<lparr>grpc_file := Some (str_replace BARE_IMPORT PACKAGE_IMPORT text)\<rparr>, Rewritten)
          else if occurs_in PACKAGE_IMPORT text then (d, Already_rewritten)
          else (d, Unexpected))"

definition ensure_init_py :: "out_dir \<Rightarrow> out_dir" where
  "ensure_init_py d = (case init_file d of None \<Rightarrow> d\<lparr>init_file := Some []\<rparr> | Some x \<Rightarrow> d)"

text \<open>The compiler returns its exit code and may have written the directory.\<close>

definition run_protoc :: "(out_dir \<Rightarrow> out_dir \<times> int) \<Rightarrow> bool \<Rightarrow> out_dir \<Rightarrow> out_dir \<times> script_end" where
  "run_protoc protoc exists d =
     (if \<not> exists then (d, Exit 1)
      else let (d, code) = protoc d in (d, if code \<noteq> 0 then Exit code else Completed))"

definition gen_proto :: "(out_dir \<Rightarrow> out_dir \<times> int) \<Rightarrow> bool \<Rightarrow> out_dir \<Rightarrow> out_dir \<times> script_end" where
  "gen_proto protoc exists d =
     (case run_protoc protoc exists d of
        (d, Completed) \<Rightarrow> (ensure_init_py (fst (fix_grpc_import d)), Completed)
      | (d, e) \<Rightarrow> (d, e))"

text \<open>The branch for a file that was rewritten before is never taken, since the new import contains the old one;
  such a file is rewritten again, into a line that is no import.\<close>

lemma never_already_rewritten: "snd (fix_grpc_import d) \<noteq> Already_rewritten"
proof -
  have "PACKAGE_IMPORT = lit ''from app.proto '' @ BARE_IMPORT" by (simp add: PACKAGE_IMPORT_def BARE_IMPORT_def lit_def)
  then have "occurs_in BARE_IMPORT x" if "occurs_in PACKAGE_IMPORT x" for x
    using that unfolding occurs_in_iff by (metis append.assoc)
  then show ?thesis by (auto simp: fix_grpc_import_def split: option.splits)
qed

lemma rewritten_twice:
  "grpc_file (fst (fix_grpc_import \<lparr>grpc_file = Some PACKAGE_IMPORT, init_file = None\<rparr>)) = Some (lit ''from app.proto from app.proto import dlp_pb2 as dlp__pb2'')"
  by code_simp

section \<open>The manual client\<close>

text \<open>\<open>json.dumps\<close> with \<open>ensure_ascii\<close>: what is outside of printable ASCII stands in strings only.\<close>

definition ascii_char :: "pychar \<Rightarrow> pystr" where
  "ascii_char c =
     (let unit = \<lambda>u. [92, 117] @ hex_fixed 4 u in
      if 32 \<le> c \<and> c < 127 then [c]
      else if c < 0x10000 then unit c
      else unit (0xD800 + (c - 0x10000) div 0x400) @ unit (0xDC00 + (c - 0x10000) mod 0x400))"

definition json_dumps_ascii :: "pyval \<Rightarrow> pystr" where
  "json_dumps_ascii v = concat (map ascii_char (json_dumps v))"

definition CLIENT_TEXT :: pystr where
  "CLIENT_TEXT = [44256, 44061] @ lit '' '' @ [44608, 48124, 51456, 45784] @ lit '' '' @ [50672, 46973, 52376, 45716]
      @ lit '' 010-1234-5678 '' @ [51060, 44256] @ lit '', '' @ [52852, 46300, 48264, 54840] @ lit '' 4111-1111-1111-1111 ''
      @ [47196] @ lit '' '' @ [44208, 51228] @ lit '' '' @ [48512, 53441, 46300, 47549, 45768, 45796] @ lit ''.''"

text \<open>The session is \<open>str(uuid.uuid4())\<close> of a random number.\<close>

definition build_request :: "int \<Rightarrow> inspect_request" where
  "build_request uuid =
     \<lparr>rq_session_id = uuid_str uuid, rq_direction = lit ''input'', rq_method = lit ''POST'', rq_path = lit ''/v1/chat'', rq_headers = [],
      rq_body = json_dumps_ascii (PDict [(lit ''messages'', PList [PDict [(lit ''role'', PStr (lit ''user'')), (lit ''content'', PStr CLIENT_TEXT)]])])\<rparr>"

text \<open>What the client prints of a verdict: the action, the body and the reason, which is shown as it is when it is not JSON.\<close>

datatype shown = Rpc_failed py_exn | Verdict_shown pystr "pystr option" "(pyval + bytes) option"

definition show_verdict :: "nat \<Rightarrow> wire_verdict \<Rightarrow> shown result" where
  "show_verdict depth v =
     bind_result (if wv_body v = [] then Inr None else bind_result (utf8_decode (wv_body v)) (\<lambda>t. Inr (Some t))) (\<lambda>body.
       case (if wv_reason v = [] then None else Some (json_loads depth (wv_reason v))) of
         None \<Rightarrow> Inr (Verdict_shown (wv_action v) body None)
       | Some (Inr r) \<Rightarrow> Inr (Verdict_shown (wv_action v) body (Some (Inl r)))
       | Some (Inl ValueError) \<Rightarrow> Inr (Verdict_shown (wv_action v) body (Some (Inr (wv_reason v))))
       | Some (Inl e) \<Rightarrow> Inl e)"

definition client :: "nat \<Rightarrow> (inspect_request \<Rightarrow> 's \<Rightarrow> 's \<times> wire_verdict result) \<Rightarrow> int \<Rightarrow> 's \<Rightarrow> 's \<times> shown result" where
  "client depth rpc uuid st =
     (let (st, v) = rpc (build_request uuid) st
      in (st, case v of Inl e \<Rightarrow> Inr (Rpc_failed e) | Inr v \<Rightarrow> show_verdict depth v))"

text \<open>The request is one that the gateway adapter reads back as the text of the user.\<close>

lemma client_request_readable: "gateway_extract_turns 5 (rq_body (build_request 0)) = Inr [\<lparr>trole = lit ''user'', ttext = CLIENT_TEXT\<rparr>]"
  by code_simp

section \<open>The check of the detector\<close>

text \<open>A line that is empty or cannot be decoded is skipped; the recursion limit is not caught.\<close>

fun load_dataset :: "nat \<Rightarrow> pystr list \<Rightarrow> pyval list result" where
  "load_dataset depth [] = Inr []"
| "load_dataset depth (line # lines) =
     (let line = strip line in
      if line = [] then load_dataset depth lines
      else case (if starts 0xFEFF line then Inl ValueError else json_parse depth line) of
        Inr row \<Rightarrow> bind_result (load_dataset depth lines) (\<lambda>rows. Inr (row # rows))
      | Inl ValueError \<Rightarrow> load_dataset depth lines
      | Inl e \<Rightarrow> Inl e)"

text \<open>The first loop of \<open>main\<close>; \<open>detect_other\<close> is the detector on a value that is no string.\<close>

fun flag_rows :: "'m detect_env \<Rightarrow> (pyval \<Rightarrow> 'm detect_state \<Rightarrow> 'm detect_state \<times> span list) \<Rightarrow> pyval list \<Rightarrow> 'm detect_state \<Rightarrow>
    'm detect_state \<times> (dict \<times> span list) list result" where
  "flag_rows env detect_other [] st = (st, Inr [])"
| "flag_rows env detect_other (PDict row # rows) st =
     (let (st, spans) = (case dict_get row (lit ''text'') of
            None \<Rightarrow> detect env [] st | Some (PStr t) \<Rightarrow> detect env t st | Some v \<Rightarrow> detect_other v st);
          (st, flagged) = flag_rows env detect_other rows st
      in (st, bind_result flagged (\<lambda>fs. Inr (if spans \<noteq> [] then (row, spans) # fs else fs))))"
| "flag_rows env detect_other (v # rows) st = (st, Inl AttributeError)"

record detect_report =
  rp_total :: nat
  rp_flagged :: "(dict \<times> span list) list"
  rp_rate :: pyfloat

text \<open>The spans of a row are shown by their start; the rate is a percentage.\<close>

definition report_of :: "pyval list \<Rightarrow> (dict \<times> span list) list \<Rightarrow> detect_report" where
  "report_of rows flagged =
     \<lparr>rp_total = length rows, rp_flagged = map (\<lambda>(row, spans). (row, sort_key sstart spans)) flagged,
      rp_rate = (if rows \<noteq> [] then fmul (fl (of_nat (length flagged) / of_nat (length rows))) 100 else 0)\<rparr>"

definition verify_detect :: "nat \<Rightarrow> 'm detect_env \<Rightarrow> (pyval \<Rightarrow> 'm detect_state \<Rightarrow> 'm detect_state \<times> span list) \<Rightarrow> pystr list option \<Rightarrow> 'm detect_state \<Rightarrow>
    'm detect_state \<times> script_end \<times> detect_report option" where
  "verify_detect depth env detect_other file st =
     (case file of
        None \<Rightarrow> (st, Exit 1, None)
      | Some lines \<Rightarrow>
          (case load_dataset depth lines of
             Inl e \<Rightarrow> (st, Raised e, None)
           | Inr rows \<Rightarrow>
               (case flag_rows env detect_other rows st of
                  (st, Inl e) \<Rightarrow> (st, Raised e, None)
                | (st, Inr flagged) \<Rightarrow> (st, Completed, Some (report_of rows flagged)))))"

text \<open>What the module does when it is loaded, and then \<open>main\<close>: unlike the server it does not catch a failure of the warm-up.\<close>

definition verify_start :: "'m detect_env \<Rightarrow> config result \<Rightarrow> 'm detect_state \<Rightarrow> 'm detect_state \<times> unit result" where
  "verify_start env settings st =
     (case load_config settings of
        Inl e \<Rightarrow> (st, Inl e)
      | Inr cfg \<Rightarrow>
          let (st, g) = get_ner_engine (Some (ner_model_name (cfg_detect cfg))) (Some (ner_threshold (cfg_detect cfg))) st;
              (st, m) = ensure_loaded env g st
          in (st, bind_result m (\<lambda>x. Inr ())))"

definition verify_script :: "nat \<Rightarrow> 'm detect_env \<Rightarrow> config result \<Rightarrow> (pyval \<Rightarrow> 'm detect_state \<Rightarrow> 'm detect_state \<times> span list) \<Rightarrow> pystr list option \<Rightarrow>
    'm detect_state \<Rightarrow> 'm detect_state \<times> script_end \<times> detect_report option" where
  "verify_script depth env settings detect_other file st =
     (case verify_start env settings st of
        (st, Inl e) \<Rightarrow> (st, Raised e, None)
      | (st, Inr _) \<Rightarrow> verify_detect depth env detect_other file st)"

text \<open>Where the server goes on to serve, the script ends before it reads its data.\<close>

lemma verify_needs_model:
  assumes "load_config settings = Inr cfg" "ds_engine st = None" "\<And>n name. d_pretrained env n name = Inl e"
  shows "snd (verify_script depth env settings detect_other file st) = (Raised e, None)"
  using assms by (simp add: verify_script_def verify_start_def get_ner_engine_def new_engine_def ensure_loaded_def bind_result_def case_prod_beta Let_def)

text \<open>On rows with a text the loop completes, and what it flags are rows with the spans that the detector
  found in their text.\<close>

lemma flag_rows_sound:
  assumes "env_documented env" "detect_state_ok st" "\<forall>row \<in> set rows. \<exists>d t. row = PDict d \<and> dict_get d (lit ''text'') = Some (PStr t)"
  shows "\<exists>fs. snd (flag_rows env detect_other rows st) = Inr fs \<and> length fs \<le> length rows \<and>
    (\<forall>(d, ss) \<in> set fs. PDict d \<in> set rows \<and> ss \<noteq> [] \<and>
       (\<exists>t. dict_get d (lit ''text'') = Some (PStr t) \<and> disjoint_spans ss \<and> (\<forall>s \<in> set ss. span_of t s)))"
  using assms(2,3)
proof (induction rows arbitrary: st)
  case (Cons row rows)
  then obtain d t where d: "row = PDict d" "dict_get d (lit ''text'') = Some (PStr t)" by auto
  obtain st1 ss where ss: "detect env t st = (st1, ss)" by fastforce
  note ok = detect_ok [OF assms(1) Cons.prems(1) ss]
  then have "detect_state_ok st1" by simp
  with Cons.IH [of st1] Cons.prems(2) obtain fs where
    fs: "snd (flag_rows env detect_other rows st1) = Inr fs" "length fs \<le> length rows"
      "\<forall>(d, ss) \<in> set fs. PDict d \<in> set rows \<and> ss \<noteq> [] \<and>
         (\<exists>t. dict_get d (lit ''text'') = Some (PStr t) \<and> disjoint_spans ss \<and> (\<forall>s \<in> set ss. span_of t s))" by auto
  have "snd (flag_rows env detect_other (row # rows) st) = Inr (if ss \<noteq> [] then (d, ss) # fs else fs)"
    using fs(1) by (simp add: d ss case_prod_beta Let_def)
  with fs(2,3) ok d show ?case by auto
qed simp

text \<open>A line that is JSON but no object ends the run, although a line that is no JSON is skipped.\<close>

lemma non_object_raises: "snd (flag_rows env detect_other (PList vs # rows) st) = Inl AttributeError"
  by simp

lemma bad_line_skipped: "load_dataset 5 [lit ''{'', lit ''[]''] = Inr [PList []]"
  by code_simp

end
