(* ===== verification/Boot.thy ===== *)
theory Boot
  imports Service Db
begin

text \<open>
  The start and the end of the process: \<open>app/main.py\<close>, \<open>create_server\<close> of \<open>app/grpc_server.py\<close> and the middleware of
  \<open>create_app\<close> in \<open>app/api.py\<close>. The servers are the libraries' (\<open>grpc\<close>, \<open>uvicorn\<close>); what is kept of them is their settings and whether they
  run. Whether an address can be bound is a parameter. A signal only sets an event; the main thread waits for it.
  \<open>main\<close> reads the settings, and \<open>create_app()\<close> reads them again: \<open>be_settings\<close> and \<open>be_settings_again\<close>. The HTTP server binds
  its address in its own thread; when that fails only this thread ends, and the main thread waits for the signal as before.
\<close>

section \<open>The two servers\<close>

record grpc_server =
  gs_config :: config
  gs_workers :: nat
  gs_address :: pystr

text \<open>\<open>config or load_config()\<close>.\<close>

definition config_or :: "config result \<Rightarrow> config option \<Rightarrow> config result" where
  "config_or settings cfg = (case cfg of Some c \<Rightarrow> Inr c | None \<Rightarrow> load_config settings)"

definition listens_on :: "config \<Rightarrow> pystr" where
  "listens_on cfg = grpc_host (cfg_grpc cfg) @ lit '':'' @ py_str_int (grpc_port (cfg_grpc cfg))"

definition create_server :: "(pystr \<Rightarrow> py_exn option) \<Rightarrow> config result \<Rightarrow> config option \<Rightarrow> nat \<Rightarrow> grpc_server result" where
  "create_server bind settings cfg max_workers =
     bind_result (config_or settings cfg) (\<lambda>c.
       let address = listens_on c
       in case bind address of
            Some e \<Rightarrow> Inl e
          | None \<Rightarrow> Inr \<lparr>gs_config = c, gs_workers = max_workers, gs_address = address\<rparr>)"

record http_app =
  allow_origins :: "pystr list"
  allow_methods :: "pystr list"
  allow_headers :: "pystr list"

definition create_app :: "config result \<Rightarrow> config option \<Rightarrow> http_app result" where
  "create_app settings cfg =
     bind_result (config_or settings cfg) (\<lambda>c.
       Inr \<lparr>allow_origins = cors_origins (cfg_api c), allow_methods = [lit ''GET''], allow_headers = [lit ''*'']\<rparr>)"

section \<open>The main thread\<close>

datatype action_done =
    Grpc_started
  | Handlers_set
  | Api_started pystr int
  | Api_told_to_exit
  | Grpc_stopped pyfloat
  | Api_joined pyfloat
  | Pool_closed

record 'm process =
  pr_detect :: "'m detect_state"
  pr_db :: db_state
  pr_server :: "grpc_server option"
  pr_app :: "http_app option"
  pr_stop :: bool
  pr_done :: "action_done list"

record 'm boot_env =
  be_detect :: "'m detect_env"
  be_settings :: "config result"
  be_settings_again :: "config result"
  be_bind :: "pystr \<Rightarrow> py_exn option"

definition did :: "action_done \<Rightarrow> 'm process \<Rightarrow> 'm process" where
  "did a pr = pr\<lparr>pr_done := pr_done pr @ [a]\<rparr>"

text \<open>Up to \<open>stop.wait()\<close>. The failure of the warm-up is caught.\<close>

definition main_start :: "'m boot_env \<Rightarrow> 'm process \<Rightarrow> 'm process \<times> unit result" where
  "main_start env pr =
     (case load_config (be_settings env) of
        Inl e \<Rightarrow> (pr, Inl e)
      | Inr cfg \<Rightarrow>
          let pr = pr\<lparr>pr_detect := preload (be_detect env) (cfg_detect cfg) (pr_detect pr)\<rparr>
          in case create_server (be_bind env) (be_settings env) (Some cfg) 8 of
               Inl e \<Rightarrow> (pr, Inl e)
             | Inr server \<Rightarrow>
                 let pr = did Handlers_set (did Grpc_started (pr\<lparr>pr_server := Some server\<rparr>))
                 in case create_app (be_settings_again env) None of
                      Inl e \<Rightarrow> (pr, Inl e)
                    | Inr app \<Rightarrow> (did (Api_started (api_host (cfg_api cfg)) (api_port (cfg_api cfg))) (pr\<lparr>pr_app := Some app\<rparr>), Inr ()))"

text \<open>\<open>_handle\<close>, for \<open>SIGINT\<close> and \<open>SIGTERM\<close>.\<close>

definition handle :: "nat \<Rightarrow> 'm process \<Rightarrow> 'm process" where
  "handle signum pr = pr\<lparr>pr_stop := True\<rparr>"

text \<open>After \<open>stop.wait()\<close>.\<close>

definition main_end :: "'m process \<Rightarrow> 'm process" where
  "main_end pr = did Pool_closed ((did (Api_joined 5) (did (Grpc_stopped 2) (did Api_told_to_exit pr)))\<lparr>pr_db := close (pr_db pr)\<rparr>)"

text \<open>The main thread with the signals it receives while it waits; \<open>None\<close> when it never returns.\<close>

definition main :: "'m boot_env \<Rightarrow> nat list \<Rightarrow> 'm process \<Rightarrow> ('m process \<times> unit result) option" where
  "main env signals pr =
     (case main_start env pr of
        (pr, Inl e) \<Rightarrow> Some (pr, Inl e)
      | (pr, Inr _) \<Rightarrow>
          let pr = foldl (\<lambda>pr n. handle n pr) pr signals
          in if pr_stop pr then Some (main_end pr, Inr ()) else None)"

section \<open>What is running afterwards\<close>

lemma preload_engine:
  "\<exists>g. ds_engine (preload env cfg st) = Some g \<and> (case ds_engine st of
      Some h \<Rightarrow> model_name g = model_name h \<and> threshold g = threshold h
    | None \<Rightarrow> model_name g = (if ner_model_name cfg \<noteq> [] then ner_model_name cfg else DEFAULT_MODEL_NAME) \<and> threshold g = ner_threshold cfg)"
  by (auto simp: preload_def get_ner_engine_def new_engine_def ensure_loaded_def case_prod_beta Let_def split: option.splits sum.splits)

lemma did_simps [simp]: "pr_done (did a pr) = pr_done pr @ [a]" "pr_server (did a pr) = pr_server pr" "pr_app (did a pr) = pr_app pr"
  "pr_stop (did a pr) = pr_stop pr" "pr_db (did a pr) = pr_db pr" "pr_detect (did a pr) = pr_detect pr"
  by (simp_all add: did_def)

lemma handle_signals: "foldl (\<lambda>pr n. handle n pr) pr signals = (if signals = [] then pr else pr\<lparr>pr_stop := True\<rparr>)"
  by (induction signals arbitrary: pr) (auto simp: handle_def)

lemma create_server_ok: "create_server bind settings (Some cfg) n =
    (case bind (listens_on cfg) of Some e \<Rightarrow> Inl e | None \<Rightarrow> Inr \<lparr>gs_config = cfg, gs_workers = n, gs_address = listens_on cfg\<rparr>)"
  by (simp add: create_server_def config_or_def bind_result_def Let_def)

lemma main_start_cases:
  obtains (unconfigured) e where "load_config (be_settings env) = Inl e" "main_start env pr = (pr, Inl e)"
  | (unbound) cfg e where "load_config (be_settings env) = Inr cfg" "be_bind env (listens_on cfg) = Some e"
      "main_start env pr = (pr\<lparr>pr_detect := preload (be_detect env) (cfg_detect cfg) (pr_detect pr)\<rparr>, Inl e)"
  | (no_app) cfg e where "load_config (be_settings env) = Inr cfg" "be_bind env (listens_on cfg) = None" "load_config (be_settings_again env) = Inl e"
      "main_start env pr = (pr\<lparr>pr_detect := preload (be_detect env) (cfg_detect cfg) (pr_detect pr),
         pr_server := Some \<lparr>gs_config = cfg, gs_workers = 8, gs_address = listens_on cfg\<rparr>,
         pr_done := pr_done pr @ [Grpc_started, Handlers_set]\<rparr>, Inl e)"
  | (started) cfg cfg2 where "load_config (be_settings env) = Inr cfg" "be_bind env (listens_on cfg) = None" "load_config (be_settings_again env) = Inr cfg2"
      "main_start env pr = (pr\<lparr>pr_detect := preload (be_detect env) (cfg_detect cfg) (pr_detect pr),
         pr_server := Some \<lparr>gs_config = cfg, gs_workers = 8, gs_address = listens_on cfg\<rparr>,
         pr_app := Some \<lparr>allow_origins = cors_origins (cfg_api cfg2), allow_methods = [lit ''GET''], allow_headers = [lit ''*'']\<rparr>,
         pr_done := pr_done pr @ [Grpc_started, Handlers_set, Api_started (api_host (cfg_api cfg)) (api_port (cfg_api cfg))]\<rparr>, Inr ())"
proof (cases "load_config (be_settings env)")
  case (Inl e)
  then show thesis by (intro unconfigured) (simp_all add: main_start_def)
next
  case (Inr cfg)
  show thesis
  proof (cases "be_bind env (listens_on cfg)")
    case None
    with Inr show thesis
      by (cases "load_config (be_settings_again env)"; intro no_app started)
        (simp_all add: main_start_def create_server_ok create_app_def config_or_def did_def bind_result_def Let_def)
  next
    case (Some e)
    with Inr show thesis by (intro unbound) (simp_all add: main_start_def create_server_ok Let_def)
  qed
qed

section \<open>Properties\<close>

text \<open>C22: If the settings cannot be loaded or the address cannot be bound, the
  main thread ends with that exception and no server runs; whether the model can be loaded makes no difference. If only the second
  reading of the settings fails, it ends with that exception after the RPC server was started, and no HTTP server is started. Otherwise the main
  thread returns exactly when a signal comes, and then it has started the RPC server before the HTTP
  server, on the configured address with the loaded settings, under which every verdict is well formed, the HTTP server answers
  the origins of the second reading, the detector has the configured threshold, and
  the connection pool is closed after both servers have been stopped.\<close>

theorem process_lifetime:
  fixes pe :: "'m pipe_env"
  assumes "pr_done pr = []" "pr_server pr = None" "\<not> pr_stop pr" "ds_engine (pr_detect pr) = None"
  shows "case main env signals pr of
      None \<Rightarrow> signals = [] \<and> (\<exists>cfg cfg2. load_config (be_settings env) = Inr cfg \<and> be_bind env (listens_on cfg) = None \<and>
        load_config (be_settings_again env) = Inr cfg2)
    | Some (pr', Inl e) \<Rightarrow>
        pr_done pr' = [] \<and> pr_server pr' = None \<and>
          (load_config (be_settings env) = Inl e \<or> (\<exists>cfg. load_config (be_settings env) = Inr cfg \<and> be_bind env (listens_on cfg) = Some e)) \<or>
        pr_done pr' = [Grpc_started, Handlers_set] \<and> pr_app pr' = pr_app pr \<and> load_config (be_settings_again env) = Inl e \<and>
          (\<exists>server. pr_server pr' = Some server \<and> load_config (be_settings env) = Inr (gs_config server) \<and> be_bind env (gs_address server) = None)
    | Some (pr', Inr _) \<Rightarrow> signals \<noteq> [] \<and>
        (\<exists>server g app cfg2. pr_server pr' = Some server \<and> load_config (be_settings env) = Inr (gs_config server) \<and> gs_address server = listens_on (gs_config server) \<and>
          pr_done pr' = [Grpc_started, Handlers_set, Api_started (api_host (cfg_api (gs_config server))) (api_port (cfg_api (gs_config server))),
            Api_told_to_exit, Grpc_stopped 2, Api_joined 5, Pool_closed] \<and>
          pr_app pr' = Some app \<and> load_config (be_settings_again env) = Inr cfg2 \<and> allow_origins app = cors_origins (cfg_api cfg2) \<and>
          the_pool (pr_db pr') = None \<and> ds_engine (pr_detect pr') = Some g \<and> threshold g = ner_threshold (cfg_detect (gs_config server)) \<and>
          (\<forall>sid dir path hs b latency st. verdict_ok (snd (analyze pe sid dir path hs b (gs_config server) latency st))))"
proof (cases rule: main_start_cases [where env = env and pr = pr])
  case (unconfigured e)
  with assms show ?thesis by (simp add: main_def)
next
  case (unbound cfg e)
  with assms show ?thesis by (simp add: main_def)
next
  case (no_app cfg e)
  with assms show ?thesis by (simp add: main_def)
next
  case (started cfg cfg2)
  show ?thesis
  proof (cases "signals = []")
    case True
    with started assms(3) show ?thesis by (simp add: main_def handle_signals)
  next
    case False
    obtain g where g: "ds_engine (preload (be_detect env) (cfg_detect cfg) (pr_detect pr)) = Some g" "threshold g = ner_threshold (cfg_detect cfg)"
      using preload_engine [of "be_detect env" "cfg_detect cfg" "pr_detect pr"] assms(4) by auto
    have "\<forall>sid dir path hs b latency st. verdict_ok (snd (analyze pe sid dir path hs b cfg latency st))"
      using analyze_verdict_ok [OF load_config_valid [OF started(1)]] by blast
    with started False g assms(1) show ?thesis
      by (simp add: main_def handle_signals main_end_def close_def did_def)
  qed
qed

definition sample_process :: "unit process" where
  "sample_process = \<lparr>pr_detect = sample_detect_state\<lparr>ds_engine := None\<rparr>, pr_db = \<lparr>the_pool = None, db_log = []\<rparr>, pr_server = None, pr_app = None,
     pr_stop = False, pr_done = []\<rparr>"

definition sample_boot :: "unit boot_env" where
  "sample_boot = \<lparr>be_detect = sample_detect_env, be_settings = Inr default_config, be_settings_again = Inr default_config, be_bind = (\<lambda>a. None)\<rparr>"

theorem process_lifetime_witness:
  "\<exists>pr'. main sample_boot [15] sample_process = Some (pr', Inr ()) \<and> last (pr_done pr') = Pool_closed"
proof -
  have load: "load_config (be_settings sample_boot) = Inr default_config" "load_config (be_settings_again sample_boot) = Inr default_config" "be_bind sample_boot a = None" for a
    by (simp_all add: sample_boot_def default_config_valid)
  have "pr_done sample_process = []" "pr_server sample_process = None" "\<not> pr_stop sample_process" "ds_engine (pr_detect sample_process) = None"
    by (simp_all add: sample_process_def)
  note life = process_lifetime [OF this, where env = sample_boot and signals = "[15]" and pe = sample_pipe_env]
  then obtain pr' r where m: "main sample_boot [15] sample_process = Some (pr', r)" by (auto split: option.splits)
  from life show ?thesis unfolding m by (cases r) (auto simp: load)
qed

end
