(* ===== verification/Demo.thy ===== *)
theory Demo
  imports Boot Db_Scripts
begin

text \<open>
  \<open>src/scripts/demo_seed.py\<close>: the scenarios of the demonstration, sent through the pipeline one after the other. The settings are
  loaded after the script has set environment variables; what they become is a parameter. Of what is printed the
  table of the results is kept.
\<close>

section \<open>The scenarios\<close>

definition DEMO_PATH :: pystr where "DEMO_PATH = lit ''/v1/chat/completions''"

definition Q_CODE :: pystr where
  "Q_CODE =
     [54028, 51060, 50028] @ lit '' '' @ [47532, 49828, 53944, 47484] @ lit '' '' @ [50669, 49692, 51004, 47196] @ lit '' ''
      @ [46244, 51665, 45716] @ lit '' '' @ [48169, 48277] @ lit '' '' @ [50508, 47140, 51480]"

definition Q_SUMMARIZE_PII :: pystr where
  "Q_SUMMARIZE_PII =
     [45796, 51020] @ lit '' '' @ [49345, 45812] @ lit '' '' @ [45236, 50669, 51012] @ lit '' '' @ [50836, 50557, 54644, 51480]
      @ lit '': '' @ [44256, 44061] @ lit '' '' @ [44608, 52384, 49688] @ lit '', '' @ [51452, 48124, 48264, 54840]
      @ lit '' 900101-1234568, '' @ [50672, 46973, 52376] @ lit '' 010-1234-5678''"

definition Q_SUMMARIZE_CARD :: pystr where
  "Q_SUMMARIZE_CARD =
     [50500, 47000] @ lit '' '' @ [44208, 51228, 45236, 50669, 51012] @ lit '' '' @ [50836, 50557, 54644, 51480] @ lit '': ''
      @ [52852, 46300, 48264, 54840] @ lit '' 4111-1111-1111-1111 '' @ [49849, 51064] @ lit '' 5'' @ [47564, 50896]"

definition Q_INJECTION :: pystr where
  "Q_INJECTION =
     [51060, 51204] @ lit '' '' @ [51648, 49884] @ lit '' '' @ [47924, 49884, 54616, 44256] @ lit '' '' @ [49884, 49828, 53596]
      @ lit '' '' @ [54532, 47212, 54532, 53944, 47484] @ lit '' '' @ [44536, 45824, 47196] @ lit '' '' @ [50508, 47140, 51480]"

definition Q_MT_1 :: pystr where
  "Q_MT_1 =
     [51060, 48264] @ lit '' '' @ [44148] @ lit '' '' @ [44256, 44061] @ lit '' '' @ [51060, 47492, 51008] @ lit '' ''
      @ [44608, 50689, 55148, 51077, 45768, 45796]"

definition Q_MT_2 :: pystr where
  "Q_MT_2 =
     [44608, 50689, 55148] @ lit '' '' @ [51452, 48124, 48264, 54840, 45716] @ lit '' 900101-1234568 '' @ [51060, 50640, 50836]"

definition Q_MT_3 :: pystr where
  "Q_MT_3 =
     [44608, 50689, 55148] @ lit '' '' @ [44228, 51340, 48264, 54840, 45716] @ lit '' 110-234-567890 '' @ [51077, 45768, 45796]"

definition Q_DETOK_IN :: pystr where
  "Q_DETOK_IN =
     [45796, 51020] @ lit '' '' @ [47928, 51032, 47484] @ lit '' '' @ [50836, 50557, 54644, 51480] @ lit '': ''
      @ [51452, 48124, 48264, 54840] @ lit '' 900101-1234568 '' @ [44288, 47144] @ lit '' '' @ [49345, 45812]"

definition user_body :: "pystr \<Rightarrow> bytes result" where
  "user_body t = json_bytes (PDict [(lit ''messages'', PList [PDict [(lit ''role'', PStr (lit ''user'')), (lit ''content'', PStr t)]])])"

definition assistant_body :: "pystr \<Rightarrow> bytes result" where
  "assistant_body t = json_bytes (PDict [(lit ''choices'', PList [PDict [(lit ''message'',
     PDict [(lit ''role'', PStr (lit ''assistant'')), (lit ''content'', PStr t)])]])])"

text \<open>A body is given, or a function of what an earlier step captured.\<close>

datatype step_body = Body "bytes result" | From_context "dict \<Rightarrow> bytes result"

record demo_step =
  ds_direction :: pystr
  ds_body :: step_body
  ds_expect :: "pystr option"
  ds_capture :: "pystr option"

record scenario =
  sc_session :: pystr
  sc_steps :: "demo_step list"

definition demo_in :: "pystr \<Rightarrow> string option \<Rightarrow> pystr option \<Rightarrow> demo_step" where
  "demo_in t expect capture = \<lparr>ds_direction = lit ''input'', ds_body = Body (user_body t), ds_expect = map_option lit expect, ds_capture = capture\<rparr>"

text \<open>\<open>ctx['rrn_label']\<close> raises when nothing was captured.\<close>

definition detok_out :: "dict \<Rightarrow> bytes result" where
  "detok_out c =
     (case dict_get c (lit ''rrn_label'') of
        None \<Rightarrow> Inl KeyError
      | Some v \<Rightarrow> assistant_body ([50836, 50557] @ lit '': '' @ [44256, 44061] @ lit '' '' @ py_str v @
          lit '' '' @ [45784, 51032] @ lit '' '' @ [49345, 45812] @ lit '' '' @ [47928, 51032, 51077, 45768, 45796] @ lit ''.''))"

definition build_scenarios :: "scenario list" where
  "build_scenarios =
     [\<lparr>sc_session = lit ''demo-allow'', sc_steps = [demo_in Q_CODE (Some ''allow'') None]\<rparr>,
      \<lparr>sc_session = lit ''demo-transform'', sc_steps = [demo_in Q_SUMMARIZE_PII (Some ''transform'') None]\<rparr>,
      \<lparr>sc_session = lit ''demo-block-policy'', sc_steps = [demo_in Q_SUMMARIZE_CARD (Some ''block'') None]\<rparr>,
      \<lparr>sc_session = lit ''demo-block-injection'', sc_steps = [demo_in Q_INJECTION (Some ''block'') None]\<rparr>,
      \<lparr>sc_session = lit ''demo-multiturn'', sc_steps = [demo_in Q_MT_1 None None, demo_in Q_MT_2 None None, demo_in Q_MT_3 (Some ''block'') None]\<rparr>,
      \<lparr>sc_session = lit ''demo-detok'',
        sc_steps = [demo_in Q_DETOK_IN (Some ''transform'') (Some (lit ''rrn_label'')),
          \<lparr>ds_direction = lit ''output'', ds_body = From_context detok_out, ds_expect = Some (lit ''transform''), ds_capture = None\<rparr>]\<rparr>]"

text \<open>The label of the first resident number among the transforms of the reason, else a customary one.\<close>

fun first_label :: "pyval list \<Rightarrow> pyval result" where
  "first_label [] = Inr (PStr (lit ''<PII:RRN:1>''))"
| "first_label (PDict t # ts) =
     (if dict_get t (lit ''entity'') = Some (PStr (lit ''RRN'')) \<and> (case dict_get t (lit ''token_label'') of None \<Rightarrow> False | Some v \<Rightarrow> truthy v)
      then Inr (the (dict_get t (lit ''token_label''))) else first_label ts)"
| "first_label (v # ts) = Inl AttributeError"

definition rrn_token_label :: "verdict \<Rightarrow> pyval result" where
  "rrn_token_label d = bind_result (py_iter (case dict_get (reason_obj d) (lit ''transforms'') of None \<Rightarrow> PList [] | Some v \<Rightarrow> v)) first_label"

section \<open>The run\<close>

record demo_row =
  dr_session :: pystr
  dr_turn :: nat
  dr_direction :: pystr
  dr_action :: pystr
  dr_expect :: pystr
  dr_mark :: pystr

definition row_ok :: "pystr option \<Rightarrow> verdict \<Rightarrow> bool" where
  "row_ok expect d = (case expect of None \<Rightarrow> True | Some a \<Rightarrow> action d = a)"

text \<open>The steps of one scenario from step \<open>i\<close> on, with what was captured; \<open>latency\<close> is the time each call takes.\<close>

fun run_steps :: "'m pipe_env \<Rightarrow> config \<Rightarrow> int \<Rightarrow> pystr \<Rightarrow> nat \<Rightarrow> dict \<Rightarrow> demo_step list \<Rightarrow> 'm pipe_state \<Rightarrow> 'm pipe_state \<times> demo_row list result" where
  "run_steps env cfg latency sid i c [] st = (st, Inr [])"
| "run_steps env cfg latency sid i c (s # ss) st =
     (case (case ds_body s of Body b \<Rightarrow> b | From_context f \<Rightarrow> f c) of
        Inl e \<Rightarrow> (st, Inl e)
      | Inr body \<Rightarrow>
          let (st, d) = analyze env sid (ds_direction s) DEMO_PATH [] body cfg latency st in
          case (if ds_capture s = Some (lit ''rrn_label'') then bind_result (rrn_token_label d) (\<lambda>l. Inr (dict_set (lit ''rrn_label'') l c)) else Inr c) of
            Inl e \<Rightarrow> (st, Inl e)
          | Inr c \<Rightarrow>
              let row = \<lparr>dr_session = sid, dr_turn = i, dr_direction = ds_direction s, dr_action = action d,
                         dr_expect = (case ds_expect s of None \<Rightarrow> lit ''-'' | Some a \<Rightarrow> if a = [] then lit ''-'' else a),
                         dr_mark = (if row_ok (ds_expect s) d then lit ''OK'' else lit ''!!'')\<rparr>;
                  (st, rest) = run_steps env cfg latency sid (Suc i) c ss st
              in (st, bind_result rest (\<lambda>rows. Inr (row # rows))))"

fun run_scenarios :: "'m pipe_env \<Rightarrow> config \<Rightarrow> int \<Rightarrow> scenario list \<Rightarrow> 'm pipe_state \<Rightarrow> 'm pipe_state \<times> demo_row list result" where
  "run_scenarios env cfg latency [] st = (st, Inr [])"
| "run_scenarios env cfg latency (sc # scs) st =
     (case run_steps env cfg latency (sc_session sc) 1 [] (sc_steps sc) st of
        (st, Inl e) \<Rightarrow> (st, Inl e)
      | (st, Inr rows) \<Rightarrow> let (st, rest) = run_scenarios env cfg latency scs st in (st, bind_result rest (\<lambda>more. Inr (rows @ more))))"

text \<open>\<open>--reset\<close>: the rows of the demonstration's sessions leave the three tables, in one transaction.\<close>

definition demo_reset :: "vault_env \<Rightarrow> pystr list \<Rightarrow> 'm pipe_state \<Rightarrow> 'm pipe_state \<times> unit result" where
  "demo_reset env sids st =
     (let (w, up) = connect (ps_world st); uuids = set (map (coerce_session_uuid env) sids); v = w_vault w; sk = ps_sinks st in
      if \<not> up then (st\<lparr>ps_world := w\<rparr>, Inl DbError)
      else (st\<lparr>ps_world := w\<lparr>w_vault := v\<lparr>vrows := filter (\<lambda>r. vsession r \<notin> uuids) (vrows v), vlog := filter (\<lambda>r. asession r \<notin> uuids) (vlog v)\<rparr>\<rparr>,
               ps_sinks := sk\<lparr>sk_rows := filter (\<lambda>r. lr_session r \<notin> uuids) (sk_rows sk)\<rparr>\<rparr>, Inr ()))"

record demo_args =
  da_dsn :: "pystr option"
  da_reset :: bool
  da_no_ner :: bool

text \<open>The variables the script sets.\<close>

definition demo_environ :: "demo_args \<Rightarrow> (pystr \<times> pystr) list" where
  "demo_environ args =
     (case da_dsn args of None \<Rightarrow> [] | Some d \<Rightarrow> if d = [] then [] else [(lit ''DLP_DB__DSN'', d)]) @
     [(lit ''DLP_LOG_SINK'', lit ''pg'')] @
     (if da_no_ner args then [(lit ''DLP_DETECT__ENABLED_LAYERS'', lit ''regex,dict'')] else [])"

text \<open>The table of results with the number of mismatches. The pool is closed at the end only.\<close>

definition demo_seed :: "((pystr \<times> pystr) list \<Rightarrow> config result) \<Rightarrow> (config \<Rightarrow> 'm pipe_env) \<Rightarrow> int \<Rightarrow> demo_args \<Rightarrow> 'm pipe_state \<Rightarrow>
    'm pipe_state \<times> (demo_row list \<times> nat) result" where
  "demo_seed settings pe latency args st =
     (case load_config (settings (demo_environ args)) of
        Inl e \<Rightarrow> (st, Inl e)
      | Inr cfg \<Rightarrow>
          let env = pe cfg;
              st = (if da_no_ner args then st else st\<lparr>ps_detect := preload (pe_detect env) (cfg_detect cfg) (ps_detect st)\<rparr>) in
          case (if da_reset args then demo_reset (c_vault (pe_ctx env)) (map sc_session build_scenarios) st else (st, Inr ())) of
            (st, Inl e) \<Rightarrow> (st, Inl e)
          | (st, Inr _) \<Rightarrow>
              let (st, r) = run_scenarios env cfg latency build_scenarios st
              in (st, bind_result r (\<lambda>rows. Inr (rows, length (filter (\<lambda>r. dr_mark r \<noteq> lit ''OK'') rows)))))"

section \<open>The run completes\<close>

text \<open>The transforms in a reason name an entity and an action, nothing else.\<close>

definition plain_transforms :: "verdict \<Rightarrow> bool" where
  "plain_transforms d \<longleftrightarrow> dict_get (reason_obj d) (lit ''transforms'') = None \<or>
     (\<exists>ts. dict_get (reason_obj d) (lit ''transforms'') = Some (PList (map (\<lambda>(e, a). PDict [(lit ''entity'', e), (lit ''action'', a)]) ts)))"

lemma plain_reason: "\<forall>x \<in> set ex. fst x \<noteq> lit ''transforms'' \<Longrightarrow> length ex \<le> 1 \<Longrightarrow> reason_obj d = reason_of c v ex \<Longrightarrow> plain_transforms d"
proof -
  assume ex: "\<forall>x \<in> set ex. fst x \<noteq> lit ''transforms''" "length ex \<le> 1" and d: "reason_obj d = reason_of c v ex"
  have "dict_get (reason_of c v ex) (lit ''transforms'') = Some (transforms_summary c)"
    using ex by (cases ex; cases "tl ex") (auto simp: reason_of_def dict_update_def dict_get_def)
  moreover have "transforms_summary c = PList (map (\<lambda>(e, a). PDict [(lit ''entity'', e), (lit ''action'', a)])
      (map (\<lambda>(s, a). (PStr (stype s), PStr a)) (filter (\<lambda>(s, a). a \<noteq> lit ''keep'') (span_actions c))))"
    by (simp add: transforms_summary_def comp_def case_prod_beta)
  ultimately show ?thesis unfolding plain_transforms_def d by metis
qed

lemma decisions_plain: "plain_transforms (allow_decision c)" "plain_transforms (transform_decision c b)"
  "block_check c cfg chk = Some d \<Longrightarrow> plain_transforms d" "plain_transforms (fail_decision cfg)"
proof -
  show "plain_transforms (allow_decision c)" "plain_transforms (transform_decision c b)"
    by (rule plain_reason [of "[]"]; simp add: allow_decision_def transform_decision_def)+
  show "plain_transforms (fail_decision cfg)" by (simp add: plain_transforms_def fail_decision_def dict_get_def)
  show "plain_transforms d" if "block_check c cfg chk = Some d"
    using that by (auto simp: block_check_def block_decision_def split: if_splits intro!: plain_reason)
qed

lemma conclude_plain: "conclude_input a b ts cfg c = Inr d \<Longrightarrow> plain_transforms d" "conclude_output a b t cfg c = Inr d \<Longrightarrow> plain_transforms d"
  by (auto simp: conclude_input_def conclude_output_def bind_result_def Let_def decisions_plain split: option.splits if_splits sum.splits)

lemma analyze_plain: "plain_transforms (snd (analyze env sid dir path hs b cfg latency st))"
proof -
  have "plain_transforms d" if "dispatch env sid dir path hs b cfg st = (st', Inr d)" for st' d
    using that by (auto simp: dispatch_def analyze_input_def analyze_output_def plain_transforms_def dict_get_def
      split: if_splits sum.splits prod.splits dest!: conclude_plain)
  then show ?thesis by (auto simp: analyze_verdict decisions_plain split: sum.splits) (metis prod.collapse)
qed

lemma first_label_plain: "first_label (map (\<lambda>(e, a). PDict [(lit ''entity'', e), (lit ''action'', a)]) ts) = Inr (PStr (lit ''<PII:RRN:1>''))"
  by (induction ts) (auto simp: dict_get_def)

text \<open>So the look-up of the label in a verdict always falls back to the customary label.\<close>

lemma label_never_found: "rrn_token_label (snd (analyze env sid dir path hs b cfg latency st)) = Inr (PStr (lit ''<PII:RRN:1>''))"
  using analyze_plain [of env sid dir path hs b cfg latency st]
  by (auto simp: plain_transforms_def rrn_token_label_def py_iter_def first_label_plain)

text \<open>So every body of the scenarios can be built: the one that is made from a label finds the customary one.\<close>

fun steps_ready :: "dict \<Rightarrow> demo_step list \<Rightarrow> bool" where
  "steps_ready c [] = True"
| "steps_ready c (s # ss) =
     (case (case ds_body s of Body b \<Rightarrow> b | From_context f \<Rightarrow> f c) of
        Inl e \<Rightarrow> False
      | Inr b \<Rightarrow> steps_ready (if ds_capture s = Some (lit ''rrn_label'') then dict_set (lit ''rrn_label'') (PStr (lit ''<PII:RRN:1>'')) c else c) ss)"

lemma scenarios_ready: "\<forall>sc \<in> set build_scenarios. steps_ready [] (sc_steps sc)"
  by code_simp

text \<open>A row tells the direction of its step, and is marked when the action is not the expected one.\<close>

definition row_of :: "pystr \<times> demo_step \<Rightarrow> demo_row \<Rightarrow> bool" where
  "row_of = (\<lambda>(sid, s) r. dr_session r = sid \<and> dr_direction r = ds_direction s \<and>
     (dr_mark r = lit ''OK'' \<longleftrightarrow> ds_expect s = None \<or> ds_expect s = Some (dr_action r)))"

lemma run_steps_complete:
  "steps_ready c ss \<Longrightarrow> \<exists>st' rows. run_steps env cfg latency sid i c ss st = (st', Inr rows) \<and> list_all2 row_of (map (Pair sid) ss) rows"
proof (induction ss arbitrary: i c st)
  case (Cons s ss)
  from Cons.prems obtain b where b: "(case ds_body s of Body b \<Rightarrow> b | From_context f \<Rightarrow> f c) = Inr b" by (auto split: sum.splits)
  let ?c = "if ds_capture s = Some (lit ''rrn_label'') then dict_set (lit ''rrn_label'') (PStr (lit ''<PII:RRN:1>'')) c else c"
  obtain st1 d where a: "analyze env sid (ds_direction s) DEMO_PATH [] b cfg latency st = (st1, d)" by fastforce
  have l: "rrn_token_label d = Inr (PStr (lit ''<PII:RRN:1>''))"
    using label_never_found [of env sid "ds_direction s" DEMO_PATH "[]" b cfg latency st] by (simp add: a)
  have "steps_ready ?c ss" using Cons.prems b by simp
  from Cons.IH [OF this, of "Suc i" st1] obtain st2 rows where
    r: "run_steps env cfg latency sid (Suc i) ?c ss st1 = (st2, Inr rows)" "list_all2 row_of (map (Pair sid) ss) rows" by (elim exE conjE) (rule that)
  define row where "row = \<lparr>dr_session = sid, dr_turn = i, dr_direction = ds_direction s, dr_action = action d,
      dr_expect = (case ds_expect s of None \<Rightarrow> lit ''-'' | Some a \<Rightarrow> if a = [] then lit ''-'' else a),
      dr_mark = (if row_ok (ds_expect s) d then lit ''OK'' else lit ''!!'')\<rparr>"
  have "run_steps env cfg latency sid i c (s # ss) st = (st2, Inr (row # rows))"
    using r(1) by (cases "ds_capture s = Some (lit ''rrn_label'')") (simp_all add: b a l row_def Let_def bind_result_def)
  moreover have "row_of (sid, s) row" by (auto simp: row_of_def row_def row_ok_def lit_def split: option.split)
  ultimately show ?case using r(2) by simp
qed simp

lemma run_scenarios_complete:
  "\<forall>sc \<in> set scs. steps_ready [] (sc_steps sc) \<Longrightarrow> \<exists>st' rows. run_scenarios env cfg latency scs st = (st', Inr rows) \<and>
    list_all2 row_of (concat (map (\<lambda>sc. map (Pair (sc_session sc)) (sc_steps sc)) scs)) rows"
proof (induction scs arbitrary: st)
  case (Cons sc scs)
  then have "steps_ready [] (sc_steps sc)" by simp
  from run_steps_complete [OF this, of env cfg latency "sc_session sc" 1 st] obtain st1 rows where
    r: "run_steps env cfg latency (sc_session sc) 1 [] (sc_steps sc) st = (st1, Inr rows)"
      "list_all2 row_of (map (Pair (sc_session sc)) (sc_steps sc)) rows" by (elim exE conjE) (rule that)
  from Cons obtain st2 more where
    "run_scenarios env cfg latency scs st1 = (st2, Inr more)"
    "list_all2 row_of (concat (map (\<lambda>sc. map (Pair (sc_session sc)) (sc_steps sc)) scs)) more" by (meson list.set_intros(2))
  with r show ?case by (simp add: bind_result_def list_all2_appendI)
qed simp

section \<open>Properties\<close>

text \<open>The demonstration runs to its end once the settings load, and the tables can be cleared where that was asked for: it
  gives one row per step of the scenarios, in their order, and counts the steps whose action is not the expected one.\<close>

theorem demo_seed_completes:
  assumes "load_config (settings (demo_environ args)) = Inr cfg" "da_reset args \<longrightarrow> w_db (ps_world st) 0"
  shows "\<exists>st' rows. demo_seed settings pe latency args st = (st', Inr (rows, length (filter (\<lambda>r. dr_mark r \<noteq> lit ''OK'') rows))) \<and>
    list_all2 row_of (concat (map (\<lambda>sc. map (Pair (sc_session sc)) (sc_steps sc)) build_scenarios)) rows"
proof -
  let ?st = "if da_no_ner args then st else st\<lparr>ps_detect := preload (pe_detect (pe cfg)) (cfg_detect cfg) (ps_detect st)\<rparr>"
  have "snd (demo_reset env sids ?st) = Inr ()" if "da_reset args" for env sids
    using assms(2) that by (simp add: demo_reset_def connect_def Let_def)
  then obtain st1 where s: "(if da_reset args then demo_reset (c_vault (pe_ctx (pe cfg))) (map sc_session build_scenarios) ?st else (?st, Inr ())) = (st1, Inr ())"
    by (metis prod.collapse)
  from run_scenarios_complete [OF scenarios_ready, of "pe cfg" cfg latency st1] obtain st2 rows where
    "run_scenarios (pe cfg) cfg latency build_scenarios st1 = (st2, Inr rows)"
    "list_all2 row_of (concat (map (\<lambda>sc. map (Pair (sc_session sc)) (sc_steps sc)) build_scenarios)) rows" by (elim exE conjE) (rule that)
  then show ?thesis by (simp add: demo_seed_def assms(1) s Let_def bind_result_def)
qed

theorem demo_seed_completes_witness:
  "\<exists>st' rows n. demo_seed (\<lambda>e. Inr default_config) (\<lambda>c. sample_pipe_env) 0 \<lparr>da_dsn = None, da_reset = False, da_no_ner = True\<rparr> sample_pipe_state =
     (st', Inr (rows, n)) \<and> length rows = 9"
proof -
  let ?a = "\<lparr>da_dsn = None, da_reset = False, da_no_ner = True\<rparr>"
  have "load_config ((\<lambda>e. Inr default_config) (demo_environ ?a)) = Inr default_config" "da_reset ?a \<longrightarrow> w_db (ps_world sample_pipe_state) 0"
    by (simp_all add: default_config_valid)
  from demo_seed_completes [OF this, where pe = "\<lambda>c. sample_pipe_env" and latency = 0] obtain st' rows where
    "demo_seed (\<lambda>e. Inr default_config) (\<lambda>c. sample_pipe_env) 0 ?a sample_pipe_state =
       (st', Inr (rows, length (filter (\<lambda>r. dr_mark r \<noteq> lit ''OK'') rows)))"
    "list_all2 row_of (concat (map (\<lambda>sc. map (Pair (sc_session sc)) (sc_steps sc)) build_scenarios)) rows" by (elim exE conjE) (rule that)
  moreover have "length (concat (map (\<lambda>sc. map (Pair (sc_session sc)) (sc_steps sc)) build_scenarios)) = 9" by (simp add: build_scenarios_def)
  ultimately show ?thesis by (auto dest: list_all2_lengthD)
qed

end
