(* ===== verification/Spec2Isabelle.thy ===== *)
theory Spec2Isabelle
  imports Vault_Concurrency Session_Race Sweeper Vault_Audit Live_Stream Tool_Scripts Demo
begin

text \<open>
  A verification library of \<open>dlp-server\<close>, the service that inspects the traffic between users and language
  models: it finds personal data in a request, decides per value what to do with it, rewrites
  the body, and puts the values back into the response where role and purpose allow.

  The program. A gRPC call \<open>Inspect\<close> (\<open>app/grpc_server.py\<close>) hands a body to \<open>analyze\<close> (\<open>app/pipeline.py\<close>). An adapter
  (\<open>app/adapters\<close>) turns the body into conversation turns. A request passes six stages: the injection
  guard (\<open>app/guardrail/injection.py\<close>), the detector (\<open>app/detect\<close>), the session's risk (\<open>app/context\<close>), the
  policy (\<open>app/policy\<close>, \<open>app/purpose\<close>), the memory of the purpose, and the rewriting (\<open>app/transform\<close>), which stores
  tokenized values in the vault. A response passes the output guard (\<open>app/guardrail/output_check.py\<close>) and the restoring of
  tokens. The verdict is written to the audit table or a file and broadcast to subscribers
  (\<open>app/logging\<close>), and read back over HTTP (\<open>app/api.py\<close>).

  Theories, in the order of their imports; each names its functions after those of the file.
    \<^item> Standard library: \<open>Unicode_Tables\<close> (character classes), \<open>Prelude\<close> (strings as lists of code points, slices,
      stable sorting, exceptions as the left of a sum), \<open>Py_Float\<close> (binary64 as rounded rationals), \<open>Py_Regex\<close> (the
      backtracking matcher of \<open>re\<close>), \<open>Py_Text\<close> (UTF-8, case, hexadecimal), \<open>Json\<close> (\<open>json.loads\<close>, \<open>json.dumps\<close>, \<open>repr\<close>).
    \<^item> \<open>Models\<close> (\<open>app/models.py\<close>), \<open>Config\<close> (\<open>app/config.py\<close>), \<open>Db\<close> (\<open>app/db.py\<close>): contract types, settings, the pool.
    \<^item> \<open>Regex_Rules\<close>, \<open>Merge\<close>, \<open>Detect\<close> (\<open>app/detect\<close>): patterns with checksums, the merging of overlapping spans, and
      the orchestration of the three layers with their caches.
    \<^item> \<open>Mask\<close>, \<open>Transform\<close>, \<open>Echo\<close> (\<open>app/transform/apply.py\<close>): the rewriting of one value, of a turn, and the way back.
    \<^item> \<open>Vault\<close>, \<open>Vault_Laws\<close>, \<open>Vault_Concurrency\<close> (\<open>app/transform/vault.py\<close>, \<open>app/ids.py\<close>): the two tables and their statements,
      their invariants over every sequence of calls, and interleaved transactions.
    \<^item> \<open>Store\<close>, \<open>Accumulator\<close>, \<open>Context_Stage\<close> (\<open>app/context\<close>): sessions with expiry, the risk score, the stages over them;
      \<open>Session_Race\<close>: requests of one process at the same time, over the shared objects of the store; \<open>Sweeper\<close>: its thread.
    \<^item> \<open>Policy\<close> (\<open>app/policy\<close>, \<open>app/purpose\<close>, \<open>src/scripts/seed_policy.py\<close>), \<open>Guardrail\<close> (\<open>app/guardrail\<close>).
    \<^item> \<open>Adapters\<close> (\<open>app/adapters\<close>), \<open>Events\<close> (\<open>app/logging\<close>), \<open>Pipeline\<close> (\<open>app/pipeline.py\<close>), \<open>Grpc\<close>,
      \<open>Api\<close>, \<open>Live_Stream\<close>, \<open>Vault_Audit\<close> (\<open>app/api.py\<close>); \<open>Boot\<close> (\<open>app/main.py\<close>): start, signals and end of the process.
    \<^item> \<open>Rewrite\<close>, \<open>Pipeline_Laws\<close>, \<open>Response\<close>, \<open>Service\<close>: what the composition guarantees.
    \<^item> \<open>Db_Scripts\<close>, \<open>Tool_Scripts\<close>, \<open>Demo\<close> (\<open>src/scripts\<close>): schema and migrations, code generation, the manual client, the check
      of the detector, the demonstration.

  State. The tables, the session store, the clock, the database's availability and the random draws
  form the record \<open>world\<close>; \<open>pipe_state\<close> adds the cached rules, the detector's caches and the audit
  sinks. Clock, availability and draws are streams, so a theorem holds for every behaviour of
  them. Each operation takes the state and returns it with a result; a raise is \<open>Inl\<close> of an exception.

  Contracts, as locales with their instances: \<open>rounding\<close> (binary64), \<open>token_store\<close> (the vault), \<open>session_store\<close> (the in-memory
  store), \<open>body_lens\<close> and \<open>request_lens\<close> (the adapters: what is put into a body is what is read from it).

  What the lemmas show. Detection returns disjoint spans that are exactly the texts of their ranges and drops
  no regex finding; checksums detect a changed digit. The vault never gives one label to two
  values of a session without purges, restores only what scope, time and session allow, and records the
  attempts. The score stays in its bounds and depends on values through their hashes only. The
  policy implements its priority relation and leaves no value undecided. Replacement from right to
  left is simultaneous replacement, and a repeated request is restored. The output guard is described position by
  position, overlapping ranges included. Bodies survive rebuilding. For the
  whole service: what the provider reads is the request with each value replaced by the action that
  the rules in force choose for its purpose, role and session risk (\<open>policy_applied\<close>), a
  verdict is well formed and recorded once, sessions do not disturb each other, an injection
  stops before anything is stored. The live stream delivers exactly the wanted rows and ends
  after the client has gone; the audit routes return what was recorded, every restored value among it. A
  request that runs alone in steps is the stage, concurrent requests keep the sessions apart, and a session that is in
  the store loses no value to them, whereas the first requests of a session can (\<open>first_requests_race\<close>). The process
  serves on valid settings until a signal, then ends in order; the schema script drops only what it may.

  Bounds. A repetition in a pattern iterates at most as often as the text is long, since every iteration
  consumes a character. \<open>json.loads\<close> recurses to the depth \<open>pe_depth\<close>, a parameter as the recursion limit of the
  interpreter is; values nested deeper raise \<open>RecursionError\<close>. Scanners of items count down from
  the length of the text. All other recursion is structural or has a termination proof.

  Parameters: SHA-256, UUIDv5, AES-GCM and base64, the Aho-Corasick automaton, the GLiNER model, the sources of the
  settings, the admission of a row by the database, aggregates and collation of PostgreSQL, and
  \<open>datetime.fromisoformat\<close>. Laws used about them are named hypotheses of the theorems that need them
  (\<open>env_documented\<close> for automaton and model, \<open>crypto_ok\<close> for the cipher), each shown
  to be satisfiable by a witness.

  Not modelled.
    \<^item> Requests run one after the other, except for the transactions of \<open>tokenize\<close>, the stage of the session's risk, the
      sweeper, and the publishers and readers of the bus. In \<open>Session_Race\<close> the computation of the score and the registering of
      one value are single steps, and the statements of a thread take effect in their order. In \<open>Vault_Concurrency\<close> a
      client is a call that has its hash, settings and ciphertext and whose row the table admits: the calls that raise before or there change nothing.
    \<^item> Whether the HTTP server can bind its address: a failure ends its thread only, and nothing else depends on it.
    \<^item> Floats have no signed zero, subnormals or NaN; infinities and NaN occur in JSON values only.
    \<^item> \<open>str.lower\<close> and \<open>str.upper\<close> beyond characters with an ASCII image; the code compares the results with ASCII words.
    \<^item> Log messages, apart from the DSN, and what the scripts print beyond their results; \<open>argparse\<close>, \<open>protoc\<close> and what SQL does to a
      database; the inside of \<open>grpc\<close>, \<open>uvicorn\<close> and the CORS middleware, of which the settings are kept.
    \<^item> The text of \<open>policy.yaml\<close> is replaced by its content; \<open>app/agent_control\<close> and two adapters are empty files.
\<close>

end
